(* ===== verification/Prelude.thy ===== *)
theory Prelude
  imports Main "HOL-Library.Word"
begin

text \<open>
  Shared vocabulary of the development: Rust's fixed-width integers, byte strings and
  their big- and little-endian encodings, the outcome of a Rust function (a value, an
  error or a panic), a byte stream read with \<open>read_exact\<close>, and the interface locales
  the components are proved against.
\<close>

unbundle bit_operations_syntax

section \<open>Integers, byte strings, strings\<close>

type_synonym u8 = "8 word"
type_synonym u16 = "16 word"
type_synonym u32 = "32 word"
type_synonym u64 = "64 word"
type_synonym bytes = "u8 list"

named_theorems wire_simps "sizes and take/drop laws of encoded wire records"
named_theorems state_simps "field laws of the state-changing operations"

text \<open>
  Rust's \<open>to_le_bytes\<close>, \<open>from_le_bytes\<close>, \<open>to_be_bytes\<close> and \<open>from_be_bytes\<close>. The first
  argument of the encoders is the width in bytes.
\<close>

primrec le_bytes :: "nat \<Rightarrow> 'a::len word \<Rightarrow> bytes" where
  "le_bytes 0 w = []"
| "le_bytes (Suc n) w = ucast w # le_bytes n (drop_bit 8 w)"

primrec from_le :: "bytes \<Rightarrow> 'a::len word" where
  "from_le [] = 0"
| "from_le (b # bs) = ucast b OR push_bit 8 (from_le bs)"

definition be_bytes :: "nat \<Rightarrow> 'a::len word \<Rightarrow> bytes" where
  "be_bytes n w = rev (le_bytes n w)"

definition from_be :: "bytes \<Rightarrow> 'a::len word" where
  "from_be bs = from_le (rev bs)"

text \<open>The target's byte order, for the code that reinterprets a struct in memory.\<close>

datatype endian = Little | Big

definition ne_bytes :: "endian \<Rightarrow> nat \<Rightarrow> 'a::len word \<Rightarrow> bytes" where
  "ne_bytes en n w = (case en of Little \<Rightarrow> le_bytes n w | Big \<Rightarrow> be_bytes n w)"

definition from_ne :: "endian \<Rightarrow> bytes \<Rightarrow> 'a::len word" where
  "from_ne en bs = (case en of Little \<Rightarrow> from_le bs | Big \<Rightarrow> from_be bs)"

text \<open>Decimal rendering of an unsigned integer, as \<open>format!\<close> prints it.\<close>

fun nat_str :: "nat \<Rightarrow> string" where
  "nat_str n =
     (if n < 10 then [char_of (48 + n)] else nat_str (n div 10) @ [char_of (48 + n mod 10)])"

declare nat_str.simps [simp del]

text \<open>Rust's \<open>str::contains\<close> for a string pattern.\<close>

fun str_prefix :: "string \<Rightarrow> string \<Rightarrow> bool" where
  "str_prefix [] ys = True"
| "str_prefix (x # xs) [] = False"
| "str_prefix (x # xs) (y # ys) = (x = y \<and> str_prefix xs ys)"

fun str_contains :: "string \<Rightarrow> string \<Rightarrow> bool" where
  "str_contains [] pat = (pat = [])"
| "str_contains (c # cs) pat = (str_prefix pat (c # cs) \<or> str_contains cs pat)"

section \<open>Outcomes\<close>

text \<open>
  What a Rust function of type \<open>Result<T, E>\<close> does: it returns \<open>Ok\<close> or \<open>Err\<close>, or it
  panics.
\<close>

datatype ('e, 'a) outcome = Ok 'a | Err 'e | Panic

fun and_then :: "('e, 'a) outcome \<Rightarrow> ('a \<Rightarrow> ('e, 'b) outcome) \<Rightarrow> ('e, 'b) outcome" where
  "and_then (Ok x) f = f x"
| "and_then (Err e) f = Err e"
| "and_then Panic f = Panic"

fun map_ok :: "('a \<Rightarrow> 'b) \<Rightarrow> ('e, 'a) outcome \<Rightarrow> ('e, 'b) outcome" where
  "map_ok f (Ok x) = Ok (f x)"
| "map_ok f (Err e) = Err e"
| "map_ok f Panic = Panic"

text \<open>When a composed computation succeeds.\<close>

lemma and_then_eq_Ok: "and_then x f = Ok y \<longleftrightarrow> (\<exists>z. x = Ok z \<and> f z = Ok y)"
  by (cases x) auto

lemma map_ok_eq_Ok: "map_ok f x = Ok y \<longleftrightarrow> (\<exists>z. x = Ok z \<and> y = f z)"
  by (cases x) auto

lemmas eq_Ok = and_then_eq_Ok map_ok_eq_Ok

fun map_err :: "('e \<Rightarrow> 'f) \<Rightarrow> ('e, 'a) outcome \<Rightarrow> ('f, 'a) outcome" where
  "map_err g (Ok x) = Ok x"
| "map_err g (Err e) = Err (g e)"
| "map_err g Panic = Panic"

fun is_ok :: "('e, 'a) outcome \<Rightarrow> bool" where
  "is_ok (Ok x) = True"
| "is_ok (Err e) = False"
| "is_ok Panic = False"

fun is_panic :: "('e, 'a) outcome \<Rightarrow> bool" where
  "is_panic (Ok x) = False"
| "is_panic (Err e) = False"
| "is_panic Panic = True"

text \<open>
  The \<open>?\<close> operator in code that threads a state: a failing call ends the function with its error,
  and the state keeps what was done before.
\<close>

fun try_then :: "('e + 'a) \<times> 's \<Rightarrow> ('a \<Rightarrow> 's \<Rightarrow> ('e + 'b) \<times> 's) \<Rightarrow> ('e + 'b) \<times> 's" where
  "try_then (Inl e, s) f = (Inl e, s)"
| "try_then (Inr x, s) f = f x s"

text \<open>Taking up to \<open>n\<close> frames off a byte string with a parser, stopping at the first failure.\<close>

primrec parse_n ::
    "(bytes \<Rightarrow> ('e, 'a) outcome \<times> bytes) \<Rightarrow> nat \<Rightarrow> bytes \<Rightarrow> 'a list \<times> bytes" where
  "parse_n parse 0 s = ([], s)"
| "parse_n parse (Suc n) s =
     (case parse s of
        (Ok x, r) \<Rightarrow> (case parse_n parse n r of (xs, r') \<Rightarrow> (x # xs, r'))
      | (_, r) \<Rightarrow> ([], r))"

section \<open>Lemmas on encodings\<close>

lemma length_le_bytes [simp]: "length (le_bytes n w) = n"
  by (induction n arbitrary: w) auto

lemma length_be_bytes [simp]: "length (be_bytes n w) = n"
  by (simp add: be_bytes_def)

lemma length_ne_bytes [simp]: "length (ne_bytes en n w) = n"
  by (cases en) (simp_all add: ne_bytes_def)

lemma bit_ucast_byte: "bit (ucast (b::u8) :: 'a::len word) n \<longleftrightarrow> n < LENGTH('a) \<and> bit b n"
  by (simp add: bit_simps)

lemma byte_bit_bound: "bit (b::u8) n \<Longrightarrow> n < 8"
  using bit_imp_le_length by fastforce

lemma from_le_le_bytes_take:
  "from_le (le_bytes n w) = take_bit (8 * n) (w :: 'a::len word)"
proof (induction n arbitrary: w)
  case 0
  then show ?case by simp
next
  case (Suc n)
  show ?case
  proof (rule bit_word_eqI)
    fix i
    assume "i < LENGTH('a)"
    then show "bit (from_le (le_bytes (Suc n) w) :: 'a word) i = bit (take_bit (8 * Suc n) w) i"
      by (auto simp: Suc.IH bit_simps)
  qed
qed

lemma le_bytes_from_le:
  assumes "8 * length bs \<le> LENGTH('a)"
  shows "le_bytes (length bs) (from_le bs :: 'a::len word) = bs"
  using assms
proof (induction bs)
  case Nil
  then show ?case by simp
next
  case (Cons b bs)
  have head: "ucast (from_le (b # bs) :: 'a word) = b"
    using Cons.prems by (intro bit_word_eqI) (auto simp: bit_simps)
  have small: "from_le bs = take_bit (8 * length bs) (from_le bs :: 'a word)"
    using Cons.IH Cons.prems from_le_le_bytes_take [of "length bs" "from_le bs :: 'a word"]
    by simp
  have high: "\<not> bit (from_le bs :: 'a word) i" if "8 * length bs \<le> i" for i
    using that by (subst small) (simp add: bit_simps)
  have tail: "drop_bit 8 (from_le (b # bs) :: 'a word) = from_le bs"
    using Cons.prems high
    by (intro bit_word_eqI) (auto simp: bit_simps dest: byte_bit_bound)
  from Cons head tail show ?case by simp
qed

lemma from_le_le_bytes:
  "8 * n = LENGTH('a) \<Longrightarrow> from_le (le_bytes n w) = (w :: 'a::len word)"
  by (simp add: from_le_le_bytes_take take_bit_word_eq_self)

lemma from_be_be_bytes:
  "8 * n = LENGTH('a) \<Longrightarrow> from_be (be_bytes n w) = (w :: 'a::len word)"
  by (simp add: from_be_def be_bytes_def from_le_le_bytes)

lemma be_bytes_from_be:
  assumes "length bs = n" and "8 * n \<le> LENGTH('a)"
  shows "be_bytes n (from_be bs :: 'a::len word) = bs"
  using assms le_bytes_from_le [of "rev bs", where 'a = 'a]
  by (simp add: from_be_def be_bytes_def)

lemma from_ne_ne_bytes:
  "8 * n = LENGTH('a) \<Longrightarrow> from_ne en (ne_bytes en n w) = (w :: 'a::len word)"
  by (cases en) (simp_all add: from_ne_def ne_bytes_def from_le_le_bytes from_be_be_bytes)

lemma ne_bytes_from_ne:
  assumes "length bs = n" and "8 * n \<le> LENGTH('a)"
  shows "ne_bytes en n (from_ne en bs :: 'a::len word) = bs"
  using assms le_bytes_from_le [of bs, where 'a = 'a] be_bytes_from_be [of bs n, where 'a = 'a]
  by (cases en) (auto simp: from_ne_def ne_bytes_def)

lemmas word_bytes_inverse [wire_simps] =
  from_be_be_bytes [where 'a = 32 and n = 4, simplified]
  from_be_be_bytes [where 'a = 16 and n = 2, simplified]
  from_ne_ne_bytes [where 'a = 32 and n = 4, simplified]

lemma map_upt_append: "map f [0..<n] @ map (\<lambda>k. f (n + k)) [0..<m] = map f [0..<n + m]"
  by (induction m) simp_all

lemma try_then_Inr:
  "try_then r f = (Inr y, s') \<longleftrightarrow> (\<exists>x s. r = (Inr x, s) \<and> f x s = (Inr y, s'))"
  by (cases "(r, f)" rule: try_then.cases) auto

lemma try_then_split:
  "P (try_then r f) \<longleftrightarrow>
     (\<forall>e s. r = (Inl e, s) \<longrightarrow> P (Inl e, s)) \<and> (\<forall>x s. r = (Inr x, s) \<longrightarrow> P (f x s))"
  by (cases "(r, f)" rule: try_then.cases) auto

section \<open>Interfaces\<close>

subsection \<open>Fixed-size wire records\<close>

text \<open>
  A struct that is copied to and from the wire byte for byte (\<open>bytemuck::bytes_of\<close>,
  \<open>bytemuck::from_bytes\<close>): an encoder and a decoder that are inverse on byte strings of
  the struct's size.
\<close>

locale wire_record =
  fixes enc :: "'a \<Rightarrow> bytes"
    and dec :: "bytes \<Rightarrow> 'a"
    and size :: nat
  assumes enc_length: "length (enc x) = size"
    and dec_enc: "dec (enc x) = x"
    and enc_dec: "length bs = size \<Longrightarrow> enc (dec bs) = bs"
begin

lemma take_enc: "take size (enc x @ r) = enc x"
  by (simp add: enc_length)

lemma drop_enc: "drop size (enc x @ r) = r"
  by (simp add: enc_length)

lemma dec_take: "dec (take size (enc x @ r)) = x"
  by (simp only: take_enc dec_enc)

lemma enc_inject: "enc x = enc y \<longleftrightarrow> x = y"
  by (metis dec_enc)

lemma enc_surj: "length bs = size \<Longrightarrow> \<exists>x. bs = enc x"
  by (metis enc_dec)

end

subsection \<open>Framed streams\<close>

text \<open>
  A parser that takes one frame off the front of a byte string, and the encoder whose
  frames it accepts.
\<close>

locale framed =
  fixes enc :: "'a \<Rightarrow> bytes"
    and parse :: "bytes \<Rightarrow> ('e, 'a) outcome \<times> bytes"
    and good :: "'a \<Rightarrow> bool"
  assumes parse_enc: "good x \<Longrightarrow> parse (enc x @ r) = (Ok x, r)"
begin

lemma parse_n_concat:
  "list_all good xs \<Longrightarrow> parse_n parse (length xs) (concat (map enc xs) @ r) = (xs, r)"
  by (induction xs) (auto simp: parse_enc)

lemma enc_unambiguous: "good x \<Longrightarrow> good y \<Longrightarrow> enc x @ r = enc y @ r' \<Longrightarrow> x = y \<and> r = r'"
  by (metis parse_enc outcome.inject(1) prod.inject)

end

subsection \<open>Registries\<close>

text \<open>
  A keyed table owned by a component, seen through its lookup: what an insertion and a
  removal do to it.
\<close>

locale registry =
  fixes look :: "'s \<Rightarrow> 'k \<Rightarrow> 'v option"
    and put :: "'k \<Rightarrow> 'v \<Rightarrow> 's \<Rightarrow> 's"
    and del :: "'k \<Rightarrow> 's \<Rightarrow> 's"
  assumes look_put: "look (put k v s) = (look s)(k \<mapsto> v)"
    and look_del: "look (del k s) = (look s)(k := None)"
begin

lemma put_same: "look (put k v s) k = Some v"
  by (simp add: look_put)

lemma put_other: "k' \<noteq> k \<Longrightarrow> look (put k v s) k' = look s k'"
  by (simp add: look_put)

lemma del_same: "look (del k s) k = None"
  by (simp add: look_del)

lemma del_other: "k' \<noteq> k \<Longrightarrow> look (del k s) k' = look s k'"
  by (simp add: look_del)

lemma dom_put: "dom (look (put k v s)) = insert k (dom (look s))"
  by (simp add: look_put)

lemma dom_del: "dom (look (del k s)) = dom (look s) - {k}"
  by (simp add: look_del)

lemma del_put: "look s k = None \<Longrightarrow> look (del k (put k v s)) = look s"
  by (auto simp: look_put look_del)

end

subsection \<open>Machines with an invariant\<close>

locale machine =
  fixes start :: "'s \<Rightarrow> bool"
    and step :: "'s \<Rightarrow> 's \<Rightarrow> bool"
    and inv :: "'s \<Rightarrow> bool"
  assumes start_inv: "start s \<Longrightarrow> inv s"
    and step_inv: "inv s \<Longrightarrow> step s t \<Longrightarrow> inv t"
begin

lemma steps_inv: "step\<^sup>*\<^sup>* s t \<Longrightarrow> inv s \<Longrightarrow> inv t"
  by (induction rule: rtranclp_induct) (auto intro: step_inv)

lemma reach_inv: "start s \<Longrightarrow> step\<^sup>*\<^sup>* s t \<Longrightarrow> inv t"
  using steps_inv start_inv by blast

end

end
