(* ===== verification/Errors.thy ===== *)
theory Errors
  imports Prelude
begin

text \<open>
  The error types of \<^verbatim>\<open>src/error/mod.rs\<close>, the part of \<open>std::io::Error\<close> the program
  reads, the result codes of \<^verbatim>\<open>src/handler/mod.rs\<close>, and the helpers of
  \<^verbatim>\<open>src/utils.rs\<close>. The payloads that come from other crates (\<open>nusb\<close>, \<open>rusb\<close>,
  \<open>idevice\<close>, \<open>plist\<close>, \<open>etherparse\<close>) are kept as their printed text, the only thing the
  program uses of them.
\<close>

section \<open>I/O errors\<close>

text \<open>The variants of \<open>std::io::ErrorKind\<close> the sources name; any other kind is \<open>OtherKind\<close>.\<close>

datatype io_kind =
    NotFound
  | PermissionDenied
  | ConnectionReset
  | ConnectionAborted
  | BrokenPipe
  | UnexpectedEof
  | NetworkUnreachable
  | OtherKind string

datatype io_error = IoError (kind: io_kind) (io_message: string)

section \<open>Error types\<close>

datatype ParseError =
    ParseError_IO io_error
  | ParseError_Plist string
  | TcpHeaderSlice string
  | ParseError_InvalidData string

datatype MissingFields =
    PairRecordID
  | PairRecordData
  | DeviceID
  | PortNumber
  | SystemBUID

datatype RusbmuxError =
    USB string
  | IO io_error
  | UsbmuxInterfaceNotFound
  | BulkInEndpointNotFound
  | BulkOutEndpointNotFound
  | Parse ParseError
  | Channel string
  | UnexpectedPacket string
  | InvalidData string
  | ValueNotFound MissingFields
  | DeviceNotFound u64
  | HotPlugNotSupported
  | Plist string
  | RanOutofSourcePort
  | PowerAssertionRejected string
  | Idevice string
  | RusbError string

text \<open>
  The printed forms (\<open>#[error(..)]\<close>). An I/O error and the errors of other crates print their own
  text; \<open>{0:?}\<close> prints the name of the missing field.
\<close>

fun missing_field_name :: "MissingFields \<Rightarrow> string" where
  "missing_field_name PairRecordID = ''PairRecordID''"
| "missing_field_name PairRecordData = ''PairRecordData''"
| "missing_field_name DeviceID = ''DeviceID''"
| "missing_field_name PortNumber = ''PortNumber''"
| "missing_field_name SystemBUID = ''SystemBUID''"

fun parse_error_str :: "ParseError \<Rightarrow> string" where
  "parse_error_str (ParseError_IO e) = ''IO Error: '' @ io_message e"
| "parse_error_str (ParseError_Plist e) = ''Plist parse error: '' @ e"
| "parse_error_str (TcpHeaderSlice e) = ''Unable to parse tcp header: '' @ e"
| "parse_error_str (ParseError_InvalidData e) = ''Invalid data: '' @ e"

fun error_str :: "RusbmuxError \<Rightarrow> string" where
  "error_str (USB e) = ''USB error: '' @ e"
| "error_str (IO e) = ''IO Error: '' @ io_message e"
| "error_str UsbmuxInterfaceNotFound = ''There is no usbmux interface found in the usb''"
| "error_str BulkInEndpointNotFound = ''There is no bulk (in) endpoint found in the interface''"
| "error_str BulkOutEndpointNotFound = ''There is no bulk (out) endpoint found in the interface''"
| "error_str (Parse e) = parse_error_str e"
| "error_str (Channel e) = ''Channel error: '' @ e"
| "error_str (UnexpectedPacket e) = ''Received an unexpected packet: '' @ e"
| "error_str (InvalidData e) = ''Invalid data: '' @ e"
| "error_str (ValueNotFound f) = ''value not found: '' @ missing_field_name f"
| "error_str (DeviceNotFound i) = ''A device with the '' @ nat_str (unat i) @ '' id is not found''"
| "error_str HotPlugNotSupported = ''The system probably doesn't support usb hotplug''"
| "error_str (Plist e) = ''Plist parse error: '' @ e"
| "error_str RanOutofSourcePort = ''Ran out of source port for connections''"
| "error_str (PowerAssertionRejected e) = ''The device rejected the power assertion: '' @ e"
| "error_str (Idevice e) = e"
| "error_str (RusbError e) = e"

text \<open>
  The conversions of the error types of the three kinds of channels (\<open>crossfire\<close>, \<open>watch\<close>,
  \<open>broadcast\<close>) keep the printed text.
\<close>

definition from_channel_error :: "string \<Rightarrow> RusbmuxError" where
  [simp]: "from_channel_error e = Channel e"

datatype ResultCode =
    OK
  | BadCommand
  | BadDeviceOrNoSuchFile
  | ConnectionRefused
  | BadVersion
  | InvalidInput

fun result_number :: "ResultCode \<Rightarrow> u16" where
  "result_number OK = 0"
| "result_number BadCommand = 1"
| "result_number BadDeviceOrNoSuchFile = 2"
| "result_number ConnectionRefused = 3"
| "result_number BadVersion = 6"
| "result_number InvalidInput = 22"

fun result_code :: "MissingFields \<Rightarrow> ResultCode" where
  "result_code PairRecordID = InvalidInput"
| "result_code PairRecordData = InvalidInput"
| "result_code SystemBUID = InvalidInput"
| "result_code DeviceID = BadDeviceOrNoSuchFile"
| "result_code PortNumber = BadCommand"

section \<open>Helpers\<close>

definition is_disconnect_io :: "io_error \<Rightarrow> bool" where
  "is_disconnect_io e \<longleftrightarrow>
     kind e = ConnectionReset \<or> kind e = ConnectionAborted \<or> kind e = BrokenPipe
     \<or> kind e = UnexpectedEof"

fun is_disconnect :: "RusbmuxError \<Rightarrow> bool" where
  "is_disconnect (IO e) = is_disconnect_io e"
| "is_disconnect e = False"

text \<open>
  The serial number of a device as the daemon reports it: a 24-character serial gets a dash
  after its eighth character. Serial numbers are byte strings here: \<open>len\<close> and the slice
  \<open>[..8]\<close> count bytes. The slice panics when byte 8 is not a character boundary; a UTF-8
  continuation byte is one of the form \<open>10xxxxxx\<close>.
\<close>

definition is_char_boundary :: "bytes \<Rightarrow> nat \<Rightarrow> bool" where
  "is_char_boundary s i \<longleftrightarrow> i = 0 \<or> i = length s \<or> (i < length s \<and> s ! i AND 0xC0 \<noteq> 0x80)"

definition get_serial_number :: "bytes \<Rightarrow> ('e, bytes) outcome" where
  "get_serial_number serial_num =
     (if length serial_num = 24 then
        (if is_char_boundary serial_num 8
         then Ok (take 8 serial_num @ [0x2D] @ drop 8 serial_num)
         else Panic)
      else Ok serial_num)"

definition get_serial_number_owned :: "bytes \<Rightarrow> ('e, bytes) outcome" where
  "get_serial_number_owned serial_num =
     (if length serial_num = 24 then
        (if is_char_boundary serial_num 8
         then Ok (take 8 serial_num @ [0x2D] @ drop 8 serial_num)
         else Panic)
      else Ok serial_num)"

text \<open>
  The speed enumeration of the two USB crates, with a last variant for any value the code
  does not know.
\<close>

datatype usb_speed = Low | Full | High | Super | SuperPlus | UnknownSpeed

fun nusb_speed_to_number :: "usb_speed \<Rightarrow> u64" where
  "nusb_speed_to_number Low = 1500000"
| "nusb_speed_to_number Full = 12000000"
| "nusb_speed_to_number High = 480000000"
| "nusb_speed_to_number Super = 5000000000"
| "nusb_speed_to_number SuperPlus = 10000000000"
| "nusb_speed_to_number UnknownSpeed = 0"

fun rusb_speed_to_number :: "usb_speed \<Rightarrow> u64" where
  "rusb_speed_to_number Low = 1500000"
| "rusb_speed_to_number Full = 12000000"
| "rusb_speed_to_number High = 480000000"
| "rusb_speed_to_number Super = 5000000000"
| "rusb_speed_to_number SuperPlus = 10000000000"
| "rusb_speed_to_number UnknownSpeed = 0"

section \<open>Byte streams\<close>

text \<open>
  A reader: the bytes it will deliver and the error it reports once they are used up
  (\<open>UnexpectedEof\<close> for a stream that was closed). \<open>read_exact\<close> delivers exactly \<open>n\<close> bytes
  or fails, and a failing call has taken what was left.
\<close>

record reader =
  avail :: bytes
  at_end :: io_error

definition read_exact :: "nat \<Rightarrow> reader \<Rightarrow> (io_error + bytes) \<times> reader" where
  "read_exact n r =
     (if n \<le> length (avail r)
      then (Inr (take n (avail r)), r\<lparr>avail := drop n (avail r)\<rparr>)
      else (Inl (at_end r), r\<lparr>avail := []\<rparr>))"

section \<open>Lemmas\<close>

lemma read_exact_append:
  "length xs = n \<Longrightarrow> read_exact n (r\<lparr>avail := xs @ ys\<rparr>) = (Inr xs, r\<lparr>avail := ys\<rparr>)"
  by (simp add: read_exact_def)

lemma read_exact_Inr:
  "read_exact n r = (Inr bs, r') \<Longrightarrow>
     length bs = n \<and> avail r = bs @ avail r' \<and> at_end r' = at_end r"
  by (auto simp: read_exact_def split: if_splits)

lemma result_number_inject: "result_number c = result_number d \<longleftrightarrow> c = d"
  by (cases c; cases d) simp_all

lemma is_disconnect_iff: "is_disconnect e \<longleftrightarrow> (\<exists>io. e = IO io \<and> is_disconnect_io io)"
  by (cases e) auto

text \<open>Both spellings of the serial formatting agree, and both speed tables agree.\<close>

lemma get_serial_number_owned_eq: "get_serial_number_owned = get_serial_number"
  by (rule ext) (simp add: get_serial_number_owned_def get_serial_number_def)

lemma speed_tables_agree: "rusb_speed_to_number = nusb_speed_to_number"
proof
  fix s
  show "rusb_speed_to_number s = nusb_speed_to_number s" by (cases s) simp_all
qed

lemma get_serial_number_length:
  "get_serial_number s = Ok t \<Longrightarrow> length t = (if length s = 24 then 25 else length s)"
  by (auto simp: get_serial_number_def split: if_splits)

text \<open>Formatting is injective except that a 25-byte serial may already be in dashed form.\<close>

lemma get_serial_number_undash:
  "get_serial_number s = Ok t \<Longrightarrow> length s = 24 \<Longrightarrow> s = take 8 t @ drop 9 t"
  by (auto simp: get_serial_number_def split: if_splits)

end
