(* ===== verification/Tcp_Header.thy ===== *)
theory Tcp_Header
  imports Errors
begin

text \<open>
  The TCP header the device protocol carries. The header type and its codec belong to the
  crate \<open>etherparse\<close>, which is not part of the repository: the header is the record of that
  type's documented public fields, its functions are a parameter (\<open>tcp_ops\<close>) of every
  definition that calls them, and what the program relies on is the predicates \<open>tcp_len_law\<close>
  to \<open>tcp_new_law\<close>. The last section gives one concrete codec, the RFC 793 layout, and shows
  that it satisfies them.
\<close>

record TcpHeader =
  source_port :: u16
  destination_port :: u16
  sequence_number :: u32
  acknowledgment_number :: u32
  ns :: bool
  fin :: bool
  syn :: bool
  rst :: bool
  psh :: bool
  ack :: bool
  urg :: bool
  ece :: bool
  cwr :: bool
  window_size :: u16
  checksum :: u16
  urgent_pointer :: u16
  options :: bytes

record tcp_ops =
  tcp_new :: "u16 \<Rightarrow> u16 \<Rightarrow> u32 \<Rightarrow> u16 \<Rightarrow> TcpHeader"
  tcp_from_slice :: "bytes \<Rightarrow> string + (TcpHeader \<times> bytes)"
  tcp_to_bytes :: "TcpHeader \<Rightarrow> bytes"
  tcp_header_len :: "TcpHeader \<Rightarrow> nat"

text \<open>\<open>TcpHeader::MIN_LEN\<close>: the length of a header without options.\<close>

definition MIN_LEN :: nat where
  "MIN_LEN = 20"

text \<open>A value of the crate's type holds at most 40 option bytes, in groups of four.\<close>

definition tcp_valid :: "TcpHeader \<Rightarrow> bool" where
  "tcp_valid h \<longleftrightarrow> length (options h) \<le> 40 \<and> length (options h) mod 4 = 0"

section \<open>What the program relies on\<close>

text \<open>A header is written as its fixed 20 bytes and its options.\<close>

definition tcp_len_law :: "tcp_ops \<Rightarrow> bool" where
  "tcp_len_law ops \<longleftrightarrow>
     (\<forall>h. tcp_valid h \<longrightarrow>
        tcp_header_len ops h = MIN_LEN + length (options h)
        \<and> length (tcp_to_bytes ops h) = tcp_header_len ops h)"

text \<open>Reading what was written gives the header back and leaves the rest of the slice.\<close>

definition tcp_roundtrip_law :: "tcp_ops \<Rightarrow> bool" where
  "tcp_roundtrip_law ops \<longleftrightarrow>
     (\<forall>h r. tcp_valid h \<longrightarrow> tcp_from_slice ops (tcp_to_bytes ops h @ r) = Inr (h, r))"

text \<open>
  A successful read takes the header's own length off the slice, gives a valid header and
  depends on those bytes only.
\<close>

definition tcp_slice_law :: "tcp_ops \<Rightarrow> bool" where
  "tcp_slice_law ops \<longleftrightarrow>
     (\<forall>s h r. tcp_from_slice ops s = Inr (h, r) \<longrightarrow>
        tcp_valid h \<and> tcp_header_len ops h \<le> length s \<and> r = drop (tcp_header_len ops h) s
        \<and> (\<forall>r'. tcp_from_slice ops (take (tcp_header_len ops h) s @ r') = Inr (h, r')))"

text \<open>A new header has the given fields and the default value in all others.\<close>

definition tcp_new_law :: "tcp_ops \<Rightarrow> bool" where
  "tcp_new_law ops \<longleftrightarrow>
     (\<forall>sp dp sn ws. tcp_new ops sp dp sn ws =
        \<lparr>source_port = sp, destination_port = dp, sequence_number = sn,
         acknowledgment_number = 0, ns = False, fin = False, syn = False, rst = False,
         psh = False, ack = False, urg = False, ece = False, cwr = False,
         window_size = ws, checksum = 0, urgent_pointer = 0, options = []\<rparr>)"

definition tcp_laws :: "tcp_ops \<Rightarrow> bool" where
  "tcp_laws ops \<longleftrightarrow>
     tcp_len_law ops \<and> tcp_roundtrip_law ops \<and> tcp_slice_law ops \<and> tcp_new_law ops"

section \<open>The RFC 793 layout\<close>

definition tcp_flag_byte :: "TcpHeader \<Rightarrow> u8" where
  "tcp_flag_byte h =
     horner_sum of_bool 2 [fin h, syn h, rst h, psh h, ack h, urg h, ece h, cwr h]"

definition tcp_offset_byte :: "TcpHeader \<Rightarrow> u8" where
  "tcp_offset_byte h = push_bit 4 (word_of_nat (5 + length (options h) div 4)) OR of_bool (ns h)"

definition rfc_to_bytes :: "TcpHeader \<Rightarrow> bytes" where
  "rfc_to_bytes h =
     be_bytes 2 (source_port h) @ be_bytes 2 (destination_port h)
     @ be_bytes 4 (sequence_number h) @ be_bytes 4 (acknowledgment_number h)
     @ [tcp_offset_byte h, tcp_flag_byte h]
     @ be_bytes 2 (window_size h) @ be_bytes 2 (checksum h) @ be_bytes 2 (urgent_pointer h)
     @ options h"

definition rfc_header :: "bytes \<Rightarrow> nat \<Rightarrow> TcpHeader" where
  "rfc_header s len =
     (let fl = s ! 13 in
      \<lparr>source_port = from_be (take 2 s), destination_port = from_be (take 2 (drop 2 s)),
       sequence_number = from_be (take 4 (drop 4 s)),
       acknowledgment_number = from_be (take 4 (drop 8 s)),
       ns = bit (s ! 12) 0, fin = bit fl 0, syn = bit fl 1, rst = bit fl 2, psh = bit fl 3,
       ack = bit fl 4, urg = bit fl 5, ece = bit fl 6, cwr = bit fl 7,
       window_size = from_be (take 2 (drop 14 s)), checksum = from_be (take 2 (drop 16 s)),
       urgent_pointer = from_be (take 2 (drop 18 s)), options = take (len - 20) (drop 20 s)\<rparr>)"

definition rfc_from_slice :: "bytes \<Rightarrow> string + (TcpHeader \<times> bytes)" where
  "rfc_from_slice s =
     (if length s < 20 then Inl ''not enough data to decode TCP header''
      else let len = 4 * unat (drop_bit 4 (s ! 12)) in
        if len < 20 then Inl ''TCP data offset too small''
        else if length s < len then Inl ''not enough data to decode TCP header''
        else Inr (rfc_header s len, drop len s))"

definition rfc_ops :: tcp_ops where
  "rfc_ops =
     \<lparr>tcp_new = (\<lambda>sp dp sn ws.
        \<lparr>source_port = sp, destination_port = dp, sequence_number = sn,
         acknowledgment_number = 0, ns = False, fin = False, syn = False, rst = False,
         psh = False, ack = False, urg = False, ece = False, cwr = False,
         window_size = ws, checksum = 0, urgent_pointer = 0, options = []\<rparr>),
      tcp_from_slice = rfc_from_slice, tcp_to_bytes = rfc_to_bytes,
      tcp_header_len = (\<lambda>h. 20 + length (options h))\<rparr>"

section \<open>The layout satisfies the laws\<close>

lemma length_rfc_to_bytes: "length (rfc_to_bytes h) = 20 + length (options h)"
  by (simp add: rfc_to_bytes_def)

lemma rfc_to_bytes_prefix:
  "rfc_to_bytes h = be_bytes 2 (source_port h) @ be_bytes 2 (destination_port h)
     @ be_bytes 4 (sequence_number h) @ be_bytes 4 (acknowledgment_number h)
     @ (tcp_offset_byte h # tcp_flag_byte h #
        be_bytes 2 (window_size h) @ be_bytes 2 (checksum h) @ be_bytes 2 (urgent_pointer h)
        @ options h)"
  by (simp add: rfc_to_bytes_def)

lemma rfc_nth_12: "(rfc_to_bytes h @ r) ! 12 = tcp_offset_byte h"
  by (simp add: rfc_to_bytes_prefix nth_append)

lemma rfc_nth_13: "(rfc_to_bytes h @ r) ! 13 = tcp_flag_byte h"
  by (simp add: rfc_to_bytes_prefix nth_append)

lemma tcp_flag_bits:
  "bit (tcp_flag_byte h) 0 = fin h" "bit (tcp_flag_byte h) (Suc 0) = syn h"
  "bit (tcp_flag_byte h) 2 = rst h" "bit (tcp_flag_byte h) 3 = psh h"
  "bit (tcp_flag_byte h) 4 = ack h" "bit (tcp_flag_byte h) 5 = urg h"
  "bit (tcp_flag_byte h) 6 = ece h" "bit (tcp_flag_byte h) 7 = cwr h"
  unfolding tcp_flag_byte_def bit_horner_sum_bit_word_iff by simp_all

lemma tcp_offset_len:
  assumes "tcp_valid h"
  shows "4 * unat (drop_bit 4 (tcp_offset_byte h)) = 20 + length (options h)"
proof -
  define k where "k = 5 + length (options h) div 4"
  have k: "k < 16" using assms by (auto simp: tcp_valid_def k_def)
  have "drop_bit 4 (tcp_offset_byte h) = (word_of_nat k :: u8)"
  proof (rule bit_word_eqI)
    fix i :: nat
    assume i: "i < LENGTH(8)"
    have "\<not> bit k i" if "4 \<le> i"
    proof -
      have "(16::nat) \<le> 2 ^ i" using that power_increasing [of 4 i "2::nat"] by simp
      then have "drop_bit i k = 0" using k by (simp add: drop_bit_eq_div)
      then show ?thesis by (simp add: bit_iff_odd_drop_bit)
    qed
    then show "bit (drop_bit 4 (tcp_offset_byte h)) i = bit (word_of_nat k :: u8) i"
      using i unfolding tcp_offset_byte_def k_def [symmetric] by (cases "4 \<le> i") (auto simp: bit_simps)
  qed
  moreover have "unat (word_of_nat k :: u8) = k"
    using k by (simp add: unat_of_nat)
  ultimately show ?thesis using assms by (auto simp: tcp_valid_def k_def)
qed

lemma tcp_offset_ns: "bit (tcp_offset_byte h) 0 = ns h"
  by (auto simp: tcp_offset_byte_def bit_simps)

lemma rfc_header_to_bytes:
  "rfc_header (rfc_to_bytes h @ r) (20 + length (options h)) = h"
proof -
  let ?s = "rfc_to_bytes h @ r"
  have "take 2 ?s = be_bytes 2 (source_port h)"
    and "take 2 (drop 2 ?s) = be_bytes 2 (destination_port h)"
    and "take 4 (drop 4 ?s) = be_bytes 4 (sequence_number h)"
    and "take 4 (drop 8 ?s) = be_bytes 4 (acknowledgment_number h)"
    and "take 2 (drop 14 ?s) = be_bytes 2 (window_size h)"
    and "take 2 (drop 16 ?s) = be_bytes 2 (checksum h)"
    and "take 2 (drop 18 ?s) = be_bytes 2 (urgent_pointer h)"
    and "take (length (options h)) (drop 20 ?s) = options h"
    by (simp_all add: rfc_to_bytes_prefix)
  then show ?thesis
    by (simp add: rfc_header_def Let_def rfc_nth_12 rfc_nth_13 tcp_flag_bits tcp_offset_ns
        wire_simps)
qed

lemma rfc_roundtrip: "tcp_valid h \<Longrightarrow> rfc_from_slice (rfc_to_bytes h @ r) = Inr (h, r)"
  by (simp add: rfc_from_slice_def Let_def rfc_nth_12 tcp_offset_len rfc_header_to_bytes
      length_rfc_to_bytes)

lemma rfc_from_slice_Inr:
  assumes "rfc_from_slice s = Inr (h, r)"
  obtains len where "len = 4 * unat (drop_bit 4 (s ! 12))" "20 \<le> len" "len \<le> length s"
    "20 \<le> length s" "h = rfc_header s len" "r = drop len s"
  using assms by (auto simp: rfc_from_slice_def Let_def split: if_splits)

lemma rfc_header_take:
  assumes "20 \<le> len" and "len \<le> length s"
  shows "rfc_header (take len s @ r) len = rfc_header s len"
  using assms by (simp add: rfc_header_def Let_def take_drop min_def nth_append)

lemma rfc_slice:
  assumes "rfc_from_slice s = Inr (h, r)"
  shows "tcp_valid h \<and> 20 + length (options h) \<le> length s \<and> r = drop (20 + length (options h)) s
    \<and> rfc_from_slice (take (20 + length (options h)) s @ r') = Inr (h, r')"
proof -
  from assms obtain len where len: "len = 4 * unat (drop_bit 4 (s ! 12))" "20 \<le> len"
    "len \<le> length s" "20 \<le> length s" "h = rfc_header s len" "r = drop len s"
    by (rule rfc_from_slice_Inr)
  have "unat (drop_bit 4 (s ! 12)) < 16"
    using order_less_le_trans [OF unsigned_less [of "s ! 12"], of "256 :: nat"]
    by (simp add: unat_drop_bit_eq drop_bit_eq_div less_mult_imp_div_less unat_div)
  then have bound: "len \<le> 60" using len(1) by simp
  have opts: "length (options h) = len - 20"
    using len by (simp add: rfc_header_def Let_def)
  have "(len - 20) mod 4 = 0" using len(1,2) by (simp add: mod_eq_0_iff_dvd dvd_diff_nat)
  then have "tcp_valid h" using bound opts by (simp add: tcp_valid_def)
  moreover have "rfc_from_slice (take len s @ r') = Inr (h, r')"
    using len rfc_header_take [OF len(2,3)]
    by (simp add: rfc_from_slice_def Let_def nth_append)
  ultimately show ?thesis using len(2,3,6) opts by simp
qed

lemma rfc_ops_laws: "tcp_laws rfc_ops"
proof -
  have "tcp_len_law rfc_ops"
    by (simp add: tcp_len_law_def rfc_ops_def length_rfc_to_bytes MIN_LEN_def)
  moreover have "tcp_roundtrip_law rfc_ops"
    by (simp add: tcp_roundtrip_law_def rfc_ops_def rfc_roundtrip)
  moreover have "tcp_slice_law rfc_ops"
    unfolding tcp_slice_law_def rfc_ops_def using rfc_slice by simp
  moreover have "tcp_new_law rfc_ops"
    by (simp add: tcp_new_law_def rfc_ops_def)
  ultimately show ?thesis by (simp add: tcp_laws_def)
qed

section \<open>The laws, ready to use\<close>

lemma tcp_len:
  assumes "tcp_laws ops" and "tcp_valid h"
  shows "length (tcp_to_bytes ops h) = MIN_LEN + length (options h)"
    and "tcp_header_len ops h = MIN_LEN + length (options h)"
  using assms by (auto simp: tcp_laws_def tcp_len_law_def)

lemma tcp_roundtrip:
  "tcp_laws ops \<Longrightarrow> tcp_valid h \<Longrightarrow> tcp_from_slice ops (tcp_to_bytes ops h @ r) = Inr (h, r)"
  by (simp add: tcp_laws_def tcp_roundtrip_law_def)

lemma tcp_slice:
  assumes "tcp_laws ops" and "tcp_from_slice ops s = Inr (h, r)"
  shows "tcp_valid h" and "tcp_header_len ops h \<le> length s"
    and "r = drop (tcp_header_len ops h) s"
    and "tcp_from_slice ops (take (tcp_header_len ops h) s @ r') = Inr (h, r')"
proof -
  from assms have "tcp_slice_law ops" by (simp add: tcp_laws_def)
  with assms(2) have "tcp_valid h \<and> tcp_header_len ops h \<le> length s
      \<and> r = drop (tcp_header_len ops h) s
      \<and> (\<forall>r'. tcp_from_slice ops (take (tcp_header_len ops h) s @ r') = Inr (h, r'))"
    unfolding tcp_slice_law_def by blast
  then show "tcp_valid h" and "tcp_header_len ops h \<le> length s"
    and "r = drop (tcp_header_len ops h) s"
    and "tcp_from_slice ops (take (tcp_header_len ops h) s @ r') = Inr (h, r')"
    by blast+
qed

end
