(* ===== verification/Utf8.thy ===== *)
theory Utf8
  imports Prelude
begin

text \<open>
  \<open>String::from_utf8_lossy\<close> of the standard library, which the parser of control packets
  uses: every maximal prefix of an ill-formed sequence becomes U+FFFD (\<open>EF BF BD\<close>). A Rust
  \<open>String\<close> is modelled by its UTF-8 bytes.
\<close>

definition replacement :: bytes where
  "replacement = [0xEF, 0xBF, 0xBD]"

definition is_cont :: "u8 \<Rightarrow> bool" where
  "is_cont b \<longleftrightarrow> 0x80 \<le> b \<and> b \<le> 0xBF"

text \<open>The second bytes allowed after a three-byte or four-byte lead.\<close>

definition second3 :: "u8 \<Rightarrow> u8 \<Rightarrow> bool" where
  "second3 b c \<longleftrightarrow>
     (b = 0xE0 \<and> 0xA0 \<le> c \<and> c \<le> 0xBF)
     \<or> (0xE1 \<le> b \<and> b \<le> 0xEC \<and> is_cont c)
     \<or> (b = 0xED \<and> 0x80 \<le> c \<and> c \<le> 0x9F)
     \<or> (0xEE \<le> b \<and> b \<le> 0xEF \<and> is_cont c)"

definition second4 :: "u8 \<Rightarrow> u8 \<Rightarrow> bool" where
  "second4 b c \<longleftrightarrow>
     (b = 0xF0 \<and> 0x90 \<le> c \<and> c \<le> 0xBF)
     \<or> (0xF1 \<le> b \<and> b \<le> 0xF3 \<and> is_cont c)
     \<or> (b = 0xF4 \<and> 0x80 \<le> c \<and> c \<le> 0x8F)"

definition is_lead2 :: "u8 \<Rightarrow> bool" where
  "is_lead2 b \<longleftrightarrow> 0xC2 \<le> b \<and> b \<le> 0xDF"

definition is_lead3 :: "u8 \<Rightarrow> bool" where
  "is_lead3 b \<longleftrightarrow> 0xE0 \<le> b \<and> b \<le> 0xEF"

definition is_lead4 :: "u8 \<Rightarrow> bool" where
  "is_lead4 b \<longleftrightarrow> 0xF0 \<le> b \<and> b \<le> 0xF4"

text \<open>
  The next character of a byte string: \<open>(True, n)\<close> when its first \<open>n\<close> bytes are one
  character, \<open>(False, n)\<close> when its first \<open>n\<close> bytes are a maximal ill-formed prefix.
\<close>

fun utf8_next :: "bytes \<Rightarrow> bool \<times> nat" where
  "utf8_next [] = (False, 0)"
| "utf8_next (b # r) =
     (if b < 0x80 then (True, 1)
      else if is_lead2 b then
        (case r of c # _ \<Rightarrow> if is_cont c then (True, 2) else (False, 1) | [] \<Rightarrow> (False, 1))
      else if is_lead3 b then
        (case r of
           c # r' \<Rightarrow> if second3 b c then
               (case r' of d # _ \<Rightarrow> if is_cont d then (True, 3) else (False, 2) | [] \<Rightarrow> (False, 2))
             else (False, 1)
         | [] \<Rightarrow> (False, 1))
      else if is_lead4 b then
        (case r of
           c # r' \<Rightarrow> if second4 b c then
               (case r' of
                  d # r'' \<Rightarrow> if is_cont d then
                      (case r'' of e # _ \<Rightarrow> if is_cont e then (True, 4) else (False, 3)
                       | [] \<Rightarrow> (False, 3))
                    else (False, 2)
                | [] \<Rightarrow> (False, 2))
             else (False, 1)
         | [] \<Rightarrow> (False, 1))
      else (False, 1))"

declare utf8_next.simps(2) [simp del]

lemma utf8_next_pos: "s \<noteq> [] \<Longrightarrow> 0 < snd (utf8_next s)"
  by (cases s) (auto simp: utf8_next.simps(2) split: list.splits)

lemma utf8_next_drop: "s \<noteq> [] \<Longrightarrow> (ok, n) = utf8_next s \<Longrightarrow> length s - n < length s"
  using utf8_next_pos [of s] by (metis diff_less length_greater_0_conv snd_conv)

lemma utf8_next_le: "snd (utf8_next s) \<le> length s"
  by (cases s) (auto simp: utf8_next.simps(2) split: list.splits)

function from_utf8_lossy :: "bytes \<Rightarrow> bytes" where
  "from_utf8_lossy s =
     (if s = [] then []
      else case utf8_next s of
        (True, n) \<Rightarrow> take n s @ from_utf8_lossy (drop n s)
      | (False, n) \<Rightarrow> replacement @ from_utf8_lossy (drop n s))"
  by pat_completeness auto
termination
  by (relation "measure length") (simp_all add: utf8_next_drop)

function is_utf8 :: "bytes \<Rightarrow> bool" where
  "is_utf8 s =
     (if s = [] then True
      else case utf8_next s of
        (True, n) \<Rightarrow> is_utf8 (drop n s)
      | (False, n) \<Rightarrow> False)"
  by pat_completeness auto
termination
  by (relation "measure length") (simp_all add: utf8_next_drop)

declare from_utf8_lossy.simps [simp del] is_utf8.simps [simp del]

section \<open>Well-formed strings are unchanged, and the result is well formed\<close>

lemma from_utf8_lossy_Nil [simp]: "from_utf8_lossy [] = []"
  by (simp add: from_utf8_lossy.simps)

lemma is_utf8_Nil [simp]: "is_utf8 []"
  by (simp add: is_utf8.simps)

lemma from_utf8_lossy_id: "is_utf8 s \<Longrightarrow> from_utf8_lossy s = s"
proof (induction s rule: is_utf8.induct)
  case (1 s)
  show ?case
  proof (cases "s = []")
    case False
    with "1.prems" obtain n where "utf8_next s = (True, n)" "is_utf8 (drop n s)"
      by (subst (asm) is_utf8.simps) (auto split: prod.splits bool.splits)
    with "1.IH" False show ?thesis
      by (subst from_utf8_lossy.simps) simp
  qed simp
qed

text \<open>Whether a character starts a string is decided by its own bytes.\<close>

lemma utf8_next_append:
  assumes "utf8_next s = (True, n)"
  shows "utf8_next (take n s @ t) = (True, n)"
proof (cases s)
  case Nil
  with assms show ?thesis by simp
next
  case (Cons b r)
  with assms show ?thesis
    by (auto simp: utf8_next.simps(2) split: if_splits list.splits)
qed

lemma is_utf8_append:
  assumes "utf8_next s = (True, n)" and "s \<noteq> []" and "is_utf8 t"
  shows "is_utf8 (take n s @ t)"
proof -
  have "n \<le> length s" and "0 < n"
    using utf8_next_le [of s] utf8_next_pos [of s] assms by simp_all
  with assms utf8_next_append [of s n t] show ?thesis
    by (subst is_utf8.simps) simp
qed

lemma is_utf8_replacement: "is_utf8 t \<Longrightarrow> is_utf8 (replacement @ t)"
  by (subst is_utf8.simps)
    (simp add: replacement_def utf8_next.simps(2) is_lead2_def is_lead3_def second3_def
      is_cont_def)

lemma is_utf8_from_utf8_lossy: "is_utf8 (from_utf8_lossy s)"
proof (induction s rule: from_utf8_lossy.induct)
  case (1 s)
  show ?case
  proof (cases "s = []")
    case False
    obtain ok n where n: "utf8_next s = (ok, n)" by (cases "utf8_next s")
    with False "1.IH" show ?thesis
      by (subst from_utf8_lossy.simps)
        (cases ok, simp_all add: is_utf8_append is_utf8_replacement)
  qed simp
qed

lemma from_utf8_lossy_idem: "from_utf8_lossy (from_utf8_lossy s) = from_utf8_lossy s"
  by (simp add: from_utf8_lossy_id is_utf8_from_utf8_lossy)

lemma from_utf8_lossy_Nil_iff: "from_utf8_lossy s = [] \<longleftrightarrow> s = []"
  using utf8_next_pos [of s]
  by (subst from_utf8_lossy.simps) (auto simp: replacement_def split: prod.splits bool.splits)

end
