(* ===== verification/Device_Mux.thy ===== *)
theory Device_Mux
  imports Tcp_Header Utf8
begin

text \<open>
  The packets exchanged with a device over USB: \<^verbatim>\<open>src/parser/device_mux/mod.rs\<close>. A packet
  is a mux header (version 1 for the version exchange, version 2 for everything else), a TCP
  header when the protocol is TCP, and a payload. This theory has the header and payload
  codecs, the two parsers (\<open>from_slice\<close> on a slice it advances, \<open>from_reader\<close> on a byte
  stream) and the encoder, and proves framing, round-trip and agreement of the parsers. The
  crates \<open>bytemuck\<close> and \<open>pack1\<close> are used only to lay out structs of big-endian integers
  without padding.
\<close>

section \<open>Protocols\<close>

datatype UsbDevicePacketProtocol = PVersion | PControl | PSetup | PTcp

fun protocol_u32 :: "UsbDevicePacketProtocol \<Rightarrow> u32" where
  "protocol_u32 PVersion = 0"
| "protocol_u32 PControl = 1"
| "protocol_u32 PSetup = 2"
| "protocol_u32 PTcp = 6"

definition protocol_encode :: "UsbDevicePacketProtocol \<Rightarrow> bytes" where
  "protocol_encode p = be_bytes 4 (protocol_u32 p)"

definition protocol_new :: "bytes \<Rightarrow> ParseError + UsbDevicePacketProtocol" where
  "protocol_new v =
     (let n = (from_be v :: u32) in
      if n = 0 then Inr PVersion
      else if n = 1 then Inr PControl
      else if n = 2 then Inr PSetup
      else if n = 6 then Inr PTcp
      else Inl (ParseError_InvalidData ''`{value}` is not a valid device mux protocol''))"

text \<open>\<open>transmute\<close> of a number that is no variant is undefined behaviour: \<open>None\<close>.\<close>

definition from_u32_unchecked :: "u32 \<Rightarrow> UsbDevicePacketProtocol option" where
  "from_u32_unchecked v =
     (if v = 0 then Some PVersion else if v = 1 then Some PControl
      else if v = 2 then Some PSetup else if v = 6 then Some PTcp else None)"

definition protocol_try_from_u32 :: "u32 \<Rightarrow> string + UsbDevicePacketProtocol" where
  "protocol_try_from_u32 value =
     (if value = 0 then Inr PVersion
      else if value = 1 then Inr PControl
      else if value = 2 then Inr PSetup
      else if value = 6 then Inr PTcp
      else Inl (''`'' @ nat_str (unat value) @ ''` is not a valid device mux protocol''))"

definition protocol_try_from_bytes :: "bytes \<Rightarrow> string + UsbDevicePacketProtocol" where
  "protocol_try_from_bytes value = protocol_try_from_u32 (from_be value)"

section \<open>Headers\<close>

record UsbDevicePacketHeaderV1 =
  v1_protocol :: u32
  v1_length :: u32

record UsbDevicePacketHeaderV2 =
  v2_protocol :: u32
  v2_length :: u32
  v2_magic :: u32
  v2_send_seq :: u16
  v2_recv_seq :: u16

definition V1_SIZE :: nat where "V1_SIZE = 8"
definition V2_SIZE :: nat where "V2_SIZE = 16"

definition DEVICE_MUX_HEADER_V2_MAGIC :: u32 where
  "DEVICE_MUX_HEADER_V2_MAGIC = 0xfeedface"

definition v1_new :: "UsbDevicePacketProtocol \<Rightarrow> u32 \<Rightarrow> UsbDevicePacketHeaderV1" where
  "v1_new p len = \<lparr>v1_protocol = protocol_u32 p, v1_length = len\<rparr>"

definition v1_encode :: "UsbDevicePacketHeaderV1 \<Rightarrow> bytes" where
  "v1_encode h = be_bytes 4 (v1_protocol h) @ be_bytes 4 (v1_length h)"

definition v1_decode :: "bytes \<Rightarrow> UsbDevicePacketHeaderV1" where
  "v1_decode b = \<lparr>v1_protocol = from_be (take 4 b), v1_length = from_be (take 4 (drop 4 b))\<rparr>"

text \<open>\<open>length as u32\<close> keeps the low 32 bits.\<close>

definition v2_new :: "UsbDevicePacketProtocol \<Rightarrow> nat \<Rightarrow> u16 \<Rightarrow> u16 \<Rightarrow> UsbDevicePacketHeaderV2" where
  "v2_new p len send_seq recv_seq =
     \<lparr>v2_protocol = protocol_u32 p, v2_length = word_of_nat len,
      v2_magic = DEVICE_MUX_HEADER_V2_MAGIC, v2_send_seq = send_seq, v2_recv_seq = recv_seq\<rparr>"

definition v2_encode :: "UsbDevicePacketHeaderV2 \<Rightarrow> bytes" where
  "v2_encode h =
     be_bytes 4 (v2_protocol h) @ be_bytes 4 (v2_length h) @ be_bytes 4 (v2_magic h)
     @ be_bytes 2 (v2_send_seq h) @ be_bytes 2 (v2_recv_seq h)"

definition v2_decode :: "bytes \<Rightarrow> UsbDevicePacketHeaderV2" where
  "v2_decode b =
     \<lparr>v2_protocol = from_be (take 4 b), v2_length = from_be (take 4 (drop 4 b)),
      v2_magic = from_be (take 4 (drop 8 b)), v2_send_seq = from_be (take 2 (drop 12 b)),
      v2_recv_seq = from_be (take 2 (drop 14 b))\<rparr>"

datatype UsbDevicePacketHeader = V1 UsbDevicePacketHeaderV1 | V2 UsbDevicePacketHeaderV2

fun as_v1 :: "UsbDevicePacketHeader \<Rightarrow> UsbDevicePacketHeaderV1 option" where
  "as_v1 (V1 h) = Some h"
| "as_v1 (V2 h) = None"

fun as_v2 :: "UsbDevicePacketHeader \<Rightarrow> UsbDevicePacketHeaderV2 option" where
  "as_v2 (V2 h) = Some h"
| "as_v2 (V1 h) = None"

fun header_size :: "UsbDevicePacketHeader \<Rightarrow> nat" where
  "header_size (V1 h) = V1_SIZE"
| "header_size (V2 h) = V2_SIZE"

fun header_raw_protocol :: "UsbDevicePacketHeader \<Rightarrow> u32" where
  "header_raw_protocol (V1 h) = v1_protocol h"
| "header_raw_protocol (V2 h) = v2_protocol h"

definition get_protocol :: "UsbDevicePacketHeader \<Rightarrow> UsbDevicePacketProtocol option" where
  "get_protocol h = from_u32_unchecked (header_raw_protocol h)"

fun get_length :: "UsbDevicePacketHeader \<Rightarrow> u32" where
  "get_length (V1 h) = v1_length h"
| "get_length (V2 h) = v2_length h"

text \<open>
  The slice is passed by reference and advanced, so the rest of it is part of the result. A
  slice index out of range panics: the code checks for four bytes only.
\<close>

definition header_from_slice ::
    "bytes \<Rightarrow> (ParseError, UsbDevicePacketHeader) outcome \<times> bytes" where
  "header_from_slice s =
     (if length s < 4 then (Err (ParseError_InvalidData ''slice too short for header''), s)
      else case protocol_new (take 4 s) of
        Inl e \<Rightarrow> (Err e, s)
      | Inr PVersion \<Rightarrow>
          if length s < V1_SIZE then (Panic, s)
          else (Ok (V1 (v1_decode (take V1_SIZE s))), drop V1_SIZE s)
      | Inr _ \<Rightarrow>
          if length s < V2_SIZE then (Panic, s)
          else (Ok (V2 (v2_decode (take V2_SIZE s))), drop V2_SIZE s))"

definition header_from_reader ::
    "reader \<Rightarrow> (ParseError + UsbDevicePacketHeader) \<times> reader" where
  "header_from_reader r =
     (case read_exact V1_SIZE r of
        (Inl e, r1) \<Rightarrow> (Inl (ParseError_IO e), r1)
      | (Inr b1, r1) \<Rightarrow>
          (case protocol_new (take 4 b1) of
             Inl e \<Rightarrow> (Inl e, r1)
           | Inr PVersion \<Rightarrow> (Inr (V1 (v1_decode b1)), r1)
           | Inr _ \<Rightarrow>
               (case read_exact (V2_SIZE - V1_SIZE) r1 of
                  (Inl e, r2) \<Rightarrow> (Inl (ParseError_IO e), r2)
                | (Inr b2, r2) \<Rightarrow> (Inr (V2 (v2_decode (b1 @ b2))), r2))))"

fun header_encode_into :: "UsbDevicePacketHeader \<Rightarrow> bytes \<Rightarrow> bytes" where
  "header_encode_into (V1 h) buf = buf @ v1_encode h"
| "header_encode_into (V2 h) buf = buf @ v2_encode h"

definition header_encode :: "UsbDevicePacketHeader \<Rightarrow> bytes" where
  "header_encode h = header_encode_into h []"

section \<open>Payloads\<close>

record UsbDevicePacketVersion =
  major :: u32
  minor :: u32
  padding :: u32

definition VERSION_SIZE :: nat where "VERSION_SIZE = 12"

definition version_new :: "u32 \<Rightarrow> u32 \<Rightarrow> u32 \<Rightarrow> UsbDevicePacketVersion" where
  "version_new ma mi pad = \<lparr>major = ma, minor = mi, padding = pad\<rparr>"

definition version_encode :: "UsbDevicePacketVersion \<Rightarrow> bytes" where
  "version_encode v = be_bytes 4 (major v) @ be_bytes 4 (minor v) @ be_bytes 4 (padding v)"

definition version_of_bytes :: "bytes \<Rightarrow> UsbDevicePacketVersion" where
  "version_of_bytes b =
     \<lparr>major = from_be (take 4 b), minor = from_be (take 4 (drop 4 b)),
      padding = from_be (take 4 (drop 8 b))\<rparr>"

text \<open>\<open>bytemuck::from_bytes\<close> panics unless the slice has exactly the size of the struct.\<close>

definition version_decode :: "bytes \<Rightarrow> (ParseError, UsbDevicePacketVersion) outcome" where
  "version_decode b = (if length b = VERSION_SIZE then Ok (version_of_bytes b) else Panic)"

text \<open>The message of an error payload is a Rust string, modelled by its UTF-8 bytes.\<close>

datatype UsbDevicePacketPayload =
    Bytes bytes
  | Version UsbDevicePacketVersion
  | Error "u8 option" "bytes option"

fun payload_len :: "UsbDevicePacketPayload \<Rightarrow> nat" where
  "payload_len (Bytes b) = length b"
| "payload_len (Version v) = VERSION_SIZE"
| "payload_len (Error (Some e) (Some m)) = length m + 1"
| "payload_len (Error (Some e) None) = 1"
| "payload_len (Error None m) = 0"

definition payload_is_empty :: "UsbDevicePacketPayload \<Rightarrow> bool" where
  "payload_is_empty p \<longleftrightarrow> payload_len p = 0"

fun payload_decode ::
    "bytes \<Rightarrow> UsbDevicePacketProtocol \<Rightarrow> (ParseError, UsbDevicePacketPayload) outcome" where
  "payload_decode b PVersion = map_ok Version (version_decode b)"
| "payload_decode b PControl =
     (case b of
        [] \<Rightarrow> Ok (Error None None)
      | [e] \<Rightarrow> Ok (Error (Some e) None)
      | e # m \<Rightarrow> Ok (Error (Some e) (Some (from_utf8_lossy m))))"
| "payload_decode b PSetup = Ok (Bytes b)"
| "payload_decode b PTcp = Ok (Bytes b)"

fun payload_encode_into :: "UsbDevicePacketPayload \<Rightarrow> bytes \<Rightarrow> bytes" where
  "payload_encode_into (Bytes b) buf = buf @ b"
| "payload_encode_into (Version v) buf = buf @ version_encode v"
| "payload_encode_into (Error None m) buf = buf"
| "payload_encode_into (Error (Some e) None) buf = buf @ [e]"
| "payload_encode_into (Error (Some e) (Some m)) buf = (buf @ [e]) @ m"

fun payload_encode :: "UsbDevicePacketPayload \<Rightarrow> bytes" where
  "payload_encode (Bytes b) = b"
| "payload_encode (Version v) = version_encode v"
| "payload_encode (Error None m) = []"
| "payload_encode (Error (Some e) None) = [e]"
| "payload_encode (Error (Some e) (Some m)) = [e] @ m"

fun as_bytes :: "UsbDevicePacketPayload \<Rightarrow> bytes option" where
  "as_bytes (Bytes b) = Some b"
| "as_bytes p = None"

fun as_version :: "UsbDevicePacketPayload \<Rightarrow> UsbDevicePacketVersion option" where
  "as_version (Version v) = Some v"
| "as_version p = None"

section \<open>Packets\<close>

record UsbDevicePacket =
  header :: UsbDevicePacketHeader
  tcp_hdr :: "TcpHeader option"
  payload :: UsbDevicePacketPayload

definition HEADERS_LEN_V2 :: nat where
  "HEADERS_LEN_V2 = V2_SIZE + MIN_LEN"

definition packet_new ::
    "UsbDevicePacketHeader \<Rightarrow> TcpHeader option \<Rightarrow> UsbDevicePacketPayload \<Rightarrow> UsbDevicePacket" where
  "packet_new h t p = \<lparr>header = h, tcp_hdr = t, payload = p\<rparr>"

definition tcp_hdr_len :: "tcp_ops \<Rightarrow> TcpHeader option \<Rightarrow> nat" where
  "tcp_hdr_len ops t = (case t of None \<Rightarrow> 0 | Some h \<Rightarrow> tcp_header_len ops h)"

definition too_short_error :: "nat \<Rightarrow> nat \<Rightarrow> ParseError" where
  "too_short_error total_length total_header_len =
     ParseError_InvalidData (''packet length '' @ nat_str total_length
       @ '' is less than header size '' @ nat_str total_header_len)"

definition tcp_part_from_slice ::
    "tcp_ops \<Rightarrow> UsbDevicePacketHeader \<Rightarrow> UsbDevicePacketProtocol \<Rightarrow> bytes
       \<Rightarrow> ParseError + (TcpHeader option \<times> bytes)" where
  "tcp_part_from_slice ops h protocol s =
     (if protocol = PTcp \<and> as_v2 h \<noteq> None
      then (case tcp_from_slice ops s of
              Inl e \<Rightarrow> Inl (ParseError_InvalidData
                         (''failed to parse TCP header from slice: '' @ e))
            | Inr (t, rest) \<Rightarrow> Inr (Some t, rest))
      else Inr (None, s))"

definition tcp_part_from_reader ::
    "tcp_ops \<Rightarrow> UsbDevicePacketProtocol \<Rightarrow> reader
       \<Rightarrow> (ParseError + TcpHeader option) \<times> reader" where
  "tcp_part_from_reader ops protocol r =
     (if protocol = PTcp
      then (case read_exact MIN_LEN r of
              (Inl e, r2) \<Rightarrow> (Inl (ParseError_IO e), r2)
            | (Inr b, r2) \<Rightarrow>
                (case tcp_from_slice ops b of
                   Inl e \<Rightarrow> (Inl (TcpHeaderSlice e), r2)
                 | Inr (t, _) \<Rightarrow> (Inr (Some t), r2)))
      else (Inr None, r))"

definition packet_from_slice ::
    "tcp_ops \<Rightarrow> bytes \<Rightarrow> (ParseError, UsbDevicePacket) outcome \<times> bytes" where
  "packet_from_slice ops s =
     (case header_from_slice s of
        (Err e, s1) \<Rightarrow> (Err e, s1)
      | (Panic, s1) \<Rightarrow> (Panic, s1)
      | (Ok h, s1) \<Rightarrow>
          (case get_protocol h of
             None \<Rightarrow> (Panic, s1)
           | Some protocol \<Rightarrow>
               let consumed = length s - length s1 in
               (case tcp_part_from_slice ops h protocol s1 of
                  Inl e \<Rightarrow> (Err e, s1)
                | Inr (t, s2) \<Rightarrow>
                    let total_header_len = header_size h + tcp_hdr_len ops t;
                        total_length = unat (get_length h)
                    in if total_length < total_header_len
                       then (Err (too_short_error total_length total_header_len), s2)
                       else let plen = total_length - total_header_len in
                         if plen > length s2
                         then (Err (ParseError_InvalidData
                                 (''packet length '' @ nat_str total_length
                                  @ '' exceeds remaining slice length ''
                                  @ nat_str (length s2 + consumed))), s2)
                         else (map_ok (packet_new h t) (payload_decode (take plen s2) protocol),
                               drop plen s2))))"

definition packet_from_reader ::
    "tcp_ops \<Rightarrow> reader \<Rightarrow> (ParseError, UsbDevicePacket) outcome \<times> reader" where
  "packet_from_reader ops r =
     (case header_from_reader r of
        (Inl e, r1) \<Rightarrow> (Err e, r1)
      | (Inr h, r1) \<Rightarrow>
          (case get_protocol h of
             None \<Rightarrow> (Panic, r1)
           | Some protocol \<Rightarrow>
               (case tcp_part_from_reader ops protocol r1 of
                  (Inl e, r2) \<Rightarrow> (Err e, r2)
                | (Inr t, r2) \<Rightarrow>
                    let total_header_len = header_size h + tcp_hdr_len ops t;
                        total_length = unat (get_length h)
                    in if total_length < total_header_len
                       then (Err (too_short_error total_length total_header_len), r2)
                       else (case read_exact (total_length - total_header_len) r2 of
                               (Inl e, r3) \<Rightarrow> (Err (ParseError_IO e), r3)
                             | (Inr b, r3) \<Rightarrow>
                                 (map_ok (packet_new h t) (payload_decode b protocol), r3)))))"

definition inner_encode_into :: "tcp_ops \<Rightarrow> UsbDevicePacket \<Rightarrow> bytes \<Rightarrow> bytes" where
  "inner_encode_into ops p buf =
     (let buf1 = header_encode_into (header p) buf;
          buf2 = (case tcp_hdr p of None \<Rightarrow> buf1 | Some t \<Rightarrow> buf1 @ tcp_to_bytes ops t)
      in payload_encode_into (payload p) buf2)"

definition encode_into :: "tcp_ops \<Rightarrow> UsbDevicePacket \<Rightarrow> bytes \<Rightarrow> bytes" where
  "encode_into ops p buf = inner_encode_into ops p buf"

definition encode :: "tcp_ops \<Rightarrow> UsbDevicePacket \<Rightarrow> bytes" where
  "encode ops p = inner_encode_into ops p []"

text \<open>
  The subtraction of two \<open>usize\<close> values overflows when the length field is too small: \<open>None\<close>.
\<close>

definition get_payload_len_from_headers :: "tcp_ops \<Rightarrow> UsbDevicePacket \<Rightarrow> nat option" where
  "get_payload_len_from_headers ops p =
     (let len = unat (get_length (header p)); hs = header_size (header p);
          ts = tcp_hdr_len ops (tcp_hdr p)
      in if hs + ts \<le> len then Some (len - hs - ts) else None)"

section \<open>Well-formed packets\<close>

text \<open>The payload a protocol's packets carry, in the form the decoder gives it.\<close>

fun payload_fits :: "UsbDevicePacketProtocol \<Rightarrow> UsbDevicePacketPayload \<Rightarrow> bool" where
  "payload_fits PVersion (Version v) = True"
| "payload_fits PControl (Error None None) = True"
| "payload_fits PControl (Error (Some e) None) = True"
| "payload_fits PControl (Error (Some e) (Some m)) = (m \<noteq> [] \<and> is_utf8 m)"
| "payload_fits PSetup (Bytes b) = True"
| "payload_fits PTcp (Bytes b) = True"
| "payload_fits pr p = False"

text \<open>A header of the version its protocol asks for.\<close>

fun header_ok :: "UsbDevicePacketHeader \<Rightarrow> bool" where
  "header_ok (V1 h) = (v1_protocol h = 0)"
| "header_ok (V2 h) = (v2_protocol h = 1 \<or> v2_protocol h = 2 \<or> v2_protocol h = 6)"

definition tcp_hdr_ok :: "UsbDevicePacketProtocol \<Rightarrow> TcpHeader option \<Rightarrow> bool" where
  "tcp_hdr_ok pr t =
     (case t of None \<Rightarrow> pr \<noteq> PTcp | Some h \<Rightarrow> pr = PTcp \<and> tcp_valid h)"

definition options_len :: "TcpHeader option \<Rightarrow> nat" where
  "options_len t = (case t of None \<Rightarrow> 0 | Some h \<Rightarrow> MIN_LEN + length (options h))"

text \<open>The length field counts the packet as the encoder writes it, headers included.\<close>

definition packet_size :: "UsbDevicePacket \<Rightarrow> nat" where
  "packet_size p = header_size (header p) + options_len (tcp_hdr p) + payload_len (payload p)"

definition wf_shape :: "UsbDevicePacket \<Rightarrow> bool" where
  "wf_shape p \<longleftrightarrow>
     header_ok (header p)
     \<and> (\<exists>pr. get_protocol (header p) = Some pr \<and> tcp_hdr_ok pr (tcp_hdr p)
             \<and> payload_fits pr (payload p))"

definition wf_packet :: "UsbDevicePacket \<Rightarrow> bool" where
  "wf_packet p \<longleftrightarrow> wf_shape p \<and> unat (get_length (header p)) = packet_size p"

section \<open>The wire records\<close>

lemma V_sizes [simp]: "V1_SIZE = 8" "V2_SIZE = 16" "VERSION_SIZE = 12" "MIN_LEN = 20"
  by (simp_all add: V1_SIZE_def V2_SIZE_def VERSION_SIZE_def MIN_LEN_def)

lemma take_chunks:
  "length bs = n + m \<Longrightarrow> take n bs @ take m (drop n bs) = bs"
  by simp

interpretation v1_wire: wire_record v1_encode v1_decode V1_SIZE
proof
  fix h :: UsbDevicePacketHeaderV1 and bs :: bytes
  show "length (v1_encode h) = V1_SIZE" by (simp add: v1_encode_def)
  show "v1_decode (v1_encode h) = h" by (simp add: v1_encode_def v1_decode_def wire_simps)
  assume "length bs = V1_SIZE"
  then show "v1_encode (v1_decode bs) = bs"
    by (simp add: v1_encode_def v1_decode_def be_bytes_from_be)
qed

interpretation v2_wire: wire_record v2_encode v2_decode V2_SIZE
proof
  fix h :: UsbDevicePacketHeaderV2 and bs :: bytes
  show "length (v2_encode h) = V2_SIZE" by (simp add: v2_encode_def)
  show "v2_decode (v2_encode h) = h" by (simp add: v2_encode_def v2_decode_def wire_simps)
  assume len: "length bs = V2_SIZE"
  have "take 2 (drop 12 bs) @ take 2 (drop 14 bs) = drop 12 bs"
    using take_chunks [of "drop 12 bs" 2 2] len by simp
  moreover have "take 4 (drop 8 bs) @ drop 12 bs = drop 8 bs"
    using append_take_drop_id [of 4 "drop 8 bs"] by simp
  moreover have "take 4 (drop 4 bs) @ drop 8 bs = drop 4 bs"
    using append_take_drop_id [of 4 "drop 4 bs"] by simp
  ultimately show "v2_encode (v2_decode bs) = bs"
    using len by (simp add: v2_encode_def v2_decode_def be_bytes_from_be)
qed

interpretation version_wire: wire_record version_encode version_of_bytes VERSION_SIZE
proof
  fix v :: UsbDevicePacketVersion and bs :: bytes
  show "length (version_encode v) = VERSION_SIZE" by (simp add: version_encode_def)
  show "version_of_bytes (version_encode v) = v"
    by (simp add: version_encode_def version_of_bytes_def wire_simps)
  assume len: "length bs = VERSION_SIZE"
  have "take 4 (drop 4 bs) @ take 4 (drop 8 bs) = drop 4 bs"
    using take_chunks [of "drop 4 bs" 4 4] len by simp
  then show "version_encode (version_of_bytes bs) = bs"
    using len by (simp add: version_encode_def version_of_bytes_def be_bytes_from_be)
qed

lemmas wire_lengths [simp] = v1_wire.enc_length v2_wire.enc_length version_wire.enc_length

lemma version_decode_encode [simp]: "version_decode (version_encode v) = Ok v"
  by (simp add: version_decode_def version_wire.dec_enc)

lemma version_decode_Ok: "version_decode b = Ok v \<longleftrightarrow> b = version_encode v"
  using version_wire.enc_dec [of b] version_wire.dec_enc [of v]
  by (auto simp: version_decode_def split: if_splits)

section \<open>Headers\<close>

lemma protocol_try_from_agrees:
  "protocol_new v = Inr p \<longleftrightarrow> protocol_try_from_bytes v = Inr p"
  by (auto simp: protocol_new_def protocol_try_from_bytes_def protocol_try_from_u32_def Let_def)

lemma protocol_new_Inr: "protocol_new v = Inr p \<longleftrightarrow> from_be v = protocol_u32 p"
  by (cases p) (auto simp: protocol_new_def Let_def)

lemma protocol_new_encode [simp]: "protocol_new (protocol_encode p) = Inr p"
  by (simp add: protocol_new_Inr protocol_encode_def wire_simps)

lemma from_u32_unchecked_Some: "from_u32_unchecked v = Some p \<longleftrightarrow> v = protocol_u32 p"
  by (cases p) (auto simp: from_u32_unchecked_def)

lemma header_encode_cases:
  "header_encode (V1 h1) = v1_encode h1" "header_encode (V2 h2) = v2_encode h2"
  by (simp_all add: header_encode_def)

lemma length_header_encode [simp]: "length (header_encode h) = header_size h"
  by (cases h) (simp_all add: header_encode_cases)

lemma header_encode_into_eq: "header_encode_into h buf = buf @ header_encode h"
  by (cases h) (simp_all add: header_encode_def)

lemma take_4_v1: "take 4 (v1_encode h @ r) = be_bytes 4 (v1_protocol h)"
  by (simp add: v1_encode_def)

lemma take_4_v2: "take 4 (v2_encode h @ r) = be_bytes 4 (v2_protocol h)"
  by (simp add: v2_encode_def)

lemma header_from_slice_encode:
  assumes "header_ok h"
  shows "header_from_slice (header_encode h @ r) = (Ok h, r)"
proof (cases h)
  case (V1 v)
  with assms have "protocol_new (take 4 (v1_encode v @ r)) = Inr PVersion"
    by (simp add: protocol_new_Inr take_4_v1 wire_simps del: take_append)
  then show ?thesis
    using V1 v1_wire.dec_take [of v r] v1_wire.drop_enc [of v r]
    by (simp add: header_from_slice_def header_encode_cases)
next
  case (V2 v)
  with assms obtain p where "p \<noteq> PVersion" "v2_protocol v = protocol_u32 p"
    using protocol_u32.simps by (auto intro: that)
  then have "protocol_new (take 4 (v2_encode v @ r)) = Inr p" "p \<noteq> PVersion"
    by (simp_all add: protocol_new_Inr take_4_v2 wire_simps del: take_append)
  then show ?thesis
    using V2 v2_wire.dec_take [of v r] v2_wire.drop_enc [of v r]
    by (simp add: header_from_slice_def header_encode_cases
        split: UsbDevicePacketProtocol.splits)
qed

lemma v1_protocol_decode: "v1_protocol (v1_decode b) = from_be (take 4 b)"
  by (simp add: v1_decode_def)

lemma v2_protocol_decode: "v2_protocol (v2_decode b) = from_be (take 4 b)"
  by (simp add: v2_decode_def)

lemma header_from_slice_Ok:
  assumes "header_from_slice s = (Ok h, r)"
  shows "s = header_encode h @ r \<and> header_ok h"
proof -
  from assms obtain p where p: "protocol_new (take 4 s) = Inr p"
    by (auto simp: header_from_slice_def split: if_splits sum.splits)
  then have raw: "from_be (take 4 s) = protocol_u32 p" by (simp add: protocol_new_Inr)
  show ?thesis
  proof (cases "p = PVersion")
    case True
    with assms p have "8 \<le> length s" "h = V1 (v1_decode (take 8 s))" "r = drop 8 s"
      by (auto simp: header_from_slice_def split: if_splits)
    then show ?thesis
      using raw True v1_wire.enc_dec [of "take 8 s"]
      by (simp add: header_encode_cases v1_protocol_decode)
  next
    case False
    with assms p have "16 \<le> length s" "h = V2 (v2_decode (take 16 s))" "r = drop 16 s"
      by (auto simp: header_from_slice_def split: if_splits UsbDevicePacketProtocol.splits)
    then show ?thesis
      using raw False v2_wire.enc_dec [of "take 16 s"]
      by (cases p) (simp_all add: header_encode_cases v2_protocol_decode)
  qed
qed

lemma header_ok_protocol: "header_ok h \<Longrightarrow> \<exists>p. get_protocol h = Some p \<and> (p = PVersion \<longleftrightarrow> as_v2 h = None)"
  by (cases h) (auto simp: get_protocol_def from_u32_unchecked_def)

lemma header_ok_tcp: "header_ok h \<Longrightarrow> get_protocol h = Some PTcp \<Longrightarrow> as_v2 h \<noteq> None"
  using header_ok_protocol by fastforce

section \<open>Payloads\<close>

lemma payload_encode_into_eq: "payload_encode_into p buf = buf @ payload_encode p"
  by (cases "(p, buf)" rule: payload_encode_into.cases) simp_all

lemma length_payload_encode [simp]: "length (payload_encode p) = payload_len p"
  by (cases p rule: payload_encode.cases) simp_all

lemma payload_decode_encode: "payload_fits pr p \<Longrightarrow> payload_decode (payload_encode p) pr = Ok p"
  by (cases "(pr, p)" rule: payload_fits.cases)
    (auto simp: from_utf8_lossy_id split: list.splits)

lemma payload_decode_Ok: "payload_decode b pr = Ok p \<Longrightarrow> payload_fits pr p"
  by (cases pr; cases "version_decode b")
    (auto simp: from_utf8_lossy_Nil_iff is_utf8_from_utf8_lossy split: list.splits)

lemma payload_decode_panic: "payload_decode b pr = Panic \<longleftrightarrow> pr = PVersion \<and> length b \<noteq> 12"
  by (cases pr) (auto simp: version_decode_def split: list.splits)

lemma payload_decode_no_err: "payload_decode b pr \<noteq> Err e"
  by (cases pr) (auto simp: version_decode_def split: list.splits)

text \<open>Decoding loses nothing unless an error message was not well-formed UTF-8.\<close>

lemma payload_encode_decode:
  assumes "payload_decode b pr = Ok p" and "pr = PControl \<Longrightarrow> is_utf8 (tl b)"
  shows "payload_encode p = b"
  using assms
  by (cases pr; cases "version_decode b")
    (auto simp: version_decode_Ok from_utf8_lossy_id split: list.splits)

section \<open>Packets\<close>

lemma encode_eq:
  "encode ops p = header_encode (header p)
     @ (case tcp_hdr p of None \<Rightarrow> [] | Some t \<Rightarrow> tcp_to_bytes ops t) @ payload_encode (payload p)"
  by (simp add: encode_def inner_encode_into_def header_encode_into_eq payload_encode_into_eq
      split: option.splits)

lemma encode_into_eq: "encode_into ops p buf = buf @ encode ops p"
  by (simp add: encode_into_def encode_def inner_encode_into_def header_encode_into_eq
      payload_encode_into_eq Let_def split: option.splits)

lemma tcp_hdr_len_eq:
  "tcp_laws ops \<Longrightarrow> tcp_hdr_ok pr t \<Longrightarrow> tcp_hdr_len ops t = options_len t"
  by (auto simp: tcp_hdr_len_def options_len_def tcp_hdr_ok_def tcp_len split: option.splits)

lemma length_encode:
  assumes "tcp_laws ops" and "wf_shape p"
  shows "length (encode ops p) = packet_size p"
  using assms by (auto simp: encode_eq packet_size_def wf_shape_def options_len_def tcp_hdr_ok_def
      tcp_len split: option.splits)

text \<open>What a successful parse of a slice has done, stage by stage.\<close>

definition tcp_part :: "tcp_ops \<Rightarrow> UsbDevicePacketProtocol \<Rightarrow> TcpHeader option \<Rightarrow> bytes \<Rightarrow> bytes \<Rightarrow> bool" where
  "tcp_part ops pr t s1 s2 =
     (case t of None \<Rightarrow> pr \<noteq> PTcp \<and> s2 = s1
      | Some th \<Rightarrow> pr = PTcp \<and> tcp_from_slice ops s1 = Inr (th, s2))"

lemma tcp_part_from_slice_Inr:
  assumes "header_ok h" and "get_protocol h = Some pr"
  shows "tcp_part_from_slice ops h pr s1 = Inr (t, s2) \<longleftrightarrow> tcp_part ops pr t s1 s2"
  using header_ok_tcp [OF assms(1)] assms(2)
  by (auto simp: tcp_part_from_slice_def tcp_part_def split: option.splits sum.splits)

lemma packet_from_slice_stages:
  assumes "packet_from_slice ops s = (Ok p, r)"
  obtains s1 pr s2 where
    "header_from_slice s = (Ok (header p), s1)"
    "get_protocol (header p) = Some pr"
    "tcp_part ops pr (tcp_hdr p) s1 s2"
    "header_size (header p) + tcp_hdr_len ops (tcp_hdr p) \<le> unat (get_length (header p))"
    "unat (get_length (header p)) - (header_size (header p) + tcp_hdr_len ops (tcp_hdr p)) \<le> length s2"
    "payload_decode (take (unat (get_length (header p))
        - (header_size (header p) + tcp_hdr_len ops (tcp_hdr p))) s2) pr = Ok (payload p)"
    "r = drop (unat (get_length (header p))
        - (header_size (header p) + tcp_hdr_len ops (tcp_hdr p))) s2"
proof -
  from assms obtain h s1 pr where h: "header_from_slice s = (Ok h, s1)"
    and pr: "get_protocol h = Some pr"
    by (auto simp: packet_from_slice_def split: prod.splits outcome.splits option.splits)
  from assms h pr obtain t s2 where t: "tcp_part_from_slice ops h pr s1 = Inr (t, s2)"
    by (cases "tcp_part_from_slice ops h pr s1") (auto simp: packet_from_slice_def Let_def)
  let ?n = "unat (get_length h) - (header_size h + tcp_hdr_len ops t)"
  from assms h pr t have
    "header_size h + tcp_hdr_len ops t \<le> unat (get_length h)" "?n \<le> length s2"
    "map_ok (packet_new h t) (payload_decode (take ?n s2) pr) = Ok p" "r = drop ?n s2"
    by (simp_all add: packet_from_slice_def Let_def split: if_splits)
  moreover from this(3) have "payload_decode (take ?n s2) pr = Ok (payload p)"
    "header p = h" "tcp_hdr p = t"
    by (cases "payload_decode (take ?n s2) pr"; auto simp: packet_new_def)+
  moreover from h pr t have "tcp_part ops pr t s1 s2"
    using header_from_slice_Ok [OF h] tcp_part_from_slice_Inr by blast
  ultimately show thesis using h pr that by simp
qed

lemma slice_tcp_hdr_ok:
  assumes "tcp_laws ops" and "tcp_part ops pr t s1 s2"
  shows "tcp_hdr_ok pr t" and "tcp_hdr_len ops t \<le> length s1"
    and "s2 = drop (tcp_hdr_len ops t) s1"
  using assms tcp_slice [OF assms(1), of s1]
  by (auto simp: tcp_hdr_ok_def tcp_hdr_len_def tcp_part_def split: option.splits)

lemma packet_from_slice_shape:
  assumes "tcp_laws ops" and "packet_from_slice ops s = (Ok p, r)"
  shows "wf_shape p"
  using assms(2)
proof (rule packet_from_slice_stages)
  fix s1 pr s2
  assume st: "header_from_slice s = (Ok (header p), s1)" "get_protocol (header p) = Some pr"
    "tcp_part ops pr (tcp_hdr p) s1 s2"
    "payload_decode (take (unat (get_length (header p))
        - (header_size (header p) + tcp_hdr_len ops (tcp_hdr p))) s2) pr = Ok (payload p)"
  then show ?thesis
    using header_from_slice_Ok [OF st(1)] slice_tcp_hdr_ok(1) [OF assms(1) st(3)]
      payload_decode_Ok [OF st(4)]
    by (auto simp: wf_shape_def)
qed

lemma packet_from_slice_split:
  assumes "tcp_laws ops" and "packet_from_slice ops s = (Ok p, r)"
  shows "\<exists>tb. s = header_encode (header p) @ tb @ r
      \<and> header_size (header p) + length tb = unat (get_length (header p))
      \<and> tcp_hdr_len ops (tcp_hdr p) \<le> length tb
      \<and> payload_decode (drop (tcp_hdr_len ops (tcp_hdr p)) tb)
            (the (get_protocol (header p))) = Ok (payload p)"
  using assms(2)
proof (rule packet_from_slice_stages)
  fix s1 pr s2
  let ?n = "unat (get_length (header p)) - (header_size (header p) + tcp_hdr_len ops (tcp_hdr p))"
  let ?k = "tcp_hdr_len ops (tcp_hdr p)"
  assume st: "header_from_slice s = (Ok (header p), s1)" "get_protocol (header p) = Some pr"
    "tcp_part ops pr (tcp_hdr p) s1 s2"
    "header_size (header p) + ?k \<le> unat (get_length (header p))" "?n \<le> length s2"
    "payload_decode (take ?n s2) pr = Ok (payload p)" "r = drop ?n s2"
  have t: "?k \<le> length s1" "s2 = drop ?k s1" using slice_tcp_hdr_ok [OF assms(1) st(3)] by auto
  have "s1 = take (?k + ?n) s1 @ r" using t(2) st(7) by (simp add: add.commute)
  moreover have "length (take (?k + ?n) s1) = ?k + ?n" using t st(5) by auto
  moreover have "drop ?k (take (?k + ?n) s1) = take ?n s2" using t by (simp add: drop_take)
  ultimately show ?thesis
    using header_from_slice_Ok [OF st(1)] st(2,4,6)
    by (intro exI [of _ "take (?k + ?n) s1"]) simp
qed

lemma packet_from_slice_after_header:
  assumes "header_ok (header p)" and "get_protocol (header p) = Some pr"
    and "tcp_part ops pr (tcp_hdr p) s1 s2"
    and "header_size (header p) + tcp_hdr_len ops (tcp_hdr p) + length b
         = unat (get_length (header p))"
    and "s2 = b @ r" and "payload_decode b pr = Ok (payload p)"
  shows "packet_from_slice ops (header_encode (header p) @ s1) = (Ok p, r)"
proof -
  have n: "unat (get_length (header p))
      - (header_size (header p) + tcp_hdr_len ops (tcp_hdr p)) = length b"
    using assms(4) by simp
  have "tcp_part_from_slice ops (header p) pr s1 = Inr (tcp_hdr p, s2)"
    using tcp_part_from_slice_Inr [OF assms(1,2)] assms(3) by blast
  then show ?thesis
    using assms(2,4,5,6) header_from_slice_encode [OF assms(1), of s1] n
    by (simp add: packet_from_slice_def Let_def packet_new_def)
qed

lemma packet_from_slice_encode:
  assumes "tcp_laws ops" and "wf_packet p"
  shows "packet_from_slice ops (encode ops p @ r) = (Ok p, r)"
proof -
  from assms(2) obtain pr where pr: "header_ok (header p)" "get_protocol (header p) = Some pr"
    "tcp_hdr_ok pr (tcp_hdr p)" "payload_fits pr (payload p)"
    "unat (get_length (header p)) = packet_size p"
    by (auto simp: wf_packet_def wf_shape_def)
  let ?tb = "case tcp_hdr p of None \<Rightarrow> [] | Some t \<Rightarrow> tcp_to_bytes ops t"
  let ?s2 = "payload_encode (payload p) @ r"
  have "tcp_part ops pr (tcp_hdr p) (?tb @ ?s2) ?s2"
    using pr(3) assms(1)
    by (auto simp: tcp_part_def tcp_hdr_ok_def tcp_roundtrip split: option.splits)
  then show ?thesis
    using packet_from_slice_after_header [OF pr(1,2), of ops "?tb @ ?s2" ?s2
        "payload_encode (payload p)" r] pr(5) payload_decode_encode [OF pr(4)]
      tcp_hdr_len_eq [OF assms(1) pr(3)]
    by (simp add: packet_size_def encode_eq)
qed

section \<open>The stream parser agrees with the slice parser\<close>

lemma reader_eqI: "avail r = avail r' \<Longrightarrow> at_end r = at_end r' \<Longrightarrow> r = (r' :: reader)"
  by simp

lemma read_exact_take:
  "n \<le> length (avail r) \<Longrightarrow>
     read_exact n r = (Inr (take n (avail r)), r\<lparr>avail := drop n (avail r)\<rparr>)"
  by (simp add: read_exact_def)

lemma protocol_new_cases:
  assumes "protocol_new b = Inr pr"
  shows "pr = PVersion \<or> pr = PControl \<or> pr = PSetup \<or> pr = PTcp"
  by (cases pr) simp_all

lemma header_from_reader_encode:
  assumes "header_ok h"
  shows "header_from_reader (r\<lparr>avail := header_encode h @ s\<rparr>) = (Inr h, r\<lparr>avail := s\<rparr>)"
proof (cases h)
  case (V1 v)
  with assms have "protocol_new (take 4 (v1_encode v)) = Inr PVersion"
    using take_4_v1 [of v "[]"] by (simp add: protocol_new_Inr wire_simps)
  then show ?thesis
    using V1 by (simp add: header_from_reader_def header_encode_cases read_exact_append
        v1_wire.dec_enc)
next
  case (V2 v)
  define a b where "a = take 8 (v2_encode v)" and "b = drop 8 (v2_encode v)"
  from V2 assms obtain p where p: "p \<noteq> PVersion" "v2_protocol v = protocol_u32 p"
    using protocol_u32.simps by (auto intro: that)
  then have pn: "protocol_new (take 4 a) = Inr p"
    using take_4_v2 [of v "[]"] by (simp add: protocol_new_Inr wire_simps min_def a_def)
  have ab: "v2_encode v = a @ b" by (simp add: a_def b_def)
  have len: "length a = 8" "length b = 8" by (simp_all add: a_def b_def)
  have "header_from_reader (r\<lparr>avail := (a @ b) @ s\<rparr>) = (Inr (V2 (v2_decode (a @ b))), r\<lparr>avail := s\<rparr>)"
    using pn p(1) len by (cases p) (simp_all add: header_from_reader_def read_exact_append)
  then show ?thesis using V2 v2_wire.dec_enc [of v] by (simp add: header_encode_cases ab)
qed

lemma header_from_reader_Inr:
  assumes "header_from_reader r = (Inr h, r')"
  shows "avail r = header_encode h @ avail r' \<and> header_ok h \<and> at_end r' = at_end r"
proof -
  from assms obtain b1 r1 pr where b1: "read_exact 8 r = (Inr b1, r1)"
    and pr: "protocol_new (take 4 b1) = Inr pr"
    by (auto simp: header_from_reader_def split: prod.splits sum.splits)
  note rd1 = read_exact_Inr [OF b1]
  have raw: "from_be (take 4 b1) = protocol_u32 pr" using pr by (simp add: protocol_new_Inr)
  show ?thesis
  proof (cases "pr = PVersion")
    case True
    with assms b1 pr have "h = V1 (v1_decode b1)" "r' = r1"
      by (simp_all add: header_from_reader_def)
    then show ?thesis
      using rd1 raw True v1_wire.enc_dec [of b1]
      by (simp add: header_encode_cases v1_protocol_decode)
  next
    case False
    with assms b1 pr obtain b2 where b2: "read_exact 8 r1 = (Inr b2, r')"
      and h: "h = V2 (v2_decode (b1 @ b2))"
      by (cases pr) (auto simp: header_from_reader_def split: prod.splits sum.splits)
    note rd2 = read_exact_Inr [OF b2]
    have "v2_encode (v2_decode (b1 @ b2)) = b1 @ b2"
      using v2_wire.enc_dec [of "b1 @ b2"] rd1 rd2 by simp
    then show ?thesis
      using rd1 rd2 raw False h
      by (cases pr) (simp_all add: header_encode_cases v2_protocol_decode)
  qed
qed

lemma tcp_part_from_reader_of_slice:
  assumes "tcp_laws ops" and "tcp_part ops pr t s1 s2" and "tcp_hdr_len ops t \<le> MIN_LEN"
  shows "tcp_part_from_reader ops pr (r\<lparr>avail := s1\<rparr>) = (Inr t, r\<lparr>avail := s2\<rparr>)"
proof (cases t)
  case None
  with assms(2) show ?thesis by (simp add: tcp_part_from_reader_def tcp_part_def)
next
  case (Some th)
  with assms(2) have th: "tcp_from_slice ops s1 = Inr (th, s2)" and "pr = PTcp"
    by (simp_all add: tcp_part_def)
  note sl = tcp_slice [OF assms(1) th]
  have "tcp_header_len ops th = 20"
    using Some assms(1,3) sl(1) by (simp add: tcp_hdr_len_def tcp_len)
  with sl(2,3) sl(4) [of "[]"] Some \<open>pr = PTcp\<close> show ?thesis
    by (simp add: tcp_part_from_reader_def read_exact_take)
qed

lemma tcp_part_from_reader_Inr:
  assumes "tcp_laws ops" and "tcp_part_from_reader ops pr r1 = (Inr t, r2)"
  shows "tcp_part ops pr t (avail r1) (avail r2)" and "tcp_hdr_len ops t \<le> MIN_LEN"
    and "at_end r2 = at_end r1"
proof -
  have "tcp_part ops pr t (avail r1) (avail r2) \<and> tcp_hdr_len ops t \<le> MIN_LEN
      \<and> at_end r2 = at_end r1"
  proof (cases "pr = PTcp")
    case False
    with assms(2) show ?thesis
      by (auto simp: tcp_part_from_reader_def tcp_part_def tcp_hdr_len_def)
  next
    case True
    with assms(2) obtain tb th rest where tb: "read_exact MIN_LEN r1 = (Inr tb, r2)"
      and th: "tcp_from_slice ops tb = Inr (th, rest)" "t = Some th"
      by (auto simp: tcp_part_from_reader_def split: prod.splits sum.splits)
    note sl = tcp_slice [OF assms(1) th(1)] and rt = read_exact_Inr [OF tb]
    have len: "tcp_header_len ops th = length tb"
      using sl(1,2) rt by (simp add: tcp_len [OF assms(1)])
    with sl(4) [of "avail r2"] rt th(2) True show ?thesis
      by (simp add: tcp_hdr_len_def tcp_part_def)
  qed
  then show "tcp_part ops pr t (avail r1) (avail r2)" and "tcp_hdr_len ops t \<le> MIN_LEN"
    and "at_end r2 = at_end r1" by blast+
qed

lemma packet_from_reader_of_slice:
  assumes "tcp_laws ops" and "packet_from_slice ops s = (Ok p, s')"
    and "tcp_hdr_len ops (tcp_hdr p) \<le> MIN_LEN"
  shows "packet_from_reader ops (r\<lparr>avail := s\<rparr>) = (Ok p, r\<lparr>avail := s'\<rparr>)"
  using assms(2)
proof (rule packet_from_slice_stages)
  fix s1 pr s2
  let ?k = "tcp_hdr_len ops (tcp_hdr p)"
  let ?n = "unat (get_length (header p)) - (header_size (header p) + ?k)"
  assume st: "header_from_slice s = (Ok (header p), s1)" "get_protocol (header p) = Some pr"
    "tcp_part ops pr (tcp_hdr p) s1 s2"
    "header_size (header p) + ?k \<le> unat (get_length (header p))" "?n \<le> length s2"
    "payload_decode (take ?n s2) pr = Ok (payload p)" "s' = drop ?n s2"
  have h: "header_from_reader (r\<lparr>avail := s\<rparr>) = (Inr (header p), r\<lparr>avail := s1\<rparr>)"
    using header_from_slice_Ok [OF st(1)] header_from_reader_encode by simp
  then show ?thesis
    using st(2,4-7) tcp_part_from_reader_of_slice [OF assms(1) st(3) assms(3), of r]
    by (simp add: packet_from_reader_def Let_def read_exact_take packet_new_def)
qed

lemma packet_from_reader_to_slice:
  assumes "tcp_laws ops" and "packet_from_reader ops r = (Ok p, r')"
  shows "packet_from_slice ops (avail r) = (Ok p, avail r')" and "at_end r' = at_end r"
    and "tcp_hdr_len ops (tcp_hdr p) \<le> MIN_LEN"
proof -
  from assms(2) obtain h r1 pr where h: "header_from_reader r = (Inr h, r1)"
    and pr: "get_protocol h = Some pr"
    by (auto simp: packet_from_reader_def split: prod.splits sum.splits option.splits)
  from assms(2) h pr obtain t r2 where t: "tcp_part_from_reader ops pr r1 = (Inr t, r2)"
    by (auto simp: packet_from_reader_def split: prod.splits sum.splits)
  from assms(2) h pr t obtain b where
    le: "header_size h + tcp_hdr_len ops t \<le> unat (get_length h)"
    and b: "read_exact (unat (get_length h) - (header_size h + tcp_hdr_len ops t)) r2 = (Inr b, r')"
    and p: "map_ok (packet_new h t) (payload_decode b pr) = Ok p"
    by (auto simp: packet_from_reader_def Let_def split: sum.splits if_splits prod.splits)
  from p have pp: "payload_decode b pr = Ok (payload p)" "header p = h" "tcp_hdr p = t"
    by (cases "payload_decode b pr"; auto simp: packet_new_def)+
  note hr = header_from_reader_Inr [OF h] and rb = read_exact_Inr [OF b]
    and tcp = tcp_part_from_reader_Inr [OF assms(1) t]
  show "packet_from_slice ops (avail r) = (Ok p, avail r')"
    using packet_from_slice_after_header [of p pr ops "avail r1" "avail r2" b "avail r'"]
      hr pr pp tcp rb le by simp
  show "at_end r' = at_end r" and "tcp_hdr_len ops (tcp_hdr p) \<le> MIN_LEN"
    using rb tcp hr pp by simp_all
qed

section \<open>Framing\<close>

interpretation slice_frames: framed "encode ops" "packet_from_slice ops"
  "\<lambda>p. tcp_laws ops \<and> wf_packet p" for ops
  by unfold_locales (simp add: packet_from_slice_encode)

text \<open>The stream parser as a parser of byte strings, for a stream that ends with error \<open>e\<close>.\<close>

definition reader_parse ::
    "tcp_ops \<Rightarrow> io_error \<Rightarrow> bytes \<Rightarrow> (ParseError, UsbDevicePacket) outcome \<times> bytes" where
  "reader_parse ops e s =
     (case packet_from_reader ops \<lparr>avail = s, at_end = e\<rparr> of (res, r) \<Rightarrow> (res, avail r))"

text \<open>A packet the stream parser accepts: its TCP header has no options.\<close>

definition no_options :: "UsbDevicePacket \<Rightarrow> bool" where
  "no_options p \<longleftrightarrow> (case tcp_hdr p of None \<Rightarrow> True | Some t \<Rightarrow> options t = [])"

lemma no_options_len:
  assumes "tcp_laws ops" and "wf_packet p" and "no_options p"
  shows "tcp_hdr_len ops (tcp_hdr p) \<le> MIN_LEN"
  using assms tcp_len(2) [OF assms(1)]
  by (auto simp: wf_packet_def wf_shape_def no_options_def tcp_hdr_len_def tcp_hdr_ok_def
      split: option.splits)

lemma packet_from_reader_encode:
  assumes "tcp_laws ops" and "wf_packet p" and "no_options p"
  shows "packet_from_reader ops (r\<lparr>avail := encode ops p @ s\<rparr>) = (Ok p, r\<lparr>avail := s\<rparr>)"
  using packet_from_reader_of_slice [OF assms(1) packet_from_slice_encode [OF assms(1,2)]]
    no_options_len [OF assms] by blast

interpretation reader_frames: framed "encode ops" "reader_parse ops e"
  "\<lambda>p. tcp_laws ops \<and> wf_packet p \<and> no_options p" for ops e
proof
  fix p r
  assume "tcp_laws ops \<and> wf_packet p \<and> no_options p"
  then show "reader_parse ops e (encode ops p @ r) = (Ok p, r)"
    using packet_from_reader_encode [of ops p r "\<lparr>avail = [], at_end = e\<rparr>"]
    by (simp add: reader_parse_def)
qed

lemma packet_from_reader_frame:
  assumes "tcp_laws ops" and "packet_from_reader ops r = (Ok p, r')"
  shows "\<exists>c. avail r = c @ avail r' \<and> length c = unat (get_length (header p))"
  using packet_from_slice_split [OF assms(1) packet_from_reader_to_slice(1) [OF assms]]
  by (metis append.assoc length_append length_header_encode)

section \<open>Properties\<close>

lemma rfc_tcp_laws [simp]: "tcp_laws rfc_ops"
  by (rule rfc_ops_laws)

text \<open>A data packet and a device error report, for the witnesses.\<close>

definition sample_tcp :: TcpHeader where
  "sample_tcp = tcp_new rfc_ops 1 62078 7 512"

definition sample_packet :: UsbDevicePacket where
  "sample_packet = packet_new (V2 (v2_new PTcp 39 0 0)) (Some sample_tcp) (Bytes [1, 2, 3])"

definition sample_error :: UsbDevicePacket where
  "sample_error = packet_new (V2 (v2_new PControl 19 0 0)) None (Error (Some 5) (Some [111, 107]))"

lemma sample_options: "options sample_tcp = []"
  using rfc_ops_laws by (simp add: sample_tcp_def tcp_laws_def tcp_new_law_def)

lemma wf_sample_packet: "wf_packet sample_packet" "no_options sample_packet"
  using sample_options
  by (simp_all add: sample_packet_def wf_packet_def wf_shape_def packet_new_def v2_new_def
      get_protocol_def from_u32_unchecked_def tcp_hdr_ok_def tcp_valid_def packet_size_def
      options_len_def no_options_def)

lemma is_utf8_ok: "is_utf8 [111, 107]"
  by code_simp

lemma wf_sample_error: "wf_packet sample_error" "no_options sample_error"
  by (simp_all add: sample_error_def wf_packet_def wf_shape_def packet_new_def v2_new_def
      get_protocol_def from_u32_unchecked_def tcp_hdr_ok_def packet_size_def options_len_def
      no_options_def is_utf8_ok)

text \<open>
  C1. The slice parser inverts the encoder: whatever follows, the bytes of a well-formed packet
  are parsed to that packet, and the slice is advanced to what follows it.
\<close>
theorem slice_roundtrip:
  assumes "tcp_laws ops" and "wf_packet p"
  shows "packet_from_slice ops (encode ops p @ rest) = (Ok p, rest)"
  using slice_frames.parse_enc assms by blast

theorem slice_roundtrip_witness:
  "packet_from_slice rfc_ops (encode rfc_ops sample_packet @ [9, 9]) = (Ok sample_packet, [9, 9])"
  by (rule slice_roundtrip [OF rfc_ops_laws wf_sample_packet(1)])

text \<open>
  C2. A byte stream that carries the encodings of any packets without TCP options, one after
  the other, is parsed back to exactly these packets, in order, and the bytes behind them stay
  unread.
\<close>
theorem reader_stream_roundtrip:
  assumes "tcp_laws ops" and "list_all (\<lambda>p. wf_packet p \<and> no_options p) ps"
  shows "parse_n (reader_parse ops e) (length ps) (concat (map (encode ops) ps) @ rest) = (ps, rest)"
proof -
  have "list_all (\<lambda>p. tcp_laws ops \<and> wf_packet p \<and> no_options p) ps"
    using assms by (simp add: list_all_iff)
  then show ?thesis by (rule reader_frames.parse_n_concat)
qed

theorem reader_stream_roundtrip_witness:
  "parse_n (reader_parse rfc_ops (IoError UnexpectedEof [])) (length [sample_packet, sample_error])
     (concat (map (encode rfc_ops) [sample_packet, sample_error]) @ [0]) =
     ([sample_packet, sample_error], [0])"
  by (rule reader_stream_roundtrip [OF rfc_ops_laws])
    (simp add: wf_sample_packet wf_sample_error)

text \<open>
  C3. The stream parser and the slice parser accept the same packets, except that the stream
  parser reads exactly 20 bytes of TCP header: it returns a packet exactly when the slice parser
  returns it on the bytes the stream has, with the same bytes left, and the TCP header has no
  options.
\<close>
theorem reader_agrees_with_slice:
  assumes "tcp_laws ops"
  shows "packet_from_reader ops r = (Ok p, r') \<longleftrightarrow>
     packet_from_slice ops (avail r) = (Ok p, avail r') \<and> at_end r' = at_end r
     \<and> tcp_hdr_len ops (tcp_hdr p) \<le> MIN_LEN"
proof
  assume "packet_from_reader ops r = (Ok p, r')"
  from packet_from_reader_to_slice [OF assms this]
  show "packet_from_slice ops (avail r) = (Ok p, avail r') \<and> at_end r' = at_end r
     \<and> tcp_hdr_len ops (tcp_hdr p) \<le> MIN_LEN" by simp
next
  assume R: "packet_from_slice ops (avail r) = (Ok p, avail r') \<and> at_end r' = at_end r
     \<and> tcp_hdr_len ops (tcp_hdr p) \<le> MIN_LEN"
  then have "r' = r\<lparr>avail := avail r'\<rparr>" by (simp add: reader_eqI)
  then show "packet_from_reader ops r = (Ok p, r')"
    using packet_from_reader_of_slice [OF assms, of "avail r" p "avail r'" r] R by simp
qed

theorem reader_agrees_with_slice_witness:
  "packet_from_reader rfc_ops
     \<lparr>avail = encode rfc_ops sample_packet @ [7], at_end = IoError UnexpectedEof []\<rparr> =
     (Ok sample_packet, \<lparr>avail = [7], at_end = IoError UnexpectedEof []\<rparr>)"
  by (subst reader_agrees_with_slice [OF rfc_ops_laws])
    (simp add: packet_from_slice_encode [OF rfc_ops_laws wf_sample_packet(1)]
      no_options_len [OF rfc_ops_laws wf_sample_packet, simplified])

text \<open>
  A packet the slice parser accepts took exactly as many bytes as its length field says,
  its protocol is one of the four known ones (the unchecked conversion of \<open>get_protocol\<close> is
  never applied to anything else), its header version, TCP header and payload are those of that
  protocol.
\<close>
theorem slice_frame_shape:
  assumes "tcp_laws ops" and "packet_from_slice ops s = (Ok p, rest)"
  shows "wf_shape p \<and> (\<exists>c. s = c @ rest \<and> length c = unat (get_length (header p)))"
proof -
  from packet_from_slice_split [OF assms] obtain tb where
    "s = header_encode (header p) @ tb @ rest"
    "header_size (header p) + length tb = unat (get_length (header p))" by blast
  then have "s = (header_encode (header p) @ tb) @ rest
      \<and> length (header_encode (header p) @ tb) = unat (get_length (header p))" by simp
  with packet_from_slice_shape [OF assms] show ?thesis by blast
qed

theorem slice_frame_shape_witness:
  "wf_shape sample_error \<and> (\<exists>c. encode rfc_ops sample_error @ [1] = c @ [1]
     \<and> length c = unat (get_length (header sample_error)))"
  by (rule slice_frame_shape [OF rfc_ops_laws packet_from_slice_encode [OF rfc_ops_laws wf_sample_error(1)]])

lemma v1_length_decode: "v1_length (v1_decode b) = from_be (take 4 (drop 4 b))"
  by (simp add: v1_decode_def)

lemma header_from_reader_version:
  assumes "8 \<le> length (avail r)" and "from_be (take 4 (avail r)) = (0 :: u32)"
  shows "header_from_reader r =
     (Inr (V1 (v1_decode (take 8 (avail r)))), r\<lparr>avail := drop 8 (avail r)\<rparr>)"
  using assms by (simp add: header_from_reader_def read_exact_take protocol_new_def Let_def min_def)

text \<open>A version packet: its length field is that of the stream's bytes 4 to 7.\<close>

lemma packet_from_reader_version:
  assumes "8 \<le> length (avail r)" and "from_be (take 4 (avail r)) = (0 :: u32)"
    and "n = unat (from_be (take 4 (drop 4 (avail r))) :: u32)"
  shows "fst (packet_from_reader ops r) = Panic \<longleftrightarrow> 8 \<le> n \<and> n \<le> length (avail r) \<and> n \<noteq> 20"
proof -
  let ?h = "V1 (v1_decode (take 8 (avail r)))"
  have fields: "get_protocol ?h = Some PVersion" "unat (get_length ?h) = n"
    using assms by (simp_all add: get_protocol_def v1_protocol_decode v1_length_decode
        from_u32_unchecked_def take_drop min_def)
  show ?thesis
    using assms(1) fields
    by (auto simp: packet_from_reader_def header_from_reader_version [OF assms(1,2)]
        tcp_part_from_reader_def tcp_hdr_len_def Let_def read_exact_def version_decode_def)
qed

lemma packet_from_reader_panic:
  assumes "fst (packet_from_reader ops r) = Panic"
  shows "8 \<le> length (avail r) \<and> from_be (take 4 (avail r)) = (0 :: u32)"
proof -
  from assms obtain h r1 where h: "header_from_reader r = (Inr h, r1)"
    by (auto simp: packet_from_reader_def split: prod.splits sum.splits)
  note hr = header_from_reader_Inr [OF h]
  then obtain pr where pr: "get_protocol h = Some pr" "pr = PVersion \<longleftrightarrow> as_v2 h = None"
    using header_ok_protocol by blast
  with assms h have "pr = PVersion"
    by (auto simp: packet_from_reader_def Let_def payload_decode_panic
        split: prod.splits sum.splits if_splits)
       (metis map_ok.simps(1,2) outcome.distinct(3,5) outcome.exhaust payload_decode_panic)
  with pr(2) obtain v where "h = V1 v" by (cases h) auto
  with hr take_4_v1 [of v "avail r1"] show ?thesis
    by (simp add: header_encode_cases wire_simps)
qed

text \<open>
  C28. The only input on which the stream parser panics is a version packet, completely
  received, whose length field is not 20: \<open>bytemuck::from_bytes\<close> asserts the size of the
  payload. Every other input gives a packet or an error.
\<close>
theorem reader_panic_iff:
  "fst (packet_from_reader ops r) = Panic \<longleftrightarrow>
     8 \<le> length (avail r) \<and> from_be (take 4 (avail r)) = (0 :: u32)
     \<and> 8 \<le> unat (from_be (take 4 (drop 4 (avail r))) :: u32)
     \<and> unat (from_be (take 4 (drop 4 (avail r))) :: u32) \<le> length (avail r)
     \<and> unat (from_be (take 4 (drop 4 (avail r))) :: u32) \<noteq> 20"
  using packet_from_reader_version [of r _ ops] packet_from_reader_panic [of ops r] by blast

end
