(* ===== verification/Packet_Builder.thy ===== *)
theory Packet_Builder
  imports Device_Mux
begin

text \<open>
  The typed packet builder of \<^verbatim>\<open>src/parser/device_mux/builder.rs\<close>. The Rust builder has one
  type parameter per part, \<open>Empty\<close> until the part is set, and a \<open>build\<close> per legal
  combination; the record below has the same three parameters. The XML writer of the \<open>plist\<close>
  crate is a parameter \<open>to_xml\<close>; \<open>None\<close> is its error, on which \<open>unwrap\<close> panics.
\<close>

section \<open>Flags\<close>

type_synonym TcpFlags = u8

definition ACK :: TcpFlags where "ACK = push_bit 0 1"
definition SYN :: TcpFlags where "SYN = push_bit 1 1"
definition RST :: TcpFlags where "RST = push_bit 2 1"

definition flags_contains :: "TcpFlags \<Rightarrow> TcpFlags \<Rightarrow> bool" where
  "flags_contains flags f \<longleftrightarrow> flags AND f = f"

text \<open>\<open>UsbDeviceConn::WINDOW_SIZE\<close>: the window the host announces, in units of 256 bytes.\<close>

definition WINDOW_SIZE :: u16 where
  "WINDOW_SIZE = ucast (drop_bit 8 (128 * 1024 :: u32))"

section \<open>The builder\<close>

datatype Empty = Empty

record ('p, 'h, 't) UsbDevicePacketBuilder =
  b_payload :: 'p
  b_header :: 'h
  b_tcp_hdr :: 't

definition builder_new :: "(Empty, Empty, Empty) UsbDevicePacketBuilder" where
  "builder_new = \<lparr>b_payload = Empty, b_header = Empty, b_tcp_hdr = Empty\<rparr>"

definition payload_version ::
    "u32 \<Rightarrow> u32 \<Rightarrow> (Empty, 'h, 't) UsbDevicePacketBuilder
       \<Rightarrow> (UsbDevicePacketVersion, 'h, 't) UsbDevicePacketBuilder" where
  "payload_version ma mi b =
     \<lparr>b_payload = version_new ma mi 0, b_header = b_header b, b_tcp_hdr = b_tcp_hdr b\<rparr>"

definition payload_plist ::
    "'v \<Rightarrow> (Empty, 'h, 't) UsbDevicePacketBuilder \<Rightarrow> ('v, 'h, 't) UsbDevicePacketBuilder" where
  "payload_plist value b =
     \<lparr>b_payload = value, b_header = b_header b, b_tcp_hdr = b_tcp_hdr b\<rparr>"

definition payload_bytes ::
    "bytes \<Rightarrow> (Empty, 'h, 't) UsbDevicePacketBuilder \<Rightarrow> (bytes, 'h, 't) UsbDevicePacketBuilder" where
  "payload_bytes value b =
     \<lparr>b_payload = value, b_header = b_header b, b_tcp_hdr = b_tcp_hdr b\<rparr>"

definition header_tcp ::
    "u16 \<Rightarrow> u16 \<Rightarrow> ('p, Empty, 't) UsbDevicePacketBuilder
       \<Rightarrow> ('p, u16 \<times> u16, 't) UsbDevicePacketBuilder" where
  "header_tcp send_seq recv_seq b =
     \<lparr>b_payload = b_payload b, b_header = (send_seq, recv_seq), b_tcp_hdr = b_tcp_hdr b\<rparr>"

definition header_version ::
    "('p, Empty, 't) UsbDevicePacketBuilder \<Rightarrow> ('p, Empty, 't) UsbDevicePacketBuilder" where
  "header_version b =
     \<lparr>b_payload = b_payload b, b_header = Empty, b_tcp_hdr = b_tcp_hdr b\<rparr>"

definition header_setup ::
    "('p, Empty, 't) UsbDevicePacketBuilder \<Rightarrow> ('p, u16 \<times> u16, 't) UsbDevicePacketBuilder" where
  "header_setup b =
     \<lparr>b_payload = b_payload b, b_header = (0, -1), b_tcp_hdr = b_tcp_hdr b\<rparr>"

definition tcp_header ::
    "tcp_ops \<Rightarrow> u16 \<Rightarrow> u16 \<Rightarrow> u32 \<Rightarrow> u32 \<Rightarrow> TcpFlags \<Rightarrow> ('p, 'h, Empty) UsbDevicePacketBuilder
       \<Rightarrow> ('p, 'h, TcpHeader) UsbDevicePacketBuilder" where
  "tcp_header ops sport dport seqno ackno flags b =
     (let hdr = (tcp_new ops sport dport seqno WINDOW_SIZE)
                  \<lparr>ack := flags_contains flags ACK, syn := flags_contains flags SYN,
                   rst := flags_contains flags RST, acknowledgment_number := ackno\<rparr>
      in \<lparr>b_payload = b_payload b, b_header = b_header b, b_tcp_hdr = hdr\<rparr>)"

definition build_ack :: "(Empty, u16 \<times> u16, TcpHeader) UsbDevicePacketBuilder \<Rightarrow> UsbDevicePacket" where
  "build_ack b =
     (case b_header b of (send_seq, recv_seq) \<Rightarrow>
        packet_new (V2 (v2_new PTcp (V2_SIZE + MIN_LEN) send_seq recv_seq))
          (Some (b_tcp_hdr b)) (Bytes []))"

text \<open>A property list is sent as XML with a newline, after its length in four bytes.\<close>

definition plist_payload :: "('v \<Rightarrow> bytes option) \<Rightarrow> 'v \<Rightarrow> bytes option" where
  "plist_payload to_xml value =
     (case to_xml value of
        None \<Rightarrow> None
      | Some xml \<Rightarrow>
          let buf = (be_bytes 4 (0::u32) @ xml) @ [0x0A];
              plen = (word_of_nat (length buf - 4) :: u32)
          in Some (be_bytes 4 plen @ drop 4 buf))"

definition build_tcp_plist ::
    "('v \<Rightarrow> bytes option) \<Rightarrow> ('v, u16 \<times> u16, TcpHeader) UsbDevicePacketBuilder
       \<Rightarrow> UsbDevicePacket option" where
  "build_tcp_plist to_xml b =
     (case plist_payload to_xml (b_payload b) of
        None \<Rightarrow> None
      | Some pl \<Rightarrow>
          (case b_header b of (send_seq, recv_seq) \<Rightarrow>
             Some (packet_new
               (V2 (v2_new PTcp (V2_SIZE + MIN_LEN + length pl) send_seq recv_seq))
               (Some (b_tcp_hdr b)) (Bytes pl))))"

definition build_tcp_bytes ::
    "(bytes, u16 \<times> u16, TcpHeader) UsbDevicePacketBuilder \<Rightarrow> UsbDevicePacket" where
  "build_tcp_bytes b =
     (case b_header b of (send_seq, recv_seq) \<Rightarrow>
        packet_new
          (V2 (v2_new PTcp (V2_SIZE + MIN_LEN + length (b_payload b)) send_seq recv_seq))
          (Some (b_tcp_hdr b)) (Bytes (b_payload b)))"

definition build_version ::
    "(UsbDevicePacketVersion, Empty, Empty) UsbDevicePacketBuilder \<Rightarrow> UsbDevicePacket" where
  "build_version b =
     packet_new (V1 (v1_new PVersion (word_of_nat (V1_SIZE + VERSION_SIZE)))) None
       (Version (b_payload b))"

definition build_setup :: "(bytes, u16 \<times> u16, Empty) UsbDevicePacketBuilder \<Rightarrow> UsbDevicePacket" where
  "build_setup b =
     (case b_header b of (send_seq, recv_seq) \<Rightarrow>
        packet_new (V2 (v2_new PSetup (V2_SIZE + length (b_payload b)) send_seq recv_seq)) None
          (Bytes (b_payload b)))"

section \<open>What is built is well formed\<close>

lemma WINDOW_SIZE_val: "WINDOW_SIZE = 512"
  by (simp add: WINDOW_SIZE_def)

lemma flags_contains_table [simp]:
  "flags_contains ACK ACK" "\<not> flags_contains ACK SYN" "\<not> flags_contains ACK RST"
  "\<not> flags_contains SYN ACK" "flags_contains SYN SYN" "\<not> flags_contains SYN RST"
  "\<not> flags_contains RST ACK" "\<not> flags_contains RST SYN" "flags_contains RST RST"
  by (simp_all add: flags_contains_def ACK_def SYN_def RST_def)

lemma v2_new_fields [simp]:
  "v2_protocol (v2_new pr n a b) = protocol_u32 pr"
  "v2_length (v2_new pr n a b) = word_of_nat n"
  "v2_send_seq (v2_new pr n a b) = a" "v2_recv_seq (v2_new pr n a b) = b"
  by (simp_all add: v2_new_def)

lemma unat_len_u32 [simp]: "n < 2 ^ 32 \<Longrightarrow> unat (word_of_nat n :: u32) = n"
  by (simp add: unat_of_nat)

lemma get_protocol_v2_new [simp]: "get_protocol (V2 (v2_new pr n a b)) = Some pr"
  by (simp add: get_protocol_def from_u32_unchecked_Some)

lemma tcp_header_built:
  assumes "tcp_laws ops"
  shows "b_tcp_hdr (tcp_header ops sp dp sn an fl b) =
     \<lparr>source_port = sp, destination_port = dp, sequence_number = sn,
      acknowledgment_number = an, ns = False, fin = False, syn = flags_contains fl SYN,
      rst = flags_contains fl RST, psh = False, ack = flags_contains fl ACK, urg = False,
      ece = False, cwr = False, window_size = 512, checksum = 0, urgent_pointer = 0,
      options = []\<rparr>"
  using assms by (simp add: tcp_header_def Let_def tcp_laws_def tcp_new_law_def WINDOW_SIZE_val)

lemma tcp_header_keeps [simp]:
  "b_payload (tcp_header ops sp dp sn an fl b) = b_payload b"
  "b_header (tcp_header ops sp dp sn an fl b) = b_header b"
  by (simp_all add: tcp_header_def Let_def)

lemma wf_tcp_packet:
  assumes "options t = []" and "36 + length pl < 2 ^ 32"
  shows "wf_packet (packet_new (V2 (v2_new PTcp (V2_SIZE + MIN_LEN + length pl) a b)) (Some t) (Bytes pl))"
  using assms by (simp add: wf_packet_def wf_shape_def packet_new_def tcp_hdr_ok_def tcp_valid_def
      packet_size_def options_len_def unat_len_u32 [of "36 + length pl", simplified])

lemma wf_build_ack: "options (b_tcp_hdr b) = [] \<Longrightarrow> wf_packet (build_ack b)"
  using wf_tcp_packet [of "b_tcp_hdr b" "[]"]
  by (simp add: build_ack_def split: prod.splits)

lemma wf_build_tcp_bytes:
  "options (b_tcp_hdr b) = [] \<Longrightarrow> 36 + length (b_payload b) < 2 ^ 32 \<Longrightarrow> wf_packet (build_tcp_bytes b)"
  using wf_tcp_packet [of "b_tcp_hdr b" "b_payload b"]
  by (simp add: build_tcp_bytes_def split: prod.splits)

lemma wf_build_tcp_plist:
  assumes "build_tcp_plist to_xml b = Some p" and "options (b_tcp_hdr b) = []"
    and "plist_payload to_xml (b_payload b) = Some pl" and "36 + length pl < 2 ^ 32"
  shows "wf_packet p"
  using assms wf_tcp_packet [of "b_tcp_hdr b" pl]
  by (auto simp: build_tcp_plist_def split: prod.splits)

lemma wf_build_version: "wf_packet (build_version b)"
  by (simp add: build_version_def wf_packet_def wf_shape_def packet_new_def v1_new_def
      get_protocol_def from_u32_unchecked_def tcp_hdr_ok_def packet_size_def options_len_def)

lemma wf_build_setup: "16 + length (b_payload b) < 2 ^ 32 \<Longrightarrow> wf_packet (build_setup b)"
  by (simp add: build_setup_def wf_packet_def wf_shape_def packet_new_def tcp_hdr_ok_def
      packet_size_def options_len_def unat_len_u32 [of "16 + length (b_payload b)", simplified]
      split: prod.splits)

text \<open>The prefix of a property list payload is the number of bytes that follow it.\<close>

lemma plist_payload_layout:
  assumes "plist_payload to_xml v = Some pl"
  obtains xml where "to_xml v = Some xml"
    "pl = be_bytes 4 (word_of_nat (length xml + 1) :: u32) @ xml @ [0x0A]"
  using assms by (auto simp: plist_payload_def Let_def split: option.splits)

section \<open>Properties\<close>

lemma reader_parse_encode:
  "tcp_laws ops \<Longrightarrow> wf_packet p \<Longrightarrow> no_options p \<Longrightarrow>
     reader_parse ops e (encode ops p @ rest) = (Ok p, rest)"
  using reader_frames.parse_enc by blast

lemma no_options_built:
  "tcp_hdr p = None \<Longrightarrow> no_options p"
  "tcp_hdr p = Some t \<Longrightarrow> options t = [] \<Longrightarrow> no_options p"
  by (simp_all add: no_options_def)

text \<open>
  Every packet the builder makes, of any kind the program sends, is read back unchanged by
  the stream parser from its own encoding, whatever follows it, provided its size fits the 32
  bits of the length field.
\<close>
theorem built_packets_decode:
  assumes "tcp_laws ops" and "36 + length v < 2 ^ 32"
    and "b = tcp_header ops sp dp sn an fl (header_tcp s r builder_new)"
    and "p \<in> {build_ack b, build_tcp_bytes (payload_bytes v b),
             build_version (payload_version ma mi (header_version builder_new)),
             build_setup (payload_bytes v (header_setup builder_new))}"
  shows "reader_parse ops e (encode ops p @ rest) = (Ok p, rest)"
proof -
  have opts: "options (b_tcp_hdr b) = []" by (simp add: assms(3) tcp_header_built [OF assms(1)])
  have pb: "b_tcp_hdr (payload_bytes v b) = b_tcp_hdr b" "b_payload (payload_bytes v b) = v"
    "b_payload (payload_bytes v (header_setup builder_new)) = v"
    by (simp_all add: payload_bytes_def)
  have wf: "wf_packet p"
    using assms(2,4) opts pb wf_build_ack wf_build_tcp_bytes [of "payload_bytes v b"]
      wf_build_version wf_build_setup [of "payload_bytes v (header_setup builder_new)"] by auto
  have "no_options p"
    using assms(4) opts pb
    by (auto simp: build_ack_def build_tcp_bytes_def build_version_def build_setup_def
        packet_new_def no_options_def split: prod.splits)
  with wf assms(1) show ?thesis by (simp add: reader_parse_encode)
qed

theorem built_packets_decode_witness:
  "let p = build_tcp_bytes (payload_bytes [1, 2] (tcp_header rfc_ops 3 4 5 6 ACK
             (header_tcp 0 0 builder_new)))
   in reader_parse rfc_ops (IoError UnexpectedEof []) (encode rfc_ops p @ [7]) = (Ok p, [7])"
  unfolding Let_def
  by (rule built_packets_decode [OF rfc_ops_laws, of "[1, 2]"
        "tcp_header rfc_ops 3 4 5 6 ACK (header_tcp 0 0 builder_new)" 3 4 5 6 ACK 0 0]) simp_all

text \<open>
  A property list is sent with its length: the first four bytes of the payload are the
  number of bytes that follow, which are the XML text and a newline; the packet is parsed back
  unchanged.
\<close>
theorem plist_packet_prefix:
  assumes "tcp_laws ops" and "to_xml v = Some xml" and "length xml + 41 < 2 ^ 32"
    and "b = payload_plist v (tcp_header ops sp dp sn an fl (header_tcp s r builder_new))"
  shows "\<exists>p pl. build_tcp_plist to_xml b = Some p \<and> payload p = Bytes pl
     \<and> drop 4 pl = xml @ [0x0A] \<and> unat (from_be (take 4 pl) :: u32) = length (drop 4 pl)
     \<and> reader_parse ops e (encode ops p @ rest) = (Ok p, rest)"
proof -
  let ?pl = "be_bytes 4 (word_of_nat (length xml + 1) :: u32) @ xml @ [0x0A]"
  have pl: "plist_payload to_xml (b_payload b) = Some ?pl"
    using assms(2,4) by (simp add: payload_plist_def plist_payload_def Let_def)
  have opts: "options (b_tcp_hdr b) = []"
    by (simp add: assms(4) payload_plist_def tcp_header_built [OF assms(1)])
  obtain p where p: "build_tcp_plist to_xml b = Some p" "payload p = Bytes ?pl"
    "tcp_hdr p = Some (b_tcp_hdr b)"
    using pl by (cases "b_header b") (simp add: build_tcp_plist_def packet_new_def)
  have "wf_packet p" using wf_build_tcp_plist [OF p(1) opts pl] assms(3) by simp
  then have "reader_parse ops e (encode ops p @ rest) = (Ok p, rest)"
    using reader_parse_encode [OF assms(1)] no_options_built(2) [OF p(3) opts] by blast
  moreover have "unat (from_be (take 4 ?pl) :: u32) = length (drop 4 ?pl)"
    using assms(3) unat_len_u32 [of "length xml + 1"] by (simp add: wire_simps)
  ultimately show ?thesis
    using p(1,2) by (intro exI [of _ p] exI [of _ ?pl]) simp
qed

theorem plist_packet_prefix_witness:
  "\<exists>p pl. build_tcp_plist Some (payload_plist [60, 62] (tcp_header rfc_ops 1 2 3 4 ACK
       (header_tcp 0 0 builder_new))) = Some p \<and> payload p = Bytes pl
     \<and> drop 4 pl = [60, 62] @ [0x0A] \<and> unat (from_be (take 4 pl) :: u32) = length (drop 4 pl)
     \<and> reader_parse rfc_ops (IoError UnexpectedEof []) (encode rfc_ops p @ []) = (Ok p, [])"
  by (rule plist_packet_prefix [OF rfc_ops_laws]) simp_all

end
