(* ===== verification/Plist.thy ===== *)
theory Plist
  imports Errors
begin

text \<open>
  Property list values (\<open>plist::Value\<close>), as far as the program builds and reads them. A Rust
  string is a HOL string: a character is one byte of its UTF-8 form. A dictionary keeps its
  entries in the order in which they were inserted. Reading and writing the XML form belongs to
  the crates \<open>plist\<close> and \<open>plist_macro\<close> and is a parameter wherever it is used.
\<close>

datatype Value =
    Array "Value list"
  | Dictionary "(string \<times> Value) list"
  | Boolean bool
  | Data bytes
  | Integer int
  | Real string
  | String string
  | Date string
  | Uid nat

definition str_of :: "bytes \<Rightarrow> string" where
  "str_of bs = map (\<lambda>b. char_of (unat b)) bs"

definition bytes_of :: "string \<Rightarrow> bytes" where
  "bytes_of s = map (\<lambda>c. word_of_nat (of_char c)) s"

fun as_dictionary :: "Value \<Rightarrow> (string \<times> Value) list option" where
  "as_dictionary (Dictionary d) = Some d"
| "as_dictionary v = None"

fun as_string :: "Value \<Rightarrow> string option" where
  "as_string (String s) = Some s"
| "as_string v = None"

text \<open>An integer is readable as an unsigned or a signed 64-bit number when it fits.\<close>

fun as_unsigned_integer :: "Value \<Rightarrow> u64 option" where
  "as_unsigned_integer (Integer i) = (if 0 \<le> i \<and> i < 2 ^ 64 then Some (word_of_int i) else None)"
| "as_unsigned_integer v = None"

fun as_signed_integer :: "Value \<Rightarrow> u64 option" where
  "as_signed_integer (Integer i) = (if - (2 ^ 63) \<le> i \<and> i < 2 ^ 63 then Some (word_of_int i) else None)"
| "as_signed_integer v = None"

definition int_u :: "'a::len word \<Rightarrow> Value" where
  "int_u w = Integer (uint w)"

lemma bytes_of_str_of [simp]: "bytes_of (str_of bs) = bs"
proof -
  have small: "unat b < 256" for b :: u8 using unsigned_less [of b] by simp
  have "word_of_nat (of_char (char_of (unat b) :: char)) = b" for b :: u8
    using small [of b] by simp
  then show ?thesis by (simp add: bytes_of_def str_of_def comp_def)
qed

lemma str_of_bytes_of [simp]: "str_of (bytes_of s) = s"
proof -
  have "char_of (unat (word_of_nat (of_char c) :: u8)) = c" for c :: char
  proof -
    have "(of_char c :: nat) < 256" using nat_of_char_less_256 by simp
    then have "unat (word_of_nat (of_char c) :: u8) = of_char c"
      by (simp add: unat_of_nat)
    then show ?thesis by simp
  qed
  then show ?thesis by (simp add: bytes_of_def str_of_def comp_def)
qed

lemma str_of_inject [simp]: "str_of a = str_of b \<longleftrightarrow> a = b"
  by (metis bytes_of_str_of)

end
