(* ===== verification/Usbmux.thy ===== *)
theory Usbmux
  imports Plist
begin

text \<open>
  The protocol between clients and the daemon: \<^verbatim>\<open>src/parser/usbmux.rs\<close>. A packet is a header
  of four 32-bit integers in the byte order of the host (the struct is cast to bytes) and a
  payload, a property list or raw bytes. The XML reader and writer of the crates \<open>plist\<close> and
  \<open>plist_macro\<close> are parameters \<open>from_plist\<close> and \<open>to_xml\<close>.
\<close>

section \<open>Enumerations\<close>

datatype UsbMuxVersion = Binary | PlistVersion

fun version_u32 :: "UsbMuxVersion \<Rightarrow> u32" where
  "version_u32 Binary = 0"
| "version_u32 PlistVersion = 1"

definition version_try_from :: "u32 \<Rightarrow> ParseError + UsbMuxVersion" where
  "version_try_from value =
     (if value = 0 then Inr Binary
      else if value = 1 then Inr PlistVersion
      else Inl (ParseError_InvalidData
        (''`'' @ nat_str (unat value) @ ''` is not a valid usbmux packet version'')))"

datatype UsbMuxMsgType =
    MsgResult | MsgConnect | MsgListen | MsgDeviceAdd | MsgDeviceRemove | MsgDevicePaired
  | MessagePlist

fun msg_type_u32 :: "UsbMuxMsgType \<Rightarrow> u32" where
  "msg_type_u32 MsgResult = 1"
| "msg_type_u32 MsgConnect = 2"
| "msg_type_u32 MsgListen = 3"
| "msg_type_u32 MsgDeviceAdd = 4"
| "msg_type_u32 MsgDeviceRemove = 5"
| "msg_type_u32 MsgDevicePaired = 6"
| "msg_type_u32 MessagePlist = 8"

definition msg_type_try_from :: "u32 \<Rightarrow> ParseError + UsbMuxMsgType" where
  "msg_type_try_from value =
     (if value = 1 then Inr MsgResult
      else if value = 2 then Inr MsgConnect
      else if value = 3 then Inr MsgListen
      else if value = 4 then Inr MsgDeviceAdd
      else if value = 5 then Inr MsgDeviceRemove
      else if value = 6 then Inr MsgDevicePaired
      else if value = 8 then Inr MessagePlist
      else Inl (ParseError_InvalidData
        (''`'' @ nat_str (unat value) @ ''` is not a valid usbmux message type'')))"

datatype UsbMuxResult = ResultOk | ResultBadCommand | ResultBadDev | ResultConnRefused | ResultBadVersion

fun result_u32 :: "UsbMuxResult \<Rightarrow> u32" where
  "result_u32 ResultOk = 0"
| "result_u32 ResultBadCommand = 1"
| "result_u32 ResultBadDev = 2"
| "result_u32 ResultConnRefused = 3"
| "result_u32 ResultBadVersion = 6"

definition result_try_from :: "u32 \<Rightarrow> ParseError + UsbMuxResult" where
  "result_try_from value =
     (if value = 0 then Inr ResultOk
      else if value = 1 then Inr ResultBadCommand
      else if value = 2 then Inr ResultBadDev
      else if value = 3 then Inr ResultConnRefused
      else if value = 6 then Inr ResultBadVersion
      else Inl (ParseError_InvalidData
        (''`'' @ nat_str (unat value) @ ''` is not a valid usbmux result'')))"

datatype PayloadMessageType =
    PListen | PListDevices | PListListeners | PReadBUID | PReadPairRecord | PSavePairRecord
  | PDeletePairRecord | PConnect

fun message_type_str :: "PayloadMessageType \<Rightarrow> string" where
  "message_type_str PListen = ''Listen''"
| "message_type_str PListDevices = ''ListDevices''"
| "message_type_str PListListeners = ''ListListeners''"
| "message_type_str PReadBUID = ''ReadBUID''"
| "message_type_str PReadPairRecord = ''ReadPairRecord''"
| "message_type_str PSavePairRecord = ''SavePairRecord''"
| "message_type_str PDeletePairRecord = ''DeletePairRecord''"
| "message_type_str PConnect = ''Connect''"

definition message_type_try_from :: "string \<Rightarrow> string + PayloadMessageType" where
  "message_type_try_from value =
     (if value = ''Listen'' then Inr PListen
      else if value = ''ListDevices'' then Inr PListDevices
      else if value = ''ListListeners'' then Inr PListListeners
      else if value = ''ReadBUID'' then Inr PReadBUID
      else if value = ''ReadPairRecord'' then Inr PReadPairRecord
      else if value = ''SavePairRecord'' then Inr PSavePairRecord
      else if value = ''DeletePairRecord'' then Inr PDeletePairRecord
      else if value = ''Connect'' then Inr PConnect
      else Inl (''unknown payload message type: '' @ value))"

section \<open>Headers\<close>

record RawUsbMuxHeader =
  raw_len :: u32
  raw_version :: u32
  raw_msg_type :: u32
  raw_tag :: u32

record UsbMuxHeader =
  hdr_len :: u32
  hdr_version :: UsbMuxVersion
  hdr_msg_type :: UsbMuxMsgType
  hdr_tag :: u32

definition USBMUX_SIZE :: nat where "USBMUX_SIZE = 16"

definition raw_encode :: "endian \<Rightarrow> RawUsbMuxHeader \<Rightarrow> bytes" where
  "raw_encode en r =
     ne_bytes en 4 (raw_len r) @ ne_bytes en 4 (raw_version r) @ ne_bytes en 4 (raw_msg_type r)
     @ ne_bytes en 4 (raw_tag r)"

definition raw_decode :: "endian \<Rightarrow> bytes \<Rightarrow> RawUsbMuxHeader" where
  "raw_decode en b =
     \<lparr>raw_len = from_ne en (take 4 b), raw_version = from_ne en (take 4 (drop 4 b)),
      raw_msg_type = from_ne en (take 4 (drop 8 b)), raw_tag = from_ne en (take 4 (drop 12 b))\<rparr>"

definition usbmux_header_encode :: "endian \<Rightarrow> UsbMuxHeader \<Rightarrow> bytes" where
  "usbmux_header_encode en h =
     raw_encode en \<lparr>raw_len = hdr_len h, raw_version = version_u32 (hdr_version h),
       raw_msg_type = msg_type_u32 (hdr_msg_type h), raw_tag = hdr_tag h\<rparr>"

definition usbmux_header_from_reader ::
    "endian \<Rightarrow> reader \<Rightarrow> (ParseError + UsbMuxHeader) \<times> reader" where
  "usbmux_header_from_reader en r =
     (case read_exact USBMUX_SIZE r of
        (Inl e, r1) \<Rightarrow> (Inl (ParseError_IO e), r1)
      | (Inr b, r1) \<Rightarrow>
          (let raw = raw_decode en b in
           case version_try_from (raw_version raw) of
             Inl e \<Rightarrow> (Inl e, r1)
           | Inr v \<Rightarrow>
               (case msg_type_try_from (raw_msg_type raw) of
                  Inl e \<Rightarrow> (Inl e, r1)
                | Inr t \<Rightarrow> (Inr \<lparr>hdr_len = raw_len raw, hdr_version = v, hdr_msg_type = t,
                              hdr_tag = raw_tag raw\<rparr>, r1))))"

section \<open>Packets\<close>

datatype UsbMuxPayload = PlistPayload Value | Raw bytes

fun as_plist :: "UsbMuxPayload \<Rightarrow> Value option" where
  "as_plist (PlistPayload p) = Some p"
| "as_plist (Raw b) = None"

fun as_binary :: "UsbMuxPayload \<Rightarrow> bytes option" where
  "as_binary (Raw b) = Some b"
| "as_binary (PlistPayload p) = None"

fun usbmux_payload_encode :: "(Value \<Rightarrow> bytes) \<Rightarrow> UsbMuxPayload \<Rightarrow> bytes" where
  "usbmux_payload_encode to_xml (PlistPayload p) = to_xml p"
| "usbmux_payload_encode to_xml (Raw b) = b"

fun usbmux_payload_decode ::
    "(bytes \<Rightarrow> string + Value) \<Rightarrow> UsbMuxVersion \<Rightarrow> bytes \<Rightarrow> ParseError + UsbMuxPayload" where
  "usbmux_payload_decode from_plist PlistVersion b =
     (case from_plist b of Inl e \<Rightarrow> Inl (ParseError_Plist e) | Inr v \<Rightarrow> Inr (PlistPayload v))"
| "usbmux_payload_decode from_plist Binary b = Inr (Raw b)"

record UsbMuxPacket =
  um_header :: UsbMuxHeader
  um_payload :: UsbMuxPayload

definition usbmux_encode :: "endian \<Rightarrow> (Value \<Rightarrow> bytes) \<Rightarrow> UsbMuxPacket \<Rightarrow> bytes" where
  "usbmux_encode en to_xml p =
     usbmux_header_encode en (um_header p) @ usbmux_payload_encode to_xml (um_payload p)"

definition usbmux_encode_from ::
    "endian \<Rightarrow> (Value \<Rightarrow> bytes) \<Rightarrow> bytes \<Rightarrow> UsbMuxVersion \<Rightarrow> UsbMuxMsgType \<Rightarrow> u32 \<Rightarrow> bytes" where
  "usbmux_encode_from en to_xml payload v t tag =
     usbmux_encode en to_xml
       \<lparr>um_header = \<lparr>hdr_len = word_of_nat (length payload + USBMUX_SIZE), hdr_version = v,
          hdr_msg_type = t, hdr_tag = tag\<rparr>,
        um_payload = Raw payload\<rparr>"

definition usbmux_from_reader ::
    "endian \<Rightarrow> (bytes \<Rightarrow> string + Value) \<Rightarrow> reader \<Rightarrow> (ParseError + UsbMuxPacket) \<times> reader" where
  "usbmux_from_reader en from_plist r =
     (case usbmux_header_from_reader en r of
        (Inl e, r1) \<Rightarrow> (Inl e, r1)
      | (Inr h, r1) \<Rightarrow>
          (if unat (hdr_len h) < USBMUX_SIZE
           then (Inl (ParseError_InvalidData
                  (''payload is shorter than the header, header length: '' @ nat_str USBMUX_SIZE
                   @ '', payload length: '' @ nat_str (unat (hdr_len h)))), r1)
           else (case read_exact (unat (hdr_len h) - USBMUX_SIZE) r1 of
                   (Inl e, r2) \<Rightarrow> (Inl (ParseError_IO e), r2)
                 | (Inr b, r2) \<Rightarrow>
                     (case usbmux_payload_decode from_plist (hdr_version h) b of
                        Inl e \<Rightarrow> (Inl e, r2)
                      | Inr pl \<Rightarrow> (Inr \<lparr>um_header = h, um_payload = pl\<rparr>, r2)))))"

section \<open>Requests\<close>

record UsbMuxCommon =
  bundle_id :: "string option"
  client_version_string :: "string option"
  conn_type :: "u8 option"
  process_id :: "u32 option"
  prog_name :: "string option"
  libusbmux_version :: "u8 option"

datatype UsbMuxRequest =
    Listen UsbMuxCommon
  | ListDevices UsbMuxCommon
  | ListListeners UsbMuxCommon
  | ReadBUID UsbMuxCommon
  | ReadPairRecord UsbMuxCommon string
  | SavePairRecord UsbMuxCommon string bytes "u64 option"
  | DeletePairRecord UsbMuxCommon string
  | Connect UsbMuxCommon u64 u16

text \<open>\<open>to_be\<close>: the number whose bytes in memory are the big-endian bytes of \<open>w\<close>.\<close>

definition u16_to_be :: "endian \<Rightarrow> u16 \<Rightarrow> u16" where
  "u16_to_be en w = from_ne en (be_bytes 2 w)"

definition deserialize_port_number :: "endian \<Rightarrow> Value \<Rightarrow> string + u16" where
  "deserialize_port_number en value =
     (case as_unsigned_integer value of
        Some ui \<Rightarrow> Inr (u16_to_be en (ucast ui))
      | None \<Rightarrow>
          (case as_signed_integer value of
             Some si \<Rightarrow> Inr (u16_to_be en (ucast si))
           | None \<Rightarrow> Inl ''PortNumber is neither a signed number nor an unsigned number''))"

section \<open>Lemmas\<close>

lemma version_try_from_Inr: "version_try_from x = Inr v \<longleftrightarrow> x = version_u32 v"
  by (cases v) (auto simp: version_try_from_def)

lemma msg_type_try_from_Inr: "msg_type_try_from x = Inr t \<longleftrightarrow> x = msg_type_u32 t"
  by (cases t) (auto simp: msg_type_try_from_def)

lemma result_try_from_Inr: "result_try_from x = Inr t \<longleftrightarrow> x = result_u32 t"
  by (cases t) (auto simp: result_try_from_def)

lemma message_type_try_from_Inr: "message_type_try_from s = Inr t \<longleftrightarrow> s = message_type_str t"
  by (cases t) (auto simp: message_type_try_from_def)

interpretation usbmux_wire: wire_record "raw_encode en" "raw_decode en" USBMUX_SIZE for en
proof
  fix h :: RawUsbMuxHeader and bs :: bytes
  show "length (raw_encode en h) = USBMUX_SIZE" by (simp add: raw_encode_def USBMUX_SIZE_def)
  show "raw_decode en (raw_encode en h) = h" by (simp add: raw_encode_def raw_decode_def wire_simps)
  assume len: "length bs = USBMUX_SIZE"
  have "bs = take 4 bs @ take 4 (drop 4 bs) @ take 4 (drop 8 bs) @ take 4 (drop 12 bs)"
    using len append_take_drop_id [of 4 bs] append_take_drop_id [of 4 "drop 4 bs"]
      append_take_drop_id [of 4 "drop 8 bs"]
    by (simp add: USBMUX_SIZE_def)
  with len show "raw_encode en (raw_decode en bs) = bs"
    by (simp add: raw_encode_def raw_decode_def ne_bytes_from_ne USBMUX_SIZE_def)
qed

lemma length_usbmux_header [simp]: "length (usbmux_header_encode en h) = USBMUX_SIZE"
  by (simp add: usbmux_header_encode_def usbmux_wire.enc_length)

lemma usbmux_header_roundtrip:
  "usbmux_header_from_reader en (r\<lparr>avail := usbmux_header_encode en h @ s\<rparr>) = (Inr h, r\<lparr>avail := s\<rparr>)"
proof -
  let ?raw = "\<lparr>raw_len = hdr_len h, raw_version = version_u32 (hdr_version h),
       raw_msg_type = msg_type_u32 (hdr_msg_type h), raw_tag = hdr_tag h\<rparr>"
  have "version_try_from (raw_version ?raw) = Inr (hdr_version h)"
    "msg_type_try_from (raw_msg_type ?raw) = Inr (hdr_msg_type h)"
    by (simp_all add: version_try_from_Inr msg_type_try_from_Inr)
  then show ?thesis
    by (simp add: usbmux_header_from_reader_def read_exact_append Let_def usbmux_header_encode_def
        usbmux_wire.enc_length usbmux_wire.dec_enc)
qed

text \<open>A packet whose length field counts it and whose payload is of the kind its version says.\<close>

definition wf_usbmux :: "(bytes \<Rightarrow> string + Value) \<Rightarrow> (Value \<Rightarrow> bytes) \<Rightarrow> UsbMuxPacket \<Rightarrow> bool" where
  "wf_usbmux from_plist to_xml p \<longleftrightarrow>
     unat (hdr_len (um_header p)) = USBMUX_SIZE + length (usbmux_payload_encode to_xml (um_payload p))
     \<and> (case um_payload p of
          PlistPayload v \<Rightarrow> hdr_version (um_header p) = PlistVersion \<and> from_plist (to_xml v) = Inr v
        | Raw b \<Rightarrow> hdr_version (um_header p) = Binary)"

lemma usbmux_from_reader_encode:
  assumes "wf_usbmux from_plist to_xml p"
  shows "usbmux_from_reader en from_plist (r\<lparr>avail := usbmux_encode en to_xml p @ s\<rparr>) =
     (Inr p, r\<lparr>avail := s\<rparr>)"
proof -
  let ?b = "usbmux_payload_encode to_xml (um_payload p)"
  have h: "usbmux_header_from_reader en (r\<lparr>avail := usbmux_header_encode en (um_header p) @ ?b @ s\<rparr>) =
      (Inr (um_header p), r\<lparr>avail := ?b @ s\<rparr>)"
    by (rule usbmux_header_roundtrip)
  have n: "unat (hdr_len (um_header p)) - USBMUX_SIZE = length ?b"
    "\<not> unat (hdr_len (um_header p)) < USBMUX_SIZE"
    using assms by (simp_all add: wf_usbmux_def)
  have "usbmux_payload_decode from_plist (hdr_version (um_header p)) ?b = Inr (um_payload p)"
    using assms by (auto simp: wf_usbmux_def split: UsbMuxPayload.splits)
  then show ?thesis
    using h n by (simp add: usbmux_from_reader_def usbmux_encode_def read_exact_append)
qed

text \<open>The stream parser as a parser of byte strings.\<close>

definition usbmux_parse ::
    "endian \<Rightarrow> (bytes \<Rightarrow> string + Value) \<Rightarrow> io_error \<Rightarrow> bytes \<Rightarrow> (ParseError, UsbMuxPacket) outcome \<times> bytes" where
  "usbmux_parse en from_plist e s =
     (case usbmux_from_reader en from_plist \<lparr>avail = s, at_end = e\<rparr> of
        (Inl err, r) \<Rightarrow> (Err err, avail r) | (Inr p, r) \<Rightarrow> (Ok p, avail r))"

interpretation usbmux_frames: framed "usbmux_encode en to_xml" "usbmux_parse en from_plist e"
  "wf_usbmux from_plist to_xml" for en to_xml from_plist e
proof
  fix p r
  assume "wf_usbmux from_plist to_xml p"
  from usbmux_from_reader_encode [OF this, where en = en and s = r
      and r = "\<lparr>avail = [], at_end = e\<rparr>"]
  show "usbmux_parse en from_plist e (usbmux_encode en to_xml p @ r) = (Ok p, r)"
    by (simp add: usbmux_parse_def)
qed

text \<open>What the daemon sends, as the client reads it.\<close>

lemma usbmux_encode_from_reads:
  assumes "length b + 16 < 2 ^ 32" and "from_plist b = Inr v"
  shows "usbmux_from_reader en from_plist
       (r\<lparr>avail := usbmux_encode_from en to_xml b PlistVersion MessagePlist tag @ s\<rparr>) =
     (Inr \<lparr>um_header = \<lparr>hdr_len = word_of_nat (length b + 16), hdr_version = PlistVersion,
             hdr_msg_type = MessagePlist, hdr_tag = tag\<rparr>, um_payload = PlistPayload v\<rparr>,
      r\<lparr>avail := s\<rparr>)"
proof -
  let ?h = "\<lparr>hdr_len = word_of_nat (length b + 16), hdr_version = PlistVersion,
             hdr_msg_type = MessagePlist, hdr_tag = tag\<rparr>"
  have n: "unat (word_of_nat (length b + 16) :: u32) = length b + 16"
    using assms(1) by (simp add: unat_of_nat del: of_nat_add)
  have "usbmux_header_from_reader en (r\<lparr>avail := usbmux_header_encode en ?h @ b @ s\<rparr>) =
      (Inr ?h, r\<lparr>avail := b @ s\<rparr>)"
    by (rule usbmux_header_roundtrip)
  then show ?thesis
    using n assms(2)
    by (simp add: usbmux_from_reader_def usbmux_encode_from_def usbmux_encode_def
        read_exact_append USBMUX_SIZE_def del: of_nat_add)
qed

section \<open>Properties\<close>

text \<open>
  C29. A stream of requests or responses, encoded one after the other on a host of either byte
  order, is parsed back to exactly these packets, in order, and nothing behind them is taken;
  of the property list codec this needs only that it reads back the values it has written.
\<close>
theorem usbmux_stream_roundtrip:
  assumes "list_all (wf_usbmux from_plist to_xml) ps"
  shows "parse_n (usbmux_parse en from_plist e) (length ps)
       (concat (map (usbmux_encode en to_xml) ps) @ rest) = (ps, rest)"
  using usbmux_frames.parse_n_concat [OF assms] .

theorem usbmux_stream_roundtrip_witness:
  "let p = \<lparr>um_header = \<lparr>hdr_len = 18, hdr_version = PlistVersion, hdr_msg_type = MessagePlist,
              hdr_tag = 5\<rparr>, um_payload = PlistPayload (Data [1, 2])\<rparr>
   in parse_n (usbmux_parse Little (\<lambda>b. Inr (Data b)) (IoError UnexpectedEof [])) (length [p, p])
        (concat (map (usbmux_encode Little (\<lambda>v. case v of Data b \<Rightarrow> b | _ \<Rightarrow> [])) [p, p]) @ [9])
      = ([p, p], [9])"
  unfolding Let_def
  by (rule usbmux_stream_roundtrip) (simp add: wf_usbmux_def USBMUX_SIZE_def)

text \<open>
  The port of a connect request is the one the client means: on a host of either byte order,
  a client that sends its port in network byte order, as the integer it has in memory, gets that
  port.
\<close>
theorem port_number_roundtrip:
  "deserialize_port_number en (int_u (from_ne en (be_bytes 2 port) :: u16)) = Inr port"
proof -
  let ?w = "from_ne en (be_bytes 2 port) :: u16"
  have bounds: "uint ?w < 2 ^ 64" "0 \<le> uint ?w" using uint_bounded [of ?w] by auto
  have "(ucast (word_of_int (uint ?w) :: u64) :: u16) = ucast (ucast ?w :: u64)" by simp
  also have "\<dots> = ?w" by (rule bit_word_eqI) (simp add: bit_simps)
  finally have low: "(ucast (word_of_int (uint ?w) :: u64) :: u16) = ?w" .
  have "ne_bytes en 2 ?w = be_bytes 2 port"
    by (rule ne_bytes_from_ne) simp_all
  then have "be_bytes 2 ?w = ne_bytes en 2 port"
    by (cases en) (simp_all add: ne_bytes_def be_bytes_def rev_swap)
  then have "u16_to_be en ?w = port"
    by (simp add: u16_to_be_def from_ne_ne_bytes)
  with low bounds show ?thesis by (simp add: deserialize_port_number_def int_u_def)
qed

end
