(* ===== verification/Usb_Backend.thy ===== *)
theory Usb_Backend
  imports Errors
begin

text \<open>
  The USB backends: device information and identifiers of \<^verbatim>\<open>src/usb_backend/mod.rs\<close>, the hotplug
  streams and the choice of configuration, interface and endpoints of
  \<^verbatim>\<open>src/usb_backend/nusb.rs\<close> and \<^verbatim>\<open>src/usb_backend/rusb.rs\<close>. What the crates \<open>nusb\<close> and
  \<open>rusb\<close> report about a device (descriptors, strings, answers of the operations on a handle)
  are fields of records; what the program does to a device is a list of actions.
\<close>

section \<open>Constants\<close>

definition APPLE_VID :: u16 where "APPLE_VID = 0x5ac"
definition APPLE_USBMUX_CLASS :: u8 where "APPLE_USBMUX_CLASS = 255"
definition APPLE_USBMUX_SUBCLASS :: u8 where "APPLE_USBMUX_SUBCLASS = 254"
definition APPLE_USBMUX_PROTOCOL :: u8 where "APPLE_USBMUX_PROTOCOL = 2"

section \<open>Device information\<close>

text \<open>The targets the code distinguishes by conditional compilation.\<close>

datatype target_os = Linux | MacOS | Windows

record nusb_info =
  n_vendor_id :: u16
  n_product_id :: u16
  n_serial_number :: "bytes option"
  n_speed :: "usb_speed option"
  n_busnum :: u8
  n_device_address :: u8
  n_location_id :: u32
  n_id :: nat

text \<open>
  A \<open>rusb\<close> device: its descriptor (vendor and product) when it can be read, and the answers of
  the calls that read its serial number.
\<close>

record rusb_device =
  r_descriptor :: "(u16 \<times> u16) option"
  r_open :: bool
  r_languages :: "nat list option"
  r_serial_string :: "nat \<Rightarrow> bytes option"
  r_speed :: usb_speed
  r_bus_number :: u8
  r_address :: u8

datatype AnyDeviceInfo = Nusb nusb_info | Rusb rusb_device

fun drop_zeros :: "bytes \<Rightarrow> bytes" where
  "drop_zeros [] = []"
| "drop_zeros (b # bs) = (if b = 0 then drop_zeros bs else b # bs)"

text \<open>\<open>trim_matches('\0')\<close>: zero bytes at both ends are removed.\<close>

definition trim_zeros :: "bytes \<Rightarrow> bytes" where
  "trim_zeros s = rev (drop_zeros (rev (drop_zeros s)))"

definition rusb_get_serial_number :: "rusb_device \<Rightarrow> bytes option" where
  "rusb_get_serial_number dev =
     (if r_open dev then
        (case r_languages dev of
           None \<Rightarrow> None
         | Some langs \<Rightarrow>
             (case langs of
                [] \<Rightarrow> None
              | lang # _ \<Rightarrow> map_option trim_zeros (r_serial_string dev lang)))
      else None)"

definition rusb_opaque_id :: "rusb_device \<Rightarrow> u64" where
  "rusb_opaque_id dev = push_bit 8 (ucast (r_bus_number dev)) OR ucast (r_address dev)"

text \<open>\<open>expect\<close> on an unreadable descriptor panics.\<close>

fun vendor_id :: "AnyDeviceInfo \<Rightarrow> ('e, u16) outcome" where
  "vendor_id (Nusb info) = Ok (n_vendor_id info)"
| "vendor_id (Rusb dev) =
     (case r_descriptor dev of None \<Rightarrow> Panic | Some (v, _) \<Rightarrow> Ok v)"

fun product_id :: "AnyDeviceInfo \<Rightarrow> ('e, u16) outcome" where
  "product_id (Nusb info) = Ok (n_product_id info)"
| "product_id (Rusb dev) =
     (case r_descriptor dev of None \<Rightarrow> Panic | Some (_, p) \<Rightarrow> Ok p)"

fun serial_number :: "AnyDeviceInfo \<Rightarrow> ('e, bytes option) outcome" where
  "serial_number (Nusb info) =
     (case n_serial_number info of
        None \<Rightarrow> Ok None
      | Some s \<Rightarrow> map_ok Some (get_serial_number s))"
| "serial_number (Rusb dev) =
     (case r_descriptor dev of
        None \<Rightarrow> Panic
      | Some _ \<Rightarrow>
          (case rusb_get_serial_number dev of
             None \<Rightarrow> Ok None
           | Some s \<Rightarrow> map_ok Some (get_serial_number_owned s)))"

fun speed :: "AnyDeviceInfo \<Rightarrow> u64 option" where
  "speed (Nusb info) = map_option nusb_speed_to_number (n_speed info)"
| "speed (Rusb dev) =
     (if r_speed dev = UnknownSpeed then None else Some (rusb_speed_to_number (r_speed dev)))"

fun location_id :: "target_os \<Rightarrow> AnyDeviceInfo \<Rightarrow> u32" where
  "location_id os (Nusb info) =
     (case os of
        Linux \<Rightarrow> push_bit 16 (ucast (n_busnum info)) OR ucast (n_device_address info)
      | MacOS \<Rightarrow> n_location_id info
      | Windows \<Rightarrow> 0)"
| "location_id os (Rusb dev) =
     (case os of
        Linux \<Rightarrow> push_bit 16 (ucast (r_bus_number dev)) OR ucast (r_address dev)
      | MacOS \<Rightarrow> 0
      | Windows \<Rightarrow> 0)"

fun bus_number :: "target_os \<Rightarrow> AnyDeviceInfo \<Rightarrow> u8" where
  "bus_number os (Nusb info) =
     (case os of Linux \<Rightarrow> n_busnum info | MacOS \<Rightarrow> 0 | Windows \<Rightarrow> 0)"
| "bus_number os (Rusb dev) = r_bus_number dev"

fun device_address :: "AnyDeviceInfo \<Rightarrow> u8" where
  "device_address (Nusb info) = n_device_address info"
| "device_address (Rusb dev) = r_address dev"

text \<open>\<open>hash\<close> is the digest of a \<open>nusb\<close> device id.\<close>

fun opaque_id :: "(nat \<Rightarrow> u64) \<Rightarrow> AnyDeviceInfo \<Rightarrow> u64" where
  "opaque_id hash (Nusb info) = hash (n_id info)"
| "opaque_id hash (Rusb dev) = rusb_opaque_id dev"

definition hash_id :: "(nat \<Rightarrow> u64) \<Rightarrow> nat \<Rightarrow> u64" where
  "hash_id hash i = hash i"

section \<open>Device identifiers and hotplug events\<close>

datatype Event = Connected AnyDeviceInfo u64 | Disconnected u64

text \<open>The counter is an atomic 64-bit integer; \<open>fetch_add\<close> wraps around.\<close>

definition take_new_id :: "u64 \<Rightarrow> u64 \<times> u64" where
  "take_new_id counter = (counter, counter + 1)"

definition list_devices :: "nusb_info list option \<Rightarrow> AnyDeviceInfo list" where
  "list_devices answer =
     (case answer of
        None \<Rightarrow> []
      | Some devices \<Rightarrow> map Nusb (filter (\<lambda>dev. n_vendor_id dev = APPLE_VID) devices))"

definition rusb_is_apple :: "rusb_device \<Rightarrow> bool" where
  "rusb_is_apple dev \<longleftrightarrow> (case r_descriptor dev of None \<Rightarrow> False | Some (v, _) \<Rightarrow> v = APPLE_VID)"

definition rusb_list_devices :: "rusb_device list option \<Rightarrow> AnyDeviceInfo list" where
  "rusb_list_devices answer =
     (case answer of None \<Rightarrow> [] | Some devices \<Rightarrow> map Rusb (filter rusb_is_apple devices))"

text \<open>State of a stream: the identifiers given to devices that are present, and the counter.\<close>

record id_stream =
  devices_id_map :: "u64 \<rightharpoonup> u64"
  id_counter :: u64

definition announce :: "u64 \<Rightarrow> AnyDeviceInfo \<Rightarrow> id_stream \<Rightarrow> Event list \<times> id_stream" where
  "announce key info st =
     (case take_new_id (id_counter st) of
        (i, counter) \<Rightarrow>
          ([Connected info i],
           st\<lparr>devices_id_map := (devices_id_map st)(key \<mapsto> i), id_counter := counter\<rparr>))"

definition retract :: "u64 \<Rightarrow> id_stream \<Rightarrow> Event list \<times> id_stream" where
  "retract key st =
     (case devices_id_map st key of
        None \<Rightarrow> ([], st)
      | Some i \<Rightarrow> ([Disconnected i], st\<lparr>devices_id_map := (devices_id_map st)(key := None)\<rparr>))"

datatype HotplugEvent = HotplugConnected nusb_info | HotplugDisconnected nat

text \<open>One event of \<open>nusb\<close>; a connection of a device that is not Apple's is filtered out.\<close>

fun nusb_hotplug ::
    "(nat \<Rightarrow> u64) \<Rightarrow> HotplugEvent \<Rightarrow> id_stream \<Rightarrow> Event list \<times> id_stream" where
  "nusb_hotplug hash (HotplugConnected info) st =
     (if n_vendor_id info \<noteq> APPLE_VID then ([], st)
      else announce (opaque_id hash (Nusb info)) (Nusb info) st)"
| "nusb_hotplug hash (HotplugDisconnected i) st = retract (hash_id hash i) st"

text \<open>Events that come one after the other.\<close>

primrec run_stream ::
    "('e \<Rightarrow> id_stream \<Rightarrow> Event list \<times> id_stream) \<Rightarrow> 'e list \<Rightarrow> id_stream
       \<Rightarrow> Event list \<times> id_stream" where
  "run_stream f [] st = ([], st)"
| "run_stream f (e # es) st =
     (case f e st of (out, st1) \<Rightarrow>
        (case run_stream f es st1 of (out', st') \<Rightarrow> (out @ out', st')))"

text \<open>The devices that are already there are announced first, then the events follow.\<close>

definition nusb_watch ::
    "(nat \<Rightarrow> u64) \<Rightarrow> u64 \<Rightarrow> nusb_info list option \<Rightarrow> HotplugEvent list
       \<Rightarrow> Event list \<times> id_stream" where
  "nusb_watch hash counter present events =
     (case run_stream (\<lambda>info. announce (opaque_id hash info) info) (list_devices present)
             \<lparr>devices_id_map = Map.empty, id_counter = counter\<rparr> of
        (out, st1) \<Rightarrow>
          (case run_stream (nusb_hotplug hash) events st1 of (out', st') \<Rightarrow> (out @ out', st')))"

datatype UsbEvent = Arrived rusb_device | Left rusb_device

fun rusb_event :: "UsbEvent \<Rightarrow> id_stream \<Rightarrow> Event list \<times> id_stream" where
  "rusb_event (Arrived dev) st = announce (rusb_opaque_id dev) (Rusb dev) st"
| "rusb_event (Left dev) st = retract (rusb_opaque_id dev) st"

definition rusb_watch :: "u64 \<Rightarrow> UsbEvent list \<Rightarrow> Event list \<times> id_stream" where
  "rusb_watch counter events =
     run_stream rusb_event events \<lparr>devices_id_map = Map.empty, id_counter = counter\<rparr>"

section \<open>Polling for devices\<close>

record PollingStream =
  known :: "u64 \<rightharpoonup> rusb_device"
  pending :: "UsbEvent list"

definition polling_new :: PollingStream where
  "polling_new = \<lparr>known = Map.empty, pending = []\<rparr>"

text \<open>The devices seen, by identifier; a later device replaces an earlier one of its identifier.\<close>

fun current_devices :: "rusb_device list \<Rightarrow> (u64 \<rightharpoonup> rusb_device)" where
  "current_devices devs =
     foldl (\<lambda>m dev. if rusb_is_apple dev then m(rusb_opaque_id dev \<mapsto> dev) else m) Map.empty devs"

text \<open>
  The part of \<open>next\<close> between two waits: an event that is due, or the events of a new look at
  the devices (\<open>None\<close>: they cannot be listed). \<open>iter\<close> is the order in which a hash map is
  walked.
\<close>

definition poll_once ::
    "((u64 \<rightharpoonup> rusb_device) \<Rightarrow> (u64 \<times> rusb_device) list) \<Rightarrow> rusb_device list option
       \<Rightarrow> PollingStream \<Rightarrow> UsbEvent option \<times> PollingStream" where
  "poll_once iter answer st =
     (case pending st of
        e # es \<Rightarrow> (Some e, st\<lparr>pending := es\<rparr>)
      | [] \<Rightarrow>
          (case answer of
             None \<Rightarrow> (None, st)
           | Some devs \<Rightarrow>
               let current = current_devices devs;
                   arrivals = map (\<lambda>(i, dev). Arrived dev)
                     (filter (\<lambda>(i, dev). known st i = None) (iter current));
                   removals = map (\<lambda>(i, dev). Left dev)
                     (filter (\<lambda>(i, dev). current i = None) (iter (known st)))
               in (case arrivals @ removals of
                     [] \<Rightarrow> (None, st\<lparr>known := current, pending := []\<rparr>)
                   | e # es \<Rightarrow> (Some e, st\<lparr>known := current, pending := es\<rparr>))))"

section \<open>The stream of devices of libusb\<close>

text \<open>
  The unbounded channel between libusb's callback and the stream. libusb calls back for devices of
  the vendor asked for, and first for those that are already there (\<open>enumerate\<close>); these, or its
  refusal, are \<open>register\<close>.
\<close>

record HotplugStream =
  hs_rx :: "UsbEvent list"

definition device_arrived :: "rusb_device \<Rightarrow> UsbEvent list \<Rightarrow> UsbEvent list" where
  "device_arrived dev tx = tx @ [Arrived dev]"

definition device_left :: "rusb_device \<Rightarrow> UsbEvent list \<Rightarrow> UsbEvent list" where
  "device_left dev tx = tx @ [Left dev]"

definition hotplug_new :: "bool \<Rightarrow> string + rusb_device list \<Rightarrow> string + HotplugStream" where
  "hotplug_new has_hotplug register =
     (if \<not> has_hotplug then Inl ''Operation not supported or unimplemented on this platform''
      else case register of
             Inl e \<Rightarrow> Inl e
           | Inr present \<Rightarrow> Inr \<lparr>hs_rx = foldl (\<lambda>tx dev. device_arrived dev tx) [] present\<rparr>)"

text \<open>\<open>None\<close>: nothing has been sent yet.\<close>

definition hotplug_next :: "HotplugStream \<Rightarrow> UsbEvent option \<times> HotplugStream" where
  "hotplug_next st =
     (case hs_rx st of [] \<Rightarrow> (None, st) | e # es \<Rightarrow> (Some e, st\<lparr>hs_rx := es\<rparr>))"

datatype DeviceStream = Hotplug HotplugStream | Polling PollingStream

fun stream_next ::
    "((u64 \<rightharpoonup> rusb_device) \<Rightarrow> (u64 \<times> rusb_device) list) \<Rightarrow> rusb_device list option
       \<Rightarrow> DeviceStream \<Rightarrow> UsbEvent option \<times> DeviceStream" where
  "stream_next iter answer (Hotplug st) = (case hotplug_next st of (e, st') \<Rightarrow> (e, Hotplug st'))"
| "stream_next iter answer (Polling st) = (case poll_once iter answer st of (e, st') \<Rightarrow> (e, Polling st'))"

text \<open>The choice of the stream; every failure of the registration becomes the same error.\<close>

definition rusb_device_stream :: "bool \<Rightarrow> string + rusb_device list \<Rightarrow> RusbmuxError + DeviceStream" where
  "rusb_device_stream has_hotplug register =
     (if has_hotplug
      then case hotplug_new has_hotplug register of
             Inl e \<Rightarrow> Inl HotPlugNotSupported
           | Inr st \<Rightarrow> Inr (Hotplug st)
      else Inr (Polling polling_new))"

text \<open>What the stream gives while it is asked \<open>length answers\<close> times.\<close>

primrec stream_events ::
    "((u64 \<rightharpoonup> rusb_device) \<Rightarrow> (u64 \<times> rusb_device) list) \<Rightarrow> rusb_device list option list
       \<Rightarrow> DeviceStream \<Rightarrow> UsbEvent list \<times> DeviceStream" where
  "stream_events iter [] st = ([], st)"
| "stream_events iter (answer # answers) st =
     (case stream_next iter answer st of
        (e, st1) \<Rightarrow>
          (case stream_events iter answers st1 of
             (es, st2) \<Rightarrow> ((case e of None \<Rightarrow> es | Some x \<Rightarrow> x # es), st2)))"

section \<open>The backend\<close>

datatype backend = NusbBackend | RusbBackend

text \<open>
  The definitions of \<open>DEFAULT_BACKEND\<close> that are compiled, for the features chosen and the family of
  the target.
\<close>

definition default_backend :: "bool \<Rightarrow> bool \<Rightarrow> bool \<Rightarrow> bool \<Rightarrow> backend list" where
  "default_backend nusb rusb unix windows =
     (if (nusb \<and> rusb \<and> unix) \<or> (nusb \<and> \<not> rusb) then [NusbBackend] else [])
     @ (if (nusb \<and> rusb \<and> windows) \<or> (rusb \<and> \<not> nusb) then [RusbBackend] else [])"

section \<open>Choosing configuration, interface and endpoints\<close>

datatype Direction = In | Out

datatype TransferType = ControlTransfer | Isochronous | Bulk | Interrupt

record endpoint_desc =
  ep_direction :: Direction
  ep_transfer_type :: TransferType
  ep_address :: u8
  ep_max_packet_size :: u16

record alt_setting =
  class_code :: u8
  sub_class_code :: u8
  protocol_code :: u8
  interface_number :: u8
  alternate_setting :: u8
  endpoints :: "endpoint_desc list"

definition is_usbmux :: "alt_setting \<Rightarrow> bool" where
  "is_usbmux a \<longleftrightarrow> class_code a = APPLE_USBMUX_CLASS \<and> sub_class_code a = APPLE_USBMUX_SUBCLASS
     \<and> protocol_code a = APPLE_USBMUX_PROTOCOL"

text \<open>What the program does to a device while it opens it.\<close>

datatype usb_action = DetachKernelDriver u8 | SetConfiguration u8 | ClaimInterface u8

text \<open>
  A \<open>nusb\<close> device: its active configuration, its configurations (value and alternate settings)
  and the errors of the three calls (\<open>None\<close>: success).
\<close>

record nusb_device =
  active_configuration :: "u8 option"
  configurations :: "(u8 \<times> alt_setting list) list"
  set_configuration_error :: "u8 \<Rightarrow> string option"
  claim_interface_error :: "u8 \<Rightarrow> string option"
  endpoint_error :: "u8 \<Rightarrow> string option"

fun find_map :: "('a \<Rightarrow> 'b option) \<Rightarrow> 'a list \<Rightarrow> 'b option" where
  "find_map f [] = None"
| "find_map f (x # xs) = (case f x of None \<Rightarrow> find_map f xs | Some y \<Rightarrow> Some y)"

definition nusb_find_interface :: "nusb_device \<Rightarrow> (alt_setting \<times> u8) option" where
  "nusb_find_interface dev =
     find_map (\<lambda>(cfg_num, intfs). map_option (\<lambda>intf. (intf, cfg_num)) (find is_usbmux intfs))
       (rev (configurations dev))"

text \<open>
  Detaching is attempted for the interfaces of the wanted configuration, first alternate
  settings only; the \<open>unwrap\<close> of the second search cannot fail, as the configuration was found.
\<close>

definition nusb_switch :: "u8 \<Rightarrow> nusb_device \<Rightarrow> (RusbmuxError + unit) \<times> usb_action list" where
  "nusb_switch cfg_num dev =
     (let detach = (case find (\<lambda>(v, _). v = cfg_num) (configurations dev) of
            None \<Rightarrow> []
          | Some (_, intfs) \<Rightarrow>
              map (\<lambda>intf. DetachKernelDriver (interface_number intf))
                (filter (\<lambda>intf. alternate_setting intf = 0) intfs))
      in case set_configuration_error dev cfg_num of
           Some e \<Rightarrow> (Inl (USB e), detach)
         | None \<Rightarrow> (Inr (), detach @ [SetConfiguration cfg_num]))"

definition bulk_endpoint :: "Direction \<Rightarrow> alt_setting \<Rightarrow> u8 option" where
  "bulk_endpoint d a =
     map_option ep_address
       (find (\<lambda>ep. ep_direction ep = d \<and> ep_transfer_type ep = Bulk) (endpoints a))"

definition nusb_device_endpoints ::
    "nusb_device \<Rightarrow> (RusbmuxError + u8 \<times> u8) \<times> usb_action list" where
  "nusb_device_endpoints dev =
     (let current_cfg = (case active_configuration dev of None \<Rightarrow> 0 | Some v \<Rightarrow> v) in
      case nusb_find_interface dev of
        None \<Rightarrow> (Inl UsbmuxInterfaceNotFound, [])
      | Some (intf, cfg_num) \<Rightarrow>
          (case (if cfg_num \<noteq> current_cfg \<or> current_cfg = 0 then nusb_switch cfg_num dev
                 else (Inr (), [])) of
             (Inl e, acts) \<Rightarrow> (Inl e, acts)
           | (Inr _, acts) \<Rightarrow>
               (case claim_interface_error dev (interface_number intf) of
                  Some e \<Rightarrow> (Inl (USB e), acts)
                | None \<Rightarrow>
                    let acts' = acts @ [ClaimInterface (interface_number intf)] in
                    (case bulk_endpoint Out intf of
                       None \<Rightarrow> (Inl BulkOutEndpointNotFound, acts')
                     | Some end_out \<Rightarrow>
                         (case bulk_endpoint In intf of
                            None \<Rightarrow> (Inl BulkInEndpointNotFound, acts')
                          | Some end_in \<Rightarrow>
                              (case endpoint_error dev end_in of
                                 Some e \<Rightarrow> (Inl (USB e), acts')
                               | None \<Rightarrow>
                                   (case endpoint_error dev end_out of
                                      Some e \<Rightarrow> (Inl (USB e), acts')
                                    | None \<Rightarrow> (Inr (end_in, end_out), acts'))))))))"

text \<open>
  The search of the \<open>rusb\<close> backend walks all configurations and interfaces and keeps the last
  match; the endpoints are not cleared between matches. A configuration descriptor that cannot
  be read ends it with an error.
\<close>

record rusb_search =
  found_intf :: "u8 option"
  found_cfg_num :: "u8 option"
  in_addr :: "u8 option"
  out_addr :: "u8 option"
  out_max_packet_size :: "u16 option"

definition search_start :: rusb_search where
  "search_start = \<lparr>found_intf = None, found_cfg_num = None, in_addr = None, out_addr = None,
     out_max_packet_size = None\<rparr>"

definition note_endpoint :: "endpoint_desc \<Rightarrow> rusb_search \<Rightarrow> rusb_search" where
  "note_endpoint ep s =
     (case ep_direction ep of
        In \<Rightarrow> s\<lparr>in_addr := Some (ep_address ep)\<rparr>
      | Out \<Rightarrow> s\<lparr>out_addr := Some (ep_address ep),
                 out_max_packet_size := Some (ep_max_packet_size ep)\<rparr>)"

fun search_alts :: "u8 \<Rightarrow> alt_setting list \<Rightarrow> rusb_search \<Rightarrow> rusb_search" where
  "search_alts cfg_num [] s = s"
| "search_alts cfg_num (a # alts) s =
     (if is_usbmux a
      then fold note_endpoint (endpoints a)
             (s\<lparr>found_intf := Some (interface_number a), found_cfg_num := Some cfg_num\<rparr>)
      else search_alts cfg_num alts s)"

definition search_config :: "u8 \<times> alt_setting list list \<Rightarrow> rusb_search \<Rightarrow> rusb_search" where
  "search_config cfg s = fold (search_alts (fst cfg)) (snd cfg) s"

record rusb_handle =
  config_descriptors :: "(string + u8 \<times> alt_setting list list) list"
  r_active_configuration :: "u8 option"
  set_active_error :: "u8 \<Rightarrow> string option"
  r_claim_error :: "u8 \<Rightarrow> string option"

fun search_configs ::
    "(string + u8 \<times> alt_setting list list) list \<Rightarrow> rusb_search \<Rightarrow> RusbmuxError + rusb_search" where
  "search_configs [] s = Inr s"
| "search_configs (Inl e # cs) s = Inl (RusbError e)"
| "search_configs (Inr cfg # cs) s = search_configs cs (search_config cfg s)"

text \<open>The descriptor of the device is read first; \<open>Inl\<close> is its error.\<close>

definition rusb_device_endpoints ::
    "target_os \<Rightarrow> string + unit \<Rightarrow> rusb_handle
       \<Rightarrow> (RusbmuxError + u8 \<times> u8 \<times> u16) \<times> usb_action list" where
  "rusb_device_endpoints os descriptor h =
     (case descriptor of
        Inl e \<Rightarrow> (Inl (RusbError e), [])
      | Inr _ \<Rightarrow>
     (case search_configs (config_descriptors h) search_start of
        Inl e \<Rightarrow> (Inl e, [])
      | Inr s \<Rightarrow>
          (case found_intf s of
             None \<Rightarrow> (Inl UsbmuxInterfaceNotFound, [])
           | Some intf_num \<Rightarrow>
               let cfg_num = (case found_cfg_num s of None \<Rightarrow> 1 | Some n \<Rightarrow> n) in
               (case in_addr s of
                  None \<Rightarrow> (Inl BulkInEndpointNotFound, [])
                | Some end_in \<Rightarrow>
                    (case out_addr s of
                       None \<Rightarrow> (Inl BulkOutEndpointNotFound, [])
                     | Some end_out \<Rightarrow>
                         let max_packet_size =
                               (case out_max_packet_size s of None \<Rightarrow> 512 | Some m \<Rightarrow> m);
                             active_cfg = (case r_active_configuration h of None \<Rightarrow> 0 | Some v \<Rightarrow> v);
                             switch = (cfg_num \<noteq> active_cfg \<or> active_cfg = 0);
                             detach = (if switch \<and> os = Linux then [DetachKernelDriver intf_num] else [])
                         in (case (if switch then set_active_error h cfg_num else None) of
                               Some e \<Rightarrow> (Inl (RusbError e), detach)
                             | None \<Rightarrow>
                                 let acts = detach @ (if switch then [SetConfiguration cfg_num] else [])
                                 in (case r_claim_error h intf_num of
                                       Some e \<Rightarrow> (Inl (RusbError e), acts)
                                     | None \<Rightarrow> (Inr (end_in, end_out, max_packet_size),
                                                acts @ [ClaimInterface intf_num]))))))))"

section \<open>Identifiers of hotplug streams\<close>

fun connected_ids :: "Event list \<Rightarrow> u64 list" where
  "connected_ids [] = []"
| "connected_ids (Connected d i # es) = i # connected_ids es"
| "connected_ids (Disconnected i # es) = connected_ids es"

text \<open>
  A stream of events is consistent when a device is announced under an identifier that is not
  in use, and only an identifier in use is retracted.
\<close>

fun consistent :: "u64 set \<Rightarrow> Event list \<Rightarrow> bool" where
  "consistent L [] = True"
| "consistent L (Connected d i # es) = (i \<notin> L \<and> consistent (insert i L) es)"
| "consistent L (Disconnected i # es) = (i \<in> L \<and> consistent (L - {i}) es)"

fun live :: "u64 set \<Rightarrow> Event list \<Rightarrow> u64 set" where
  "live L [] = L"
| "live L (Connected d i # es) = live (insert i L) es"
| "live L (Disconnected i # es) = live (L - {i}) es"

lemma connected_ids_append [simp]: "connected_ids (a @ b) = connected_ids a @ connected_ids b"
  by (induction a rule: connected_ids.induct) auto

lemma consistent_append: "consistent L (a @ b) \<longleftrightarrow> consistent L a \<and> consistent (live L a) b"
  by (induction L a rule: consistent.induct) auto

lemma live_append [simp]: "live L (a @ b) = live (live L a) b"
  by (induction L a rule: consistent.induct) auto

definition id_inv :: "u64 set \<Rightarrow> id_stream \<Rightarrow> bool" where
  "id_inv L st \<longleftrightarrow>
     (\<forall>k i. devices_id_map st k = Some i \<longrightarrow> i \<in> L)
     \<and> (\<forall>k k' i. devices_id_map st k = Some i \<longrightarrow> devices_id_map st k' = Some i \<longrightarrow> k = k')
     \<and> (\<forall>i \<in> L. unat i < unat (id_counter st))"

lemma announce_eq:
  "announce k d st = ([Connected d (id_counter st)],
     st\<lparr>devices_id_map := (devices_id_map st)(k \<mapsto> id_counter st), id_counter := id_counter st + 1\<rparr>)"
  by (simp add: announce_def take_new_id_def)

lemma unat_next: "unat (i :: u64) + 1 < 2 ^ 64 \<Longrightarrow> unat (i + 1) = unat i + 1"
  by (simp add: unat_word_ariths)

lemma id_inv_announce:
  assumes "id_inv L st" and "unat (id_counter st) + 1 < 2 ^ 64"
    and "announce k d st = (out, st')"
  shows "consistent L out \<and> id_inv (live L out) st'"
  using assms unat_next [OF assms(2)]
  by (fastforce simp: announce_eq id_inv_def split: if_splits)

lemma id_inv_retract:
  assumes "id_inv L st" and "retract k st = (out, st')"
  shows "consistent L out \<and> id_inv (live L out) st'"
  using assms by (fastforce simp: retract_def id_inv_def split: option.splits if_splits)

text \<open>
  What a backend's event handler does: nothing, announce a device, or retract one. Everything
  about identifiers follows from this.
\<close>

locale hotplug_source =
  fixes handle :: "'e \<Rightarrow> id_stream \<Rightarrow> Event list \<times> id_stream"
  assumes handle_cases:
    "handle e st = ([], st) \<or> (\<exists>k d. handle e st = announce k d st) \<or> (\<exists>k. handle e st = retract k st)"
begin

lemma handle_counter:
  assumes "handle e st = (out, st1)"
  shows "(connected_ids out = [] \<and> id_counter st1 = id_counter st) \<or>
     (connected_ids out = [id_counter st] \<and> id_counter st1 = id_counter st + 1)"
  using handle_cases [of e st] assms
  by (auto simp: announce_eq retract_def split: option.splits)

lemma handle_inv:
  assumes "id_inv L st" and "handle e st = (out, st1)"
    and "unat (id_counter st) + length (connected_ids out) < 2 ^ 64"
  shows "consistent L out \<and> id_inv (live L out) st1"
  using handle_cases [of e st]
proof (elim disjE exE)
  assume "handle e st = ([], st)"
  with assms show ?thesis by simp
next
  fix k d assume h: "handle e st = announce k d st"
  with assms(2,3) have "unat (id_counter st) + 1 < 2 ^ 64" by (auto simp: announce_eq)
  with h assms show ?thesis using id_inv_announce [of L st k d out st1] by simp
next
  fix k assume "handle e st = retract k st"
  with assms show ?thesis using id_inv_retract [of L st k out st1] by simp
qed

lemma run_ids:
  assumes "id_inv L st" and "run_stream handle es st = (out, st')"
    and "unat (id_counter st) + length (connected_ids out) < 2 ^ 64"
  shows "consistent L out \<and> id_inv (live L out) st'
     \<and> connected_ids out = map (\<lambda>k. id_counter st + word_of_nat k) [0..<length (connected_ids out)]
     \<and> unat (id_counter st') = unat (id_counter st) + length (connected_ids out)"
  using assms
proof (induction es arbitrary: L st out)
  case Nil
  then show ?case by simp
next
  case (Cons e es)
  obtain o1 st1 o2 where h: "handle e st = (o1, st1)" and r: "run_stream handle es st1 = (o2, st')"
    and out: "out = o1 @ o2"
    using Cons.prems(2) by (auto split: prod.splits)
  have inv: "consistent L o1 \<and> id_inv (live L o1) st1"
    using handle_inv [OF Cons.prems(1) h] Cons.prems(3) out by simp
  show ?case
    using handle_counter [OF h]
  proof
    assume c: "connected_ids o1 = [] \<and> id_counter st1 = id_counter st"
    show ?thesis
      using Cons.IH [of "live L o1" st1 o2] inv r c Cons.prems(3) out
      by (simp add: consistent_append)
  next
    assume c: "connected_ids o1 = [id_counter st] \<and> id_counter st1 = id_counter st + 1"
    then have u: "unat (id_counter st1) = unat (id_counter st) + 1"
      using unat_next [of "id_counter st"] Cons.prems(3) out by simp
    have IH: "consistent (live L o1) o2 \<and> id_inv (live (live L o1) o2) st'
       \<and> connected_ids o2 = map (\<lambda>k. id_counter st1 + word_of_nat k) [0..<length (connected_ids o2)]
       \<and> unat (id_counter st') = unat (id_counter st1) + length (connected_ids o2)"
      using Cons.IH [of "live L o1" st1 o2] inv r u c Cons.prems(3) out by simp
    let ?n = "length (connected_ids o2)"
    have "map (\<lambda>k. id_counter st + word_of_nat k) [0..<Suc ?n] =
        id_counter st # map (\<lambda>k. id_counter st1 + word_of_nat k) [0..<?n]"
      using c by (simp add: map_upt_Suc algebra_simps del: upt_Suc)
    then show ?thesis
      using IH inv c u out by (simp add: consistent_append del: upt_Suc)
  qed
qed

end

interpretation nusb_source: hotplug_source "nusb_hotplug hash" for hash
proof
  fix e st
  show "nusb_hotplug hash e st = ([], st) \<or> (\<exists>k d. nusb_hotplug hash e st = announce k d st)
      \<or> (\<exists>k. nusb_hotplug hash e st = retract k st)"
    by (cases e) auto
qed

interpretation present_source: hotplug_source "\<lambda>info. announce (opaque_id hash info) info" for hash
  by unfold_locales blast

interpretation rusb_source: hotplug_source rusb_event
proof
  fix e st
  show "rusb_event e st = ([], st) \<or> (\<exists>k d. rusb_event e st = announce k d st)
      \<or> (\<exists>k. rusb_event e st = retract k st)"
    by (cases e) auto
qed

section \<open>The stream of devices\<close>

lemma stream_events_hotplug:
  "stream_events iter answers (Hotplug \<lparr>hs_rx = es\<rparr>) =
     (take (length answers) es, Hotplug \<lparr>hs_rx = drop (length answers) es\<rparr>)"
  by (induction answers arbitrary: es) (auto simp: hotplug_next_def split: list.splits)

lemma callbacks_in_order: "foldl (\<lambda>tx dev. device_arrived dev tx) es devs = es @ map Arrived devs"
  by (induction devs arbitrary: es) (simp_all add: device_arrived_def)

text \<open>The devices already there come first, in the order libusb calls back for them.\<close>

lemma rusb_stream_present:
  assumes "rusb_device_stream True (Inr present) = Inr st" and "length answers = length present"
  shows "fst (stream_events iter answers st) = map Arrived present"
proof -
  have "st = Hotplug \<lparr>hs_rx = map Arrived present\<rparr>"
    using assms(1) by (simp add: rusb_device_stream_def hotplug_new_def callbacks_in_order)
  with assms(2) show ?thesis by (simp add: stream_events_hotplug)
qed

text \<open>A callback later on is behind everything sent before.\<close>

lemma hotplug_callback_last:
  "fst (stream_events iter answers (Hotplug \<lparr>hs_rx = device_left dev es\<rparr>)) =
     take (length answers) (es @ [Left dev])"
  by (simp add: stream_events_hotplug device_left_def)

lemma default_backend_unique:
  assumes "nusb \<or> rusb" and "unix \<noteq> windows"
  shows "\<exists>b. default_backend nusb rusb unix windows = [b]"
  using assms by (auto simp: default_backend_def)

section \<open>Searching the descriptors\<close>

lemma find_map_rev_Some:
  "find_map f (rev xs) = Some y \<Longrightarrow> \<exists>x \<in> set xs. f x = Some y"
proof -
  have "find_map f ys = Some y \<Longrightarrow> \<exists>x \<in> set ys. f x = Some y" for ys
    by (induction ys) (auto split: option.splits)
  then show "find_map f (rev xs) = Some y \<Longrightarrow> \<exists>x \<in> set xs. f x = Some y" by fastforce
qed

lemma find_Some_in: "find P xs = Some x \<Longrightarrow> x \<in> set xs \<and> P x"
  by (auto simp: find_Some_iff)

lemma search_alts_filter:
  "filter is_usbmux alts = [] \<Longrightarrow> search_alts n alts s = s"
  "filter is_usbmux alts = [a] \<Longrightarrow>
     search_alts n alts s = fold note_endpoint (endpoints a)
       (s\<lparr>found_intf := Some (interface_number a), found_cfg_num := Some n\<rparr>)"
  by (induction alts) (auto split: if_splits)

lemma search_config_filter:
  "filter is_usbmux (concat iss) = [] \<Longrightarrow> search_config (n, iss) s = s"
  "filter is_usbmux (concat iss) = [a] \<Longrightarrow>
     search_config (n, iss) s = fold note_endpoint (endpoints a)
       (s\<lparr>found_intf := Some (interface_number a), found_cfg_num := Some n\<rparr>)"
proof -
  show none: "filter is_usbmux (concat iss) = [] \<Longrightarrow> search_config (n, iss) s = s" for iss s
    by (induction iss arbitrary: s) (simp_all add: search_config_def search_alts_filter)
  show "filter is_usbmux (concat iss) = [a] \<Longrightarrow>
     search_config (n, iss) s = fold note_endpoint (endpoints a)
       (s\<lparr>found_intf := Some (interface_number a), found_cfg_num := Some n\<rparr>)"
  proof (induction iss arbitrary: s)
    case Nil
    then show ?case by simp
  next
    case (Cons alts iss)
    from Cons.prems have "(filter is_usbmux alts = [] \<and> filter is_usbmux (concat iss) = [a]) \<or>
        (filter is_usbmux alts = [a] \<and> filter is_usbmux (concat iss) = [])"
      by (auto simp: append_eq_Cons_conv)
    then show ?case
      using Cons.IH none [of iss] by (auto simp: search_config_def search_alts_filter)
  qed
qed

text \<open>All usbmux alternate settings of a device, each with its configuration.\<close>

definition usbmux_alts :: "(u8 \<times> alt_setting list list) list \<Rightarrow> (u8 \<times> alt_setting) list" where
  "usbmux_alts cfgs = concat (map (\<lambda>(n, iss). map (Pair n) (filter is_usbmux (concat iss))) cfgs)"

lemma usbmux_alts_simps [simp]:
  "usbmux_alts [] = []"
  "usbmux_alts ((n, iss) # cfgs) = map (Pair n) (filter is_usbmux (concat iss)) @ usbmux_alts cfgs"
  by (simp_all add: usbmux_alts_def)

lemma search_configs_unique:
  assumes "usbmux_alts cfgs = [(n, a)]"
  shows "search_configs (map Inr cfgs) s = Inr (fold note_endpoint (endpoints a)
     (s\<lparr>found_intf := Some (interface_number a), found_cfg_num := Some n\<rparr>))"
proof -
  have none: "usbmux_alts cs = [] \<Longrightarrow> search_configs (map Inr cs) t = Inr t" for cs t
    by (induction cs) (auto simp: search_config_filter)
  show ?thesis using assms
  proof (induction cfgs)
    case Nil
    then show ?case by simp
  next
    case (Cons c cs)
    obtain m iss where c: "c = (m, iss)" by force
    from Cons.prems c have "(filter is_usbmux (concat iss) = [] \<and> usbmux_alts cs = [(n, a)]) \<or>
        (m = n \<and> filter is_usbmux (concat iss) = [a] \<and> usbmux_alts cs = [])"
      by (auto simp: append_eq_Cons_conv)
    then show ?case using Cons.IH none [of cs] c by (auto simp: search_config_filter)
  qed
qed

lemma find_filter: "find P xs = (case filter P xs of [] \<Rightarrow> None | x # _ \<Rightarrow> Some x)"
  by (induction xs) auto

lemma find_map_append:
  "find_map f (xs @ ys) = (case find_map f xs of None \<Rightarrow> find_map f ys | Some y \<Rightarrow> Some y)"
  by (induction xs) (auto split: option.splits)

lemma nusb_find_interface_unique:
  assumes "configurations dev = map (\<lambda>(n, iss). (n, concat iss)) cfgs"
    and "usbmux_alts cfgs = [(n, a)]"
  shows "nusb_find_interface dev = Some (a, n)"
proof -
  let ?f = "\<lambda>(cfg_num, intfs). map_option (\<lambda>intf. (intf, cfg_num)) (find is_usbmux intfs)"
  have none: "usbmux_alts cs = [] \<Longrightarrow>
      find_map ?f (rev (map (\<lambda>(n, iss). (n, concat iss)) cs)) = None" for cs
    by (induction cs) (auto simp: find_map_append find_filter)
  have "usbmux_alts cs = [(n, a)] \<Longrightarrow>
      find_map ?f (rev (map (\<lambda>(n, iss). (n, concat iss)) cs)) = Some (a, n)" for cs
  proof (induction cs)
    case Nil
    then show ?case by simp
  next
    case (Cons c cs)
    obtain m iss where c: "c = (m, iss)" by force
    from Cons.prems c have "(filter is_usbmux (concat iss) = [] \<and> usbmux_alts cs = [(n, a)]) \<or>
        (m = n \<and> filter is_usbmux (concat iss) = [a] \<and> usbmux_alts cs = [])"
      by (auto simp: append_eq_Cons_conv)
    then show ?case using Cons.IH none [of cs] c by (auto simp: find_map_append find_filter)
  qed
  with assms show ?thesis by (simp add: nusb_find_interface_def)
qed

section \<open>Properties\<close>


definition sample_nusb :: nusb_info where
  "sample_nusb = \<lparr>n_vendor_id = 0x5ac, n_product_id = 0x12a8, n_serial_number = None,
     n_speed = Some High, n_busnum = 1, n_device_address = 4, n_location_id = 0, n_id = 7\<rparr>"


text \<open>
  A look at the devices, when no event is due, makes due exactly the differences: an
  arrival for every Apple device not seen before, a departure for every device that is gone;
  afterwards the devices seen are the ones known.
\<close>
theorem poll_reports_differences:
  assumes "\<forall>m \<in> {known st, current_devices devs}. set (iter m) = {(k, v). m k = Some v}"
    and "pending st = []" and "poll_once iter (Some devs) st = (e, st')"
  shows "known st' = current_devices devs \<and>
     set (case e of None \<Rightarrow> pending st' | Some ev \<Rightarrow> ev # pending st') =
       {Arrived d | d. \<exists>i. current_devices devs i = Some d \<and> known st i = None}
       \<union> {Left d | d. \<exists>i. known st i = Some d \<and> current_devices devs i = None}"
proof -
  let ?cur = "current_devices devs"
  let ?a = "map (\<lambda>(i, dev). Arrived dev) (filter (\<lambda>(i, dev). known st i = None) (iter ?cur))"
  let ?r = "map (\<lambda>(i, dev). Left dev) (filter (\<lambda>(i, dev). ?cur i = None) (iter (known st)))"
  have "known st' = ?cur"
    and "(case e of None \<Rightarrow> pending st' | Some ev \<Rightarrow> ev # pending st') = ?a @ ?r"
    using assms(2,3) unfolding poll_once_def Let_def
    by (auto simp del: current_devices.simps split: list.splits)
  moreover have "set (?a @ ?r) = {Arrived d | d. \<exists>i. ?cur i = Some d \<and> known st i = None}
       \<union> {Left d | d. \<exists>i. known st i = Some d \<and> ?cur i = None}"
    using assms(1) by (force simp del: current_devices.simps)
  ultimately show ?thesis by simp
qed

definition sample_rusb :: rusb_device where
  "sample_rusb = \<lparr>r_descriptor = Some (0x5ac, 0x12a8), r_open = True, r_languages = Some [9],
     r_serial_string = (\<lambda>_. Some [65, 66, 0]), r_speed = High, r_bus_number = 1, r_address = 4\<rparr>"

definition walk_keys :: "u64 list \<Rightarrow> (u64 \<rightharpoonup> rusb_device) \<Rightarrow> (u64 \<times> rusb_device) list" where
  "walk_keys ks m = map (\<lambda>k. (k, the (m k))) (filter (\<lambda>k. m k \<noteq> None) ks)"

lemma sample_current: "current_devices [sample_rusb] = [0x104 \<mapsto> sample_rusb]"
  by (simp add: rusb_is_apple_def sample_rusb_def APPLE_VID_def rusb_opaque_id_def)

theorem poll_reports_differences_witness:
  "\<exists>e st'. poll_once (walk_keys [0x104]) (Some [sample_rusb]) polling_new = (e, st')
     \<and> known st' = current_devices [sample_rusb]
     \<and> set (case e of None \<Rightarrow> pending st' | Some ev \<Rightarrow> ev # pending st') =
       {Arrived d | d. \<exists>i. current_devices [sample_rusb] i = Some d \<and> known polling_new i = None}
       \<union> {Left d | d. \<exists>i. known polling_new i = Some d \<and> current_devices [sample_rusb] i = None}"
proof -
  obtain e st' where p: "poll_once (walk_keys [0x104]) (Some [sample_rusb]) polling_new = (e, st')"
    by (metis prod.exhaust)
  have "\<forall>m \<in> {known polling_new, current_devices [sample_rusb]}.
      set (walk_keys [0x104] m) = {(k, v). m k = Some v}"
    by (auto simp: polling_new_def sample_current walk_keys_def simp del: current_devices.simps
        split: if_splits)
  from poll_reports_differences [OF this _ p] p show ?thesis by (auto simp: polling_new_def)
qed

text \<open>
  C36. When the \<open>nusb\<close> backend opens a device, the endpoints it returns are bulk endpoints, one
  in each direction, of one usbmux interface of one of the device's configurations; that
  interface has been claimed last, and its configuration is the active one: it was already, or
  it was set first.
\<close>
theorem nusb_endpoints_sound:
  assumes "nusb_device_endpoints dev = (Inr (i, out), acts)"
  shows "\<exists>n intfs a. (n, intfs) \<in> set (configurations dev) \<and> a \<in> set intfs \<and> is_usbmux a
     \<and> (\<exists>ep \<in> set (endpoints a). ep_direction ep = In \<and> ep_transfer_type ep = Bulk \<and> ep_address ep = i)
     \<and> (\<exists>ep \<in> set (endpoints a). ep_direction ep = Out \<and> ep_transfer_type ep = Bulk \<and> ep_address ep = out)
     \<and> (\<exists>acts'. acts = acts' @ [ClaimInterface (interface_number a)]
          \<and> (if active_configuration dev = Some n \<and> n \<noteq> 0 then acts' = []
             else \<exists>ds. acts' = ds @ [SetConfiguration n]))"
proof -
  let ?cur = "case active_configuration dev of None \<Rightarrow> 0 | Some v \<Rightarrow> v"
  from assms obtain a n where f: "nusb_find_interface dev = Some (a, n)"
    by (auto simp: nusb_device_endpoints_def Let_def split: option.splits)
  obtain r acts' where sw: "(if n \<noteq> ?cur \<or> ?cur = 0 then nusb_switch n dev else (Inr (), [])) = (r, acts')"
    by (metis prod.exhaust)
  have ep: "bulk_endpoint In a = Some i" "bulk_endpoint Out a = Some out" "r = Inr ()"
    "acts = acts' @ [ClaimInterface (interface_number a)]"
    using assms f sw unfolding nusb_device_endpoints_def Let_def
    by (auto split: sum.splits option.splits)
  obtain intfs where intfs: "(n, intfs) \<in> set (configurations dev)" "find is_usbmux intfs = Some a"
    using find_map_rev_Some [of _ "configurations dev"] f unfolding nusb_find_interface_def by fastforce
  have cfg: "if active_configuration dev = Some n \<and> n \<noteq> 0 then acts' = []
             else \<exists>ds. acts' = ds @ [SetConfiguration n]"
    using sw ep(3) by (auto simp: nusb_switch_def Let_def split: option.splits if_splits)
  have "\<exists>ep \<in> set (endpoints a). ep_direction ep = In \<and> ep_transfer_type ep = Bulk \<and> ep_address ep = i"
    "\<exists>ep \<in> set (endpoints a). ep_direction ep = Out \<and> ep_transfer_type ep = Bulk \<and> ep_address ep = out"
    using ep(1,2) find_Some_in unfolding bulk_endpoint_def by fastforce+
  with intfs find_Some_in [OF intfs(2)] ep(4) cfg show ?thesis by blast
qed

definition sample_alt :: alt_setting where
  "sample_alt = \<lparr>class_code = 255, sub_class_code = 254, protocol_code = 2, interface_number = 1,
     alternate_setting = 0, endpoints =
       [\<lparr>ep_direction = Out, ep_transfer_type = Bulk, ep_address = 4, ep_max_packet_size = 512\<rparr>,
        \<lparr>ep_direction = In, ep_transfer_type = Bulk, ep_address = 0x85, ep_max_packet_size = 512\<rparr>]\<rparr>"

definition sample_nusb_device :: nusb_device where
  "sample_nusb_device = \<lparr>active_configuration = Some 1, configurations = [(1, []), (4, [sample_alt])],
     set_configuration_error = (\<lambda>_. None), claim_interface_error = (\<lambda>_. None),
     endpoint_error = (\<lambda>_. None)\<rparr>"

theorem nusb_endpoints_sound_witness:
  "\<exists>n intfs a. (n, intfs) \<in> set (configurations sample_nusb_device) \<and> a \<in> set intfs \<and> is_usbmux a
     \<and> (\<exists>ep \<in> set (endpoints a). ep_direction ep = In \<and> ep_transfer_type ep = Bulk \<and> ep_address ep = 0x85)
     \<and> (\<exists>ep \<in> set (endpoints a). ep_direction ep = Out \<and> ep_transfer_type ep = Bulk \<and> ep_address ep = 4)
     \<and> (\<exists>acts'. [DetachKernelDriver 1, SetConfiguration 4, ClaimInterface 1] =
          acts' @ [ClaimInterface (interface_number a)]
          \<and> (if active_configuration sample_nusb_device = Some n \<and> n \<noteq> 0 then acts' = []
             else \<exists>ds. acts' = ds @ [SetConfiguration n]))"
  by (rule nusb_endpoints_sound) code_simp

text \<open>
  The two backends agree on every device that has one usbmux alternate setting with one bulk
  endpoint in each direction: when no call on the device fails, both return the addresses of
  these two endpoints.
\<close>
theorem backends_agree:
  assumes "config_descriptors h = map Inr cfgs"
    and "configurations dev = map (\<lambda>(n, iss). (n, concat iss)) cfgs"
    and "usbmux_alts cfgs = [(n, a)]"
    and "endpoints a = [ei, eo] \<or> endpoints a = [eo, ei]"
    and "ep_direction ei = In" "ep_transfer_type ei = Bulk"
    and "ep_direction eo = Out" "ep_transfer_type eo = Bulk"
    and "set_configuration_error dev n = None" "claim_interface_error dev (interface_number a) = None"
    and "endpoint_error dev (ep_address ei) = None" "endpoint_error dev (ep_address eo) = None"
    and "set_active_error h n = None" "r_claim_error h (interface_number a) = None"
  shows "fst (nusb_device_endpoints dev) = Inr (ep_address ei, ep_address eo)
     \<and> fst (rusb_device_endpoints os (Inr ()) h) =
         Inr (ep_address ei, ep_address eo, ep_max_packet_size eo)"
proof
  obtain acts where sw: "nusb_switch n dev = (Inr (), acts)"
    using assms(9) by (simp add: nusb_switch_def Let_def)
  have be: "bulk_endpoint In a = Some (ep_address ei)" "bulk_endpoint Out a = Some (ep_address eo)"
    using assms(4-8) by (auto simp: bulk_endpoint_def)
  show "fst (nusb_device_endpoints dev) = Inr (ep_address ei, ep_address eo)"
    using sw assms(10-12) be nusb_find_interface_unique [OF assms(2,3)]
    by (simp add: nusb_device_endpoints_def Let_def)
  have "search_configs (config_descriptors h) search_start = Inr
      \<lparr>found_intf = Some (interface_number a), found_cfg_num = Some n,
       in_addr = Some (ep_address ei), out_addr = Some (ep_address eo),
       out_max_packet_size = Some (ep_max_packet_size eo)\<rparr>"
    using search_configs_unique [OF assms(3), of search_start] assms(1,4,5,7)
    by (auto simp: search_start_def note_endpoint_def)
  then show "fst (rusb_device_endpoints os (Inr ()) h) =
         Inr (ep_address ei, ep_address eo, ep_max_packet_size eo)"
    using assms(13,14) by (simp add: rusb_device_endpoints_def Let_def)
qed

theorem backends_agree_witness:
  "fst (nusb_device_endpoints sample_nusb_device) = Inr (0x85, 4)
   \<and> fst (rusb_device_endpoints Linux (Inr ())
       \<lparr>config_descriptors = map Inr [(1, []), (4, [[sample_alt]])], r_active_configuration = Some 1,
        set_active_error = (\<lambda>_. None), r_claim_error = (\<lambda>_. None)\<rparr>) = Inr (0x85, 4, 512)"
  using backends_agree [of "\<lparr>config_descriptors = map Inr [(1, []), (4, [[sample_alt]])],
        r_active_configuration = Some 1, set_active_error = (\<lambda>_. None), r_claim_error = (\<lambda>_. None)\<rparr>"
      "[(1, []), (4, [[sample_alt]])]" sample_nusb_device 4 sample_alt
      "endpoints sample_alt ! 1" "endpoints sample_alt ! 0" Linux]
  by (simp add: sample_nusb_device_def sample_alt_def is_usbmux_def APPLE_USBMUX_CLASS_def
      APPLE_USBMUX_SUBCLASS_def APPLE_USBMUX_PROTOCOL_def)

text \<open>
  The \<open>rusb\<close> backend does not look at the transfer type: on an interface that also has an
  interrupt endpoint it returns that one as the bulk input, where \<open>nusb\<close> returns the bulk
  endpoint.
\<close>
theorem rusb_ignores_transfer_type:
  "let a = sample_alt\<lparr>endpoints := endpoints sample_alt @
         [\<lparr>ep_direction = In, ep_transfer_type = Interrupt, ep_address = 0x86,
           ep_max_packet_size = 64\<rparr>]\<rparr>
   in fst (nusb_device_endpoints (sample_nusb_device\<lparr>configurations := [(4, [a])]\<rparr>)) = Inr (0x85, 4)
      \<and> fst (rusb_device_endpoints Linux (Inr ())
          \<lparr>config_descriptors = [Inr (4, [[a]])], r_active_configuration = Some 4,
           set_active_error = (\<lambda>_. None), r_claim_error = (\<lambda>_. None)\<rparr>) = Inr (0x86, 4, 512)"
  by code_simp

end
