(* ===== verification/Network_Device.thy ===== *)
theory Network_Device
  imports Plist Usb_Backend
begin

text \<open>
  Devices reached over the network: \<^verbatim>\<open>src/device/network.rs\<close>, \<^verbatim>\<open>src/device/power_assertion.rs\<close>
  and \<^verbatim>\<open>src/conn/network.rs\<close>. Pairing files, the heartbeat service and the service connections
  belong to the crate \<open>idevice\<close>: their answers are parameters. Address structures follow the
  layout of \<open>sockaddr_in\<close> and \<open>sockaddr_in6\<close> on each target.
\<close>

section \<open>State\<close>

datatype IpAddr = IPv4 u32 | IPv6 bytes

record NetworkDevice =
  nd_id :: u64
  nd_canceled :: bool
  nd_addr :: IpAddr
  nd_scope_id :: "u32 option"
  nd_mac_address :: string
  nd_service_name :: string
  nd_serial_number :: string
  nd_hb_aborted :: bool

definition LOCKDOWN_PATH :: "target_os \<Rightarrow> string" where
  "LOCKDOWN_PATH os =
     (case os of
        MacOS \<Rightarrow> ''/var/db/lockdown''
      | Linux \<Rightarrow> ''/var/lib/lockdown''
      | Windows \<Rightarrow> ''C:'' @ [CHR 0x5C] @ ''ProgramData'' @ [CHR 0x5C] @ ''Apple'' @ [CHR 0x5C]
                   @ ''Lockdown'')"

definition pairing_path :: "target_os \<Rightarrow> string \<Rightarrow> string" where
  "pairing_path os udid = LOCKDOWN_PATH os @ ''/'' @ udid @ ''.plist''"

section \<open>The heartbeat\<close>

text \<open>
  Connecting: the first address, then the second one; when both fail the error of the first is
  returned. \<open>pairing\<close> is the answer of reading the pairing file, \<open>dial\<close> the answer of the
  heartbeat service at an address.
\<close>

definition connect_heartbeat_client ::
    "target_os \<Rightarrow> (string \<Rightarrow> string + 'pf) \<Rightarrow> ('pf \<Rightarrow> IpAddr \<Rightarrow> string + 'client)
       \<Rightarrow> IpAddr \<times> IpAddr option \<Rightarrow> string \<Rightarrow> RusbmuxError + ('client \<times> IpAddr)" where
  "connect_heartbeat_client os pairing dial addr serial =
     (case pairing (pairing_path os serial) of
        Inl e \<Rightarrow> Inl (Idevice e)
      | Inr pf \<Rightarrow>
          (case dial pf (fst addr) of
             Inr client \<Rightarrow> Inr (client, fst addr)
           | Inl first_error \<Rightarrow>
               (case snd addr of
                  Some second_ip \<Rightarrow>
                    (case dial pf second_ip of
                       Inr client \<Rightarrow> Inr (client, second_ip)
                     | Inl _ \<Rightarrow> Inl (Idevice first_error))
                | None \<Rightarrow> Inl (Idevice first_error))))"

text \<open>
  One round of the heartbeat: the answer to \<open>get_marco\<close> (an interval or an error) and whether
  \<open>send_polo\<close> fails. The task keeps the interval it asks for next and whether the last attempt
  failed; it ends when it closes the device.
\<close>

datatype hb_state = HbRunning u64 bool | HbClosed

definition hb_round :: "string + u64 \<Rightarrow> string option \<Rightarrow> u64 \<Rightarrow> bool \<Rightarrow> hb_state" where
  "hb_round marco polo interval failed =
     (case marco of
        Inr i \<Rightarrow>
          (case polo of
             None \<Rightarrow> HbRunning (i + 5) False
           | Some e \<Rightarrow> HbRunning (i + 5) True)
      | Inl e \<Rightarrow>
          (if failed then HbClosed
           else (case polo of
                   None \<Rightarrow> HbRunning interval True
                 | Some e' \<Rightarrow> HbClosed)))"

fun hb_loop :: "((string + u64) \<times> string option) list \<Rightarrow> hb_state \<Rightarrow> hb_state" where
  "hb_loop [] s = s"
| "hb_loop (r # rs) HbClosed = HbClosed"
| "hb_loop ((marco, polo) # rs) (HbRunning interval failed) =
     hb_loop rs (hb_round marco polo interval failed)"

definition hb_start :: hb_state where
  "hb_start = HbRunning 15 False"

section \<open>Power assertions\<close>

text \<open>A request is sent with its length in front, and the reply has its length in front.\<close>

definition assertion_frame :: "bytes \<Rightarrow> bytes" where
  "assertion_frame body = be_bytes 4 (word_of_nat (length body) :: u32) @ body"

definition assertion_recv :: "reader \<Rightarrow> (io_error + bytes) \<times> reader" where
  "assertion_recv r =
     (case read_exact 4 r of
        (Inl e, r1) \<Rightarrow> (Inl e, r1)
      | (Inr b, r1) \<Rightarrow> read_exact (unat (from_be b :: u32)) r1)"

text \<open>
  \<open>to_xml\<close> writes a property list and \<open>from_plist\<close> reads one that has to be a dictionary; \<open>send\<close>
  is the answer of \<open>send_raw\<close>. The result has the bytes sent.
\<close>

definition send_recv ::
    "(Value \<Rightarrow> string + bytes) \<Rightarrow> (bytes \<Rightarrow> string + (string \<times> Value) list) \<Rightarrow> (bytes \<Rightarrow> string option)
       \<Rightarrow> Value \<Rightarrow> reader \<Rightarrow> (RusbmuxError + (string \<times> Value) list) \<times> bytes" where
  "send_recv to_xml from_plist send message r =
     (case to_xml message of
        Inl e \<Rightarrow> (Inl (Plist e), [])
      | Inr body \<Rightarrow>
          (let frame = assertion_frame body in
           case send frame of
             Some e \<Rightarrow> (Inl (Idevice e), [])
           | None \<Rightarrow>
               (case assertion_recv r of
                  (Inl e, _) \<Rightarrow> (Inl (Idevice (io_message e)), frame)
                | (Inr b, _) \<Rightarrow>
                    (case from_plist b of
                       Inl e \<Rightarrow> (Inl (Plist e), frame)
                     | Inr d \<Rightarrow> (Inr d, frame)))))"

definition create_assertion_message :: Value where
  "create_assertion_message = Dictionary
     [(''CommandKey'', String ''CommandCreateAssertion''),
      (''AssertionTypeKey'', String ''AMDPowerAssertionTypeWirelessSync''),
      (''AssertionNameKey'', String ''rusbmux''),
      (''AssertionTimeoutKey'', Real ''1200''),
      (''AssertionDetailKey'', String ''rusbmux'')]"

text \<open>\<open>dial\<close> connects the service and \<open>debug\<close> prints a value.\<close>

definition assertion_new ::
    "target_os \<Rightarrow> (string \<Rightarrow> string + 'pf) \<Rightarrow> ('pf \<Rightarrow> string + reader) \<Rightarrow> (Value \<Rightarrow> string + bytes)
       \<Rightarrow> (bytes \<Rightarrow> string + (string \<times> Value) list) \<Rightarrow> (bytes \<Rightarrow> string option) \<Rightarrow> (Value \<Rightarrow> string)
       \<Rightarrow> string \<Rightarrow> RusbmuxError + unit" where
  "assertion_new os pairing dial to_xml from_plist send debug serial =
     (case pairing (pairing_path os serial) of
        Inl e \<Rightarrow> Inl (Idevice e)
      | Inr pf \<Rightarrow>
          (case dial pf of
             Inl e \<Rightarrow> Inl (Idevice e)
           | Inr r \<Rightarrow>
               (case send_recv to_xml from_plist send create_assertion_message r of
                  (Inl e, _) \<Rightarrow> Inl e
                | (Inr reply, _) \<Rightarrow>
                    (case map_of reply ''ErrorKey'' of
                       Some err \<Rightarrow> Inl (PowerAssertionRejected (debug err))
                     | None \<Rightarrow> Inr ()))))"

text \<open>
  The renewal task: every interval a new assertion is made, then the old one is dropped; at the
  first failure the task ends and drops the assertion it has. Dropping the \<open>PowerAssertion\<close> aborts
  the task. The assertions are numbered in the order they are made; \<open>pa_log\<close> is what has been done.
\<close>

datatype assertion_action = Acquired nat | Released nat

record PowerAssertion =
  pa_current :: "nat option"
  pa_next :: nat
  pa_log :: "assertion_action list"

definition power_assertion_new :: "RusbmuxError + unit \<Rightarrow> RusbmuxError + PowerAssertion" where
  "power_assertion_new assertion =
     (case assertion of
        Inl e \<Rightarrow> Inl e
      | Inr _ \<Rightarrow> Inr \<lparr>pa_current = Some 0, pa_next = 1, pa_log = [Acquired 0]\<rparr>)"

definition renewal_round :: "RusbmuxError + unit \<Rightarrow> PowerAssertion \<Rightarrow> PowerAssertion" where
  "renewal_round new_assertion pa =
     (case pa_current pa of
        None \<Rightarrow> pa
      | Some a \<Rightarrow>
          (case new_assertion of
             Inl e \<Rightarrow> pa\<lparr>pa_current := None, pa_log := pa_log pa @ [Released a]\<rparr>
           | Inr _ \<Rightarrow> pa\<lparr>pa_current := Some (pa_next pa), pa_next := Suc (pa_next pa),
                         pa_log := pa_log pa @ [Acquired (pa_next pa), Released a]\<rparr>))"

definition power_assertion_drop :: "PowerAssertion \<Rightarrow> PowerAssertion" where
  "power_assertion_drop pa =
     (case pa_current pa of
        None \<Rightarrow> pa
      | Some a \<Rightarrow> pa\<lparr>pa_current := None, pa_log := pa_log pa @ [Released a]\<rparr>)"

section \<open>Operations\<close>

definition network_new ::
    "u64 \<Rightarrow> IpAddr \<Rightarrow> u32 option \<Rightarrow> string \<Rightarrow> string \<Rightarrow> string \<Rightarrow> NetworkDevice" where
  "network_new i addr scope mac service serial =
     \<lparr>nd_id = i, nd_canceled = False, nd_addr = addr, nd_scope_id = scope, nd_mac_address = mac,
      nd_service_name = service, nd_serial_number = serial, nd_hb_aborted = False\<rparr>"

text \<open>
  A device is created once the heartbeat is connected and the power assertion is held, both at
  the address the heartbeat was reached at.
\<close>

definition network_device_new ::
    "target_os \<Rightarrow> (string \<Rightarrow> string + 'pf) \<Rightarrow> ('pf \<Rightarrow> IpAddr \<Rightarrow> string + 'client)
       \<Rightarrow> (IpAddr \<Rightarrow> string \<Rightarrow> RusbmuxError + unit) \<Rightarrow> u64 \<Rightarrow> IpAddr \<times> IpAddr option \<Rightarrow> u32 option
       \<Rightarrow> string \<Rightarrow> string \<Rightarrow> string \<Rightarrow> RusbmuxError + NetworkDevice" where
  "network_device_new os pairing dial assertion i addr scope mac service serial =
     (case connect_heartbeat_client os pairing dial addr serial of
        Inl e \<Rightarrow> Inl e
      | Inr (_, ip) \<Rightarrow>
          (case assertion ip serial of
             Inl e \<Rightarrow> Inl e
           | Inr _ \<Rightarrow> Inr (network_new i ip scope mac service serial)))"

definition network_shutdown :: "NetworkDevice \<Rightarrow> NetworkDevice" where
  "network_shutdown d = d\<lparr>nd_canceled := True\<rparr>"

definition network_drop :: "NetworkDevice \<Rightarrow> NetworkDevice" where
  "network_drop d = network_shutdown (d\<lparr>nd_hb_aborted := True\<rparr>)"

datatype SocketAddr = SocketV4 u32 u16 | SocketV6 bytes u16 u32 u32

record NetworkDeviceConn =
  nc_device_id :: u64
  nc_destination_port :: u16

definition unwrap_scope :: "u32 option \<Rightarrow> u32" where
  "unwrap_scope s = (case s of None \<Rightarrow> 0 | Some i \<Rightarrow> i)"

definition network_socket :: "u16 \<Rightarrow> NetworkDevice \<Rightarrow> SocketAddr" where
  "network_socket port d =
     (case nd_addr d of
        IPv4 ip \<Rightarrow> SocketV4 ip port
      | IPv6 ip \<Rightarrow> SocketV6 ip port 0 (unwrap_scope (nd_scope_id d)))"

fun socket_port :: "SocketAddr \<Rightarrow> u16" where
  "socket_port (SocketV4 ip port) = port"
| "socket_port (SocketV6 ip port flow scope) = port"

definition network_conn_wait_shutdown :: "NetworkDevice \<Rightarrow> unit option" where
  "network_conn_wait_shutdown d = (if nd_canceled d then Some () else None)"

text \<open>\<open>tcp_connect\<close> is the answer of opening the socket.\<close>

definition network_conn_new ::
    "(SocketAddr \<Rightarrow> io_error option) \<Rightarrow> SocketAddr \<Rightarrow> u64 \<Rightarrow> RusbmuxError + NetworkDeviceConn" where
  "network_conn_new tcp_connect socket i =
     (case tcp_connect socket of
        Some e \<Rightarrow> Inl (IO e)
      | None \<Rightarrow> Inr \<lparr>nc_device_id = i, nc_destination_port = socket_port socket\<rparr>)"

definition network_connect ::
    "(SocketAddr \<Rightarrow> io_error option) \<Rightarrow> u16 \<Rightarrow> NetworkDevice \<Rightarrow> RusbmuxError + NetworkDeviceConn" where
  "network_connect tcp_connect port d =
     network_conn_new tcp_connect (network_socket port d) (nd_id d)"

text \<open>Reading from the stream: what one read delivers; nothing is an error.\<close>

definition network_read :: "io_error + bytes \<Rightarrow> RusbmuxError + bytes" where
  "network_read answer =
     (case answer of
        Inl e \<Rightarrow> Inl (IO e)
      | Inr b \<Rightarrow> (if b = [] then Inl (IO (IoError NetworkUnreachable ''Stream returned 0'')) else Inr b))"

section \<open>Announcement to clients\<close>

definition AF_INET :: u16 where "AF_INET = 2"

definition AF_INET6 :: "target_os \<Rightarrow> u16" where
  "AF_INET6 os = (case os of Linux \<Rightarrow> 10 | MacOS \<Rightarrow> 30 | Windows \<Rightarrow> 23)"

text \<open>The family field; on macOS it is one byte behind a byte that has the size.\<close>

definition family_bytes :: "target_os \<Rightarrow> endian \<Rightarrow> nat \<Rightarrow> u16 \<Rightarrow> bytes" where
  "family_bytes os en sz family =
     (case os of MacOS \<Rightarrow> [word_of_nat sz, ucast family] | _ \<Rightarrow> ne_bytes en 2 family)"

definition u32_to_be :: "endian \<Rightarrow> u32 \<Rightarrow> u32" where
  "u32_to_be en w = from_ne en (be_bytes 4 w)"

definition sockaddr_in :: "target_os \<Rightarrow> endian \<Rightarrow> u32 \<Rightarrow> bytes" where
  "sockaddr_in os en ip =
     family_bytes os en 16 AF_INET @ ne_bytes en 2 (0 :: u16) @ ne_bytes en 4 (u32_to_be en ip)
     @ replicate 8 0"

definition sockaddr_in6 :: "target_os \<Rightarrow> endian \<Rightarrow> bytes \<Rightarrow> u32 \<Rightarrow> bytes" where
  "sockaddr_in6 os en octets scope =
     family_bytes os en 28 (AF_INET6 os) @ ne_bytes en 2 (0 :: u16) @ ne_bytes en 4 (0 :: u32)
     @ octets @ ne_bytes en 4 scope"

text \<open>The structure is copied to the front of a zeroed buffer of 128 bytes.\<close>

definition network_address :: "target_os \<Rightarrow> endian \<Rightarrow> NetworkDevice \<Rightarrow> bytes" where
  "network_address os en d =
     (let sock = (case nd_addr d of
          IPv4 ip \<Rightarrow> sockaddr_in os en ip
        | IPv6 octets \<Rightarrow> sockaddr_in6 os en octets (unwrap_scope (nd_scope_id d)))
      in sock @ drop (length sock) (replicate 128 0))"

definition network_create_device_attached :: "target_os \<Rightarrow> endian \<Rightarrow> NetworkDevice \<Rightarrow> Value" where
  "network_create_device_attached os en d = Dictionary
     [(''DeviceID'', int_u (nd_id d)),
      (''MessageType'', String ''Attached''),
      (''Properties'', Dictionary
        [(''ConnectionType'', String ''Network''),
         (''DeviceID'', int_u (nd_id d)),
         (''EscapedFullServiceName'', String (nd_service_name d)),
         (''InterfaceIndex'', int_u (unwrap_scope (nd_scope_id d))),
         (''NetworkAddress'', Data (network_address os en d)),
         (''SerialNumber'', String (nd_serial_number d))])]"

section \<open>Lemmas\<close>

lemma ne_bytes_u32_to_be: "ne_bytes en 4 (u32_to_be en w) = be_bytes 4 w"
  unfolding u32_to_be_def by (rule ne_bytes_from_ne) simp_all

lemma length_family_bytes [simp]: "length (family_bytes os en n f) = 2"
  by (cases os) (simp_all add: family_bytes_def)

lemma length_network_address:
  assumes "\<forall>octets. nd_addr d = IPv6 octets \<longrightarrow> length octets = 16"
  shows "length (network_address os en d) = 128"
  using assms
  by (cases "nd_addr d") (simp_all add: network_address_def sockaddr_in_def sockaddr_in6_def Let_def)

interpretation assertion_frames: framed assertion_frame
  "\<lambda>s. case assertion_recv \<lparr>avail = s, at_end = e\<rparr> of (Inl err, r) \<Rightarrow> (Err err, avail r) | (Inr b, r) \<Rightarrow> (Ok b, avail r)"
  "\<lambda>b. length b < 2 ^ 32" for e
proof
  fix b r :: bytes
  assume "length b < 2 ^ 32"
  then have n: "unat (word_of_nat (length b) :: u32) = length b" by (simp add: unat_of_nat)
  have a: "read_exact 4 \<lparr>avail = be_bytes 4 (word_of_nat (length b) :: u32) @ b @ r, at_end = e\<rparr> =
      (Inr (be_bytes 4 (word_of_nat (length b) :: u32)), \<lparr>avail = b @ r, at_end = e\<rparr>)"
    using read_exact_append [where xs = "be_bytes 4 (word_of_nat (length b) :: u32)" and n = 4
        and r = "\<lparr>avail = [], at_end = e\<rparr>" and ys = "b @ r"] by simp
  have "read_exact (length b) \<lparr>avail = b @ r, at_end = e\<rparr> = (Inr b, \<lparr>avail = r, at_end = e\<rparr>)"
    using read_exact_append [where xs = b and n = "length b" and ys = r
        and r = "\<lparr>avail = [], at_end = e\<rparr>"] by simp
  with a n show "(case assertion_recv \<lparr>avail = assertion_frame b @ r, at_end = e\<rparr> of
      (Inl err, r) \<Rightarrow> (Err err, avail r) | (Inr b, r) \<Rightarrow> (Ok b, avail r)) = (Ok b, r)"
    by (simp add: assertion_recv_def assertion_frame_def wire_simps)
qed

lemma hb_loop_snoc:
  "hb_loop (rs @ [(marco, polo)]) s =
     (case hb_loop rs s of HbClosed \<Rightarrow> HbClosed | HbRunning i f \<Rightarrow> hb_round marco polo i f)"
  by (induction rs s rule: hb_loop.induct) (auto split: hb_state.splits)

text \<open>The assertions held after some actions, and the state of the renewal that fits them.\<close>

fun held_after :: "assertion_action list \<Rightarrow> nat set \<Rightarrow> nat set" where
  "held_after [] A = A"
| "held_after (Acquired a # as) A = held_after as (insert a A)"
| "held_after (Released a # as) A = held_after as (A - {a})"

lemma held_after_append [simp]: "held_after (xs @ ys) A = held_after ys (held_after xs A)"
  by (induction xs A rule: held_after.induct) simp_all

definition gapless :: "assertion_action list \<Rightarrow> bool" where
  "gapless as \<longleftrightarrow> (\<forall>n. 0 < n \<longrightarrow> n < length as \<longrightarrow>
     held_after (take n as) {} \<noteq> {} \<and> card (held_after (take n as) {}) \<le> 2)"

definition renewal_inv :: "PowerAssertion \<Rightarrow> bool" where
  "renewal_inv pa \<longleftrightarrow> gapless (pa_log pa) \<and> held_after (pa_log pa) {} = set_option (pa_current pa)
     \<and> (\<forall>a. pa_current pa = Some a \<longrightarrow> a < pa_next pa)"

text \<open>An action may follow when an assertion is held and not more than two.\<close>

lemma gapless_snoc:
  assumes "gapless as" and "held_after as {} \<noteq> {}" and "card (held_after as {}) \<le> 2"
  shows "gapless (as @ [x])"
  using assms by (auto simp: gapless_def less_Suc_eq)

lemma renewal_inv_round:
  assumes "renewal_inv pa"
  shows "renewal_inv (renewal_round new_assertion pa)"
proof (cases "pa_current pa")
  case None
  with assms show ?thesis by (simp add: renewal_round_def)
next
  case (Some a)
  with assms have g: "gapless (pa_log pa)" "held_after (pa_log pa) {} = {a}" "a < pa_next pa"
    by (simp_all add: renewal_inv_def)
  have one: "gapless (pa_log pa @ [x])" for x
    using gapless_snoc [OF g(1)] g(2) by simp
  have "gapless ((pa_log pa @ [Acquired (pa_next pa)]) @ [Released a])"
    using gapless_snoc [OF one [of "Acquired (pa_next pa)"], of "Released a"] g(2,3) by (simp add: card_insert_if)
  with Some g one [of "Released a"] show ?thesis
    by (auto simp: renewal_round_def renewal_inv_def split: sum.splits)
qed

lemma renewal_inv_new: "power_assertion_new first = Inr pa \<Longrightarrow> renewal_inv pa"
  by (auto simp: power_assertion_new_def renewal_inv_def gapless_def split: sum.splits)

interpretation renewals: machine "\<lambda>pa. \<exists>first. power_assertion_new first = Inr pa"
  "\<lambda>pa pa'. \<exists>answer. pa' = renewal_round answer pa" renewal_inv
  by unfold_locales (auto simp: renewal_inv_new renewal_inv_round)

lemma renewal_inv_rounds: "renewal_inv pa \<Longrightarrow> renewal_inv (fold renewal_round answers pa)"
  by (induction answers arbitrary: pa) (simp_all add: renewal_inv_round)

lemma renewals_end: "pa_current pa = None \<Longrightarrow> fold renewal_round answers pa = pa"
  by (induction answers) (simp_all add: renewal_round_def)

lemma renewals_running:
  "pa_current pa \<noteq> None \<Longrightarrow>
     pa_current (fold renewal_round answers pa) = None \<longleftrightarrow> (\<exists>e. Inl e \<in> set answers)"
proof (induction answers arbitrary: pa)
  case (Cons answer answers)
  then obtain a where a: "pa_current pa = Some a" by blast
  show ?case
  proof (cases answer)
    case (Inl e)
    with a have over: "pa_current (renewal_round answer pa) = None" by (simp add: renewal_round_def)
    with renewals_end [OF over, of answers] Inl show ?thesis by auto
  next
    case (Inr u)
    with a have "pa_current (renewal_round answer pa) \<noteq> None" by (simp add: renewal_round_def)
    from Cons.IH [OF this] Inr show ?thesis by auto
  qed
qed simp

section \<open>Properties\<close>

text \<open>
  C38. The power assertion is held without a gap: from its creation on, whatever the renewals answer,
  between any two actions of the renewal task one or two assertions are held; afterwards the task
  holds one as long as no renewal has failed, and none from the first failure on.
\<close>
theorem assertion_held_throughout:
  assumes "power_assertion_new first = Inr pa" and "pa' = fold renewal_round answers pa"
  shows "gapless (pa_log pa') \<and> held_after (pa_log pa') {} = set_option (pa_current pa')
     \<and> (pa_current pa' = None \<longleftrightarrow> (\<exists>e. Inl e \<in> set answers))
     \<and> held_after (pa_log (power_assertion_drop pa')) {} = {}"
proof -
  have inv: "renewal_inv pa'" using renewal_inv_rounds [OF renewal_inv_new [OF assms(1)]] assms(2) by simp
  have "pa_current pa \<noteq> None" using assms(1) by (auto simp: power_assertion_new_def split: sum.splits)
  from renewals_running [OF this, of answers] inv assms(2) show ?thesis
    by (auto simp: renewal_inv_def power_assertion_drop_def split: option.splits)
qed

theorem assertion_held_throughout_witness:
  "let pa' = fold renewal_round [Inr (), Inl RanOutofSourcePort, Inr ()]
       \<lparr>pa_current = Some 0, pa_next = 1, pa_log = [Acquired 0]\<rparr>
   in gapless (pa_log pa') \<and> pa_log pa' = [Acquired 0, Acquired 1, Released 0, Released 1]
      \<and> pa_current pa' = None"
proof -
  have "power_assertion_new (Inr ()) = Inr \<lparr>pa_current = Some 0, pa_next = 1, pa_log = [Acquired 0]\<rparr>"
    by (simp add: power_assertion_new_def)
  from assertion_held_throughout [OF this refl, of "[Inr (), Inl RanOutofSourcePort, Inr ()]"]
  show ?thesis by (simp add: renewal_round_def)
qed

text \<open>
  The address announced for a network device has 128 bytes, and a client that reads them as
  the platform's socket address finds the device's address in them, in network byte order, at
  offset 4 (version 4) or 8 (version 6) on every target and byte order; the interface index of a
  version 6 address follows it in the host's byte order.
\<close>
theorem network_address_layout:
  assumes "\<forall>octets. nd_addr d = IPv6 octets \<longrightarrow> length octets = 16"
  shows "length (network_address os en d) = 128
     \<and> (case nd_addr d of
          IPv4 ip \<Rightarrow> from_be (take 4 (drop 4 (network_address os en d))) = ip
        | IPv6 octets \<Rightarrow> take 16 (drop 8 (network_address os en d)) = octets
            \<and> from_ne en (take 4 (drop 24 (network_address os en d))) = unwrap_scope (nd_scope_id d))"
  using length_network_address [OF assms] assms
  by (cases "nd_addr d")
    (simp_all add: network_address_def sockaddr_in_def sockaddr_in6_def Let_def
      ne_bytes_u32_to_be wire_simps)

theorem network_address_layout_witness:
  "length (network_address MacOS Little
      (network_new 1 (IPv4 0x7F000001) None ''a'' ''b'' ''c'')) = 128
   \<and> from_be (take 4 (drop 4 (network_address MacOS Little
      (network_new 1 (IPv4 0x7F000001) None ''a'' ''b'' ''c'')))) = (0x7F000001 :: u32)"
  using network_address_layout [of "network_new 1 (IPv4 0x7F000001) None ''a'' ''b'' ''c''" MacOS Little]
  by (simp add: network_new_def)

text \<open>A round in which one of the two messages failed.\<close>

definition hb_failed :: "(string + u64) \<times> string option \<Rightarrow> bool" where
  "hb_failed r \<longleftrightarrow> (\<exists>e. fst r = Inl e) \<or> (\<exists>e. snd r = Some e)"

lemma hb_round_running:
  "hb_round marco polo interval failed = HbRunning interval' failed' \<Longrightarrow> failed' = hb_failed (marco, polo)"
  by (auto simp: hb_round_def hb_failed_def split: sum.splits option.splits if_splits)

lemma hb_loop_failed:
  "hb_loop rs hb_start = HbRunning interval failed \<Longrightarrow> failed \<longleftrightarrow> rs \<noteq> [] \<and> hb_failed (last rs)"
proof (induction rs rule: rev_induct)
  case Nil
  then show ?case by (simp add: hb_start_def)
next
  case (snoc r rs)
  then show ?case
    by (cases "hb_loop rs hb_start"; cases r) (auto simp: hb_loop_snoc dest: hb_round_running)
qed

definition hb_fatal :: "((string + u64) \<times> string option) list \<Rightarrow> nat \<Rightarrow> bool" where
  "hb_fatal rs i \<longleftrightarrow> (\<exists>e. fst (rs ! i) = Inl e)
     \<and> ((\<exists>e. snd (rs ! i) = Some e) \<or> (0 < i \<and> hb_failed (rs ! (i - 1))))"

lemma hb_fatal_snoc:
  "(\<exists>i < length (rs @ [r]). hb_fatal (rs @ [r]) i) \<longleftrightarrow>
     (\<exists>i < length rs. hb_fatal rs i)
     \<or> ((\<exists>e. fst r = Inl e) \<and> ((\<exists>e. snd r = Some e) \<or> (rs \<noteq> [] \<and> hb_failed (last rs))))"
proof -
  have "hb_fatal (rs @ [r]) i = hb_fatal rs i" if "i < length rs" for i
    using that less_imp_diff_less [OF that, of 1] by (simp add: hb_fatal_def nth_append)
  moreover have "hb_fatal (rs @ [r]) (length rs) \<longleftrightarrow>
      (\<exists>e. fst r = Inl e) \<and> ((\<exists>e. snd r = Some e) \<or> (rs \<noteq> [] \<and> hb_failed (last rs)))"
    by (cases "rs = []") (simp_all add: hb_fatal_def nth_append last_conv_nth)
  ultimately show ?thesis by (simp add: less_Suc_eq) blast
qed

text \<open>
  C37. The heartbeat gives a device one chance: it closes the device exactly when in some round
  \<open>marco\<close> fails and either the answering \<open>polo\<close> fails too or one of the two messages of the
  round just before had failed; failures with a good round between them never close it.
\<close>
theorem heartbeat_closes:
  "hb_loop rs hb_start = HbClosed \<longleftrightarrow>
     (\<exists>i < length rs. (\<exists>e. fst (rs ! i) = Inl e)
        \<and> ((\<exists>e. snd (rs ! i) = Some e) \<or> (0 < i \<and> hb_failed (rs ! (i - 1)))))"
  unfolding hb_fatal_def [symmetric]
proof (induction rs rule: rev_induct)
  case Nil
  show ?case by (simp add: hb_start_def)
next
  case (snoc r rs)
  obtain marco polo where r: "r = (marco, polo)" by fastforce
  show ?case
  proof (cases "hb_loop rs hb_start")
    case HbClosed
    with snoc show ?thesis unfolding hb_fatal_snoc by (simp add: hb_loop_snoc r)
  next
    case (HbRunning interval failed)
    with snoc hb_loop_failed [OF HbRunning] show ?thesis unfolding hb_fatal_snoc
      by (auto simp: hb_loop_snoc r hb_round_def split: sum.splits option.splits if_splits)
  qed
qed

end
