(* ===== verification/Pair_Records.thy ===== *)
theory Pair_Records
  imports Usbmux Network_Device
begin

text \<open>
  Answers to clients and the files of the lockdown directory: \<open>send_result\<close> and
  \<open>create_lockdown_dir\<close> of \<^verbatim>\<open>src/handler/mod.rs\<close>, and the handlers
  \<^verbatim>\<open>src/handler/read_pair_record.rs\<close>, \<^verbatim>\<open>src/handler/save_pair_record.rs\<close>,
  \<^verbatim>\<open>src/handler/delete_pair_record.rs\<close> and \<^verbatim>\<open>src/handler/read_buid.rs\<close>. A session is
  the files and the writes a client has been sent; which file operations and which writes fail,
  the property list codec and the fresh identifier are parameters.
\<close>

section \<open>Sessions\<close>

datatype fs_op = FsRead | FsWrite | FsRemove | FsCreateDir

record service =
  svc_os :: target_os
  svc_endian :: endian
  svc_xml :: "Value \<Rightarrow> bytes"
  svc_plist :: "bytes \<Rightarrow> string + Value"
  svc_plist_io :: "io_error \<Rightarrow> string"
  svc_uuid :: string
  svc_write :: "bytes list \<Rightarrow> bytes \<Rightarrow> io_error option"
  svc_fault :: "fs_op \<Rightarrow> string \<Rightarrow> io_error option"
  svc_not_found :: string

record session =
  files :: "string \<rightharpoonup> bytes"
  sent :: "bytes list"

text \<open>\<open>write_all\<close>: the whole buffer is written, or an error is reported.\<close>

definition client_write :: "service \<Rightarrow> bytes \<Rightarrow> 'a session_scheme \<Rightarrow> (RusbmuxError + unit) \<times> 'a session_scheme" where
  "client_write svc b s =
     (case svc_write svc (sent s) b of
        Some e \<Rightarrow> (Inl (IO e), s)
      | None \<Rightarrow> (Inr (), s\<lparr>sent := sent s @ [b]\<rparr>))"

text \<open>
  The calls of \<open>tokio::fs\<close>: \<open>svc_fault\<close> tells which of them the system refuses; otherwise reading
  or removing a file that is not there is \<open>NotFound\<close>.
\<close>

definition fs_read :: "service \<Rightarrow> string \<Rightarrow> 'a session_scheme \<Rightarrow> io_error + bytes" where
  "fs_read svc path s =
     (case svc_fault svc FsRead path of
        Some e \<Rightarrow> Inl e
      | None \<Rightarrow> (case files s path of
                   None \<Rightarrow> Inl (IoError NotFound (svc_not_found svc))
                 | Some b \<Rightarrow> Inr b))"

definition fs_write ::
    "service \<Rightarrow> string \<Rightarrow> bytes \<Rightarrow> 'a session_scheme \<Rightarrow> (io_error + unit) \<times> 'a session_scheme" where
  "fs_write svc path b s =
     (case svc_fault svc FsWrite path of
        Some e \<Rightarrow> (Inl e, s)
      | None \<Rightarrow> (Inr (), s\<lparr>files := (files s)(path \<mapsto> b)\<rparr>))"

definition fs_remove ::
    "service \<Rightarrow> string \<Rightarrow> 'a session_scheme \<Rightarrow> (io_error + unit) \<times> 'a session_scheme" where
  "fs_remove svc path s =
     (case svc_fault svc FsRemove path of
        Some e \<Rightarrow> (Inl e, s)
      | None \<Rightarrow> (case files s path of
                   None \<Rightarrow> (Inl (IoError NotFound (svc_not_found svc)), s)
                 | Some b \<Rightarrow> (Inr (), s\<lparr>files := (files s)(path := None)\<rparr>)))"

section \<open>Responses\<close>

definition response :: "service \<Rightarrow> Value \<Rightarrow> u32 \<Rightarrow> bytes" where
  "response svc v tag =
     usbmux_encode_from (svc_endian svc) (svc_xml svc) (svc_xml svc v) PlistVersion MessagePlist tag"

definition result_value :: "ResultCode \<Rightarrow> Value" where
  "result_value code = Dictionary
     [(''MessageType'', String ''Result''), (''Number'', int_u (result_number code))]"

definition send_result ::
    "service \<Rightarrow> ResultCode \<Rightarrow> u32 \<Rightarrow> 'a session_scheme \<Rightarrow> (RusbmuxError + unit) \<times> 'a session_scheme" where
  "send_result svc code tag s = client_write svc (response svc (result_value code) tag) s"

definition create_lockdown_dir :: "service \<Rightarrow> RusbmuxError + unit" where
  "create_lockdown_dir svc =
     (case svc_fault svc FsCreateDir (LOCKDOWN_PATH (svc_os svc)) of
        Some e \<Rightarrow> Inl (IO e)
      | None \<Rightarrow> Inr ())"

section \<open>Pair records\<close>

text \<open>The test the three handlers share.\<close>

definition malformed_id :: "string \<Rightarrow> bool" where
  "malformed_id i \<longleftrightarrow>
     CHR ''/'' \<in> set i \<or> CHR 0x5C \<in> set i \<or> str_contains i ''..''"

abbreviation malformed_error :: RusbmuxError where
  "malformed_error \<equiv> UnexpectedPacket ''Given pair record id is malformed''"

definition record_path :: "service \<Rightarrow> string \<Rightarrow> string" where
  "record_path svc i = LOCKDOWN_PATH (svc_os svc) @ ''/'' @ i @ ''.plist''"

definition read_pair_record ::
    "service \<Rightarrow> string \<Rightarrow> u32 \<Rightarrow> 'a session_scheme \<Rightarrow> (RusbmuxError + unit) \<times> 'a session_scheme" where
  "read_pair_record svc i tag s =
     (if malformed_id i then (Inl malformed_error, s)
      else case fs_read svc (record_path svc i) s of
             Inl e \<Rightarrow> (Inl (IO e), s)
           | Inr pairing_file \<Rightarrow>
               client_write svc (response svc (Dictionary [(''PairRecordData'', Data pairing_file)]) tag) s)"

text \<open>The answer a failed request gets, if any, before the error is passed on.\<close>

definition answer_failure ::
    "service \<Rightarrow> (RusbmuxError \<Rightarrow> ResultCode option) \<Rightarrow> RusbmuxError \<Rightarrow> u32 \<Rightarrow> 'a session_scheme
       \<Rightarrow> (RusbmuxError + unit) \<times> 'a session_scheme" where
  "answer_failure svc code e tag s =
     (case code e of
        None \<Rightarrow> (Inl e, s)
      | Some c \<Rightarrow> try_then (send_result svc c tag s) (\<lambda>_ s1. (Inl e, s1)))"

fun read_failure_code :: "RusbmuxError \<Rightarrow> ResultCode option" where
  "read_failure_code (UnexpectedPacket m) = Some BadCommand"
| "read_failure_code (IO e) =
     (if kind e = PermissionDenied \<or> kind e = NotFound then Some BadDeviceOrNoSuchFile else None)"
| "read_failure_code e = None"

definition handle_read_pair_record ::
    "service \<Rightarrow> string \<Rightarrow> u32 \<Rightarrow> 'a session_scheme \<Rightarrow> (RusbmuxError + unit) \<times> 'a session_scheme" where
  "handle_read_pair_record svc i tag s =
     (case read_pair_record svc i tag s of
        (Inl e, s1) \<Rightarrow> answer_failure svc read_failure_code e tag s1
      | (Inr _, s1) \<Rightarrow> (Inr (), s1))"

text \<open>The record is stored as the XML form of a data value.\<close>

definition save_pair_record ::
    "service \<Rightarrow> string \<Rightarrow> bytes \<Rightarrow> u64 option \<Rightarrow> u32 \<Rightarrow> 'a session_scheme
       \<Rightarrow> (RusbmuxError + unit) \<times> 'a session_scheme" where
  "save_pair_record svc i pair_record_data device_id tag s =
     (if malformed_id i then (Inl malformed_error, s)
      else case fs_write svc (record_path svc i) (svc_xml svc (Data pair_record_data)) s of
             (Inl e, s1) \<Rightarrow> (Inl (IO e), s1)
           | (Inr _, s1) \<Rightarrow>
               (case device_id of
                  None \<Rightarrow> (Inr (), s1)
                | Some d \<Rightarrow>
                    client_write svc (response svc
                      (Dictionary [(''MessageType'', String ''Paired''), (''DeviceID'', int_u d)]) tag) s1))"

definition handle_save_pair_record ::
    "service \<Rightarrow> string \<Rightarrow> bytes \<Rightarrow> u64 option \<Rightarrow> u32 \<Rightarrow> 'a session_scheme
       \<Rightarrow> (RusbmuxError + unit) \<times> 'a session_scheme" where
  "handle_save_pair_record svc i pair_record_data device_id tag s =
     (case save_pair_record svc i pair_record_data device_id tag s of
        (Inr _, s1) \<Rightarrow> send_result svc OK tag s1
      | (Inl e, s1) \<Rightarrow> answer_failure svc read_failure_code e tag s1)"

definition delete_pair_record ::
    "service \<Rightarrow> string \<Rightarrow> 'a session_scheme \<Rightarrow> (RusbmuxError + unit) \<times> 'a session_scheme" where
  "delete_pair_record svc i s =
     (if malformed_id i then (Inl malformed_error, s)
      else case fs_remove svc (record_path svc i) s of
             (Inl e, s1) \<Rightarrow> (Inl (IO e), s1)
           | (Inr _, s1) \<Rightarrow> (Inr (), s1))"

fun delete_failure_code :: "RusbmuxError \<Rightarrow> ResultCode option" where
  "delete_failure_code (UnexpectedPacket m) = Some BadCommand"
| "delete_failure_code (IO e) = (if kind e = NotFound then Some BadDeviceOrNoSuchFile else None)"
| "delete_failure_code e = None"

definition handle_delete_pair_record ::
    "service \<Rightarrow> string \<Rightarrow> u32 \<Rightarrow> 'a session_scheme \<Rightarrow> (RusbmuxError + unit) \<times> 'a session_scheme" where
  "handle_delete_pair_record svc i tag s =
     (case delete_pair_record svc i s of
        (Inr _, s1) \<Rightarrow> send_result svc OK tag s1
      | (Inl e, s1) \<Rightarrow> answer_failure svc delete_failure_code e tag s1)"

section \<open>The system identifier\<close>

definition to_upper :: "char \<Rightarrow> char" where
  "to_upper c = (let n = (of_char c :: nat) in if 97 \<le> n \<and> n \<le> 122 then char_of (n - 32) else c)"

definition config_path :: "service \<Rightarrow> string" where
  "config_path svc = LOCKDOWN_PATH (svc_os svc) @ ''/SystemConfiguration.plist''"

text \<open>\<open>plist::from_file\<close>: errors of the file system come as property list errors.\<close>

definition read_config :: "service \<Rightarrow> 'a session_scheme \<Rightarrow> RusbmuxError + Value" where
  "read_config svc s =
     (case fs_read svc (config_path svc) s of
        Inl e \<Rightarrow> Inl (Plist (svc_plist_io svc e))
      | Inr b \<Rightarrow> (case svc_plist svc b of Inl e \<Rightarrow> Inl (Plist e) | Inr v \<Rightarrow> Inr v))"

definition extract_buid :: "Value \<Rightarrow> RusbmuxError + string" where
  "extract_buid system_config =
     (case as_dictionary system_config of
        None \<Rightarrow> Inl (UnexpectedPacket ''Expected a packet with a dictionary plist payload'')
      | Some d \<Rightarrow>
          (case map_of d ''SystemBUID'' of
             None \<Rightarrow> Inl (ValueNotFound SystemBUID)
           | Some v \<Rightarrow>
               (case as_string v of
                  None \<Rightarrow> Inl (InvalidData ''SystemBUID is not a string'')
                | Some buid \<Rightarrow> Inr buid)))"

definition answer_buid ::
    "service \<Rightarrow> u32 \<Rightarrow> 'a session_scheme \<Rightarrow> (RusbmuxError + unit) \<times> 'a session_scheme" where
  "answer_buid svc tag s =
     (case read_config svc s of
        Inl e \<Rightarrow> (Inl e, s)
      | Inr system_config \<Rightarrow>
          (case extract_buid system_config of
             Inl e \<Rightarrow> (Inl e, s)
           | Inr buid \<Rightarrow> client_write svc (response svc (Dictionary [(''BUID'', String buid)]) tag) s))"

definition handle_read_buid ::
    "service \<Rightarrow> u32 \<Rightarrow> 'a session_scheme \<Rightarrow> (RusbmuxError + unit) \<times> 'a session_scheme" where
  "handle_read_buid svc tag s =
     (if files s (config_path svc) = None
      then case fs_write svc (config_path svc)
              (svc_xml svc (Dictionary [(''SystemBUID'', String (map to_upper (svc_uuid svc)))])) s of
             (Inl e, s1) \<Rightarrow> (Inr (), snd (send_result svc BadDeviceOrNoSuchFile tag s1))
           | (Inr _, s1) \<Rightarrow> answer_buid svc tag s1
      else answer_buid svc tag s)"

section \<open>Lemmas\<close>

text \<open>A service whose file operations and writes all succeed.\<close>

definition healthy :: "service \<Rightarrow> bool" where
  "healthy svc \<longleftrightarrow> (\<forall>h b. svc_write svc h b = None) \<and> (\<forall>op p. svc_fault svc op p = None)"

lemma healthy_calls [simp, state_simps]:
  assumes "healthy svc"
  shows "client_write svc b s = (Inr (), s\<lparr>sent := sent s @ [b]\<rparr>)"
    and "send_result svc code tag s = (Inr (), s\<lparr>sent := sent s @ [response svc (result_value code) tag]\<rparr>)"
    and "fs_write svc path b s = (Inr (), s\<lparr>files := (files s)(path \<mapsto> b)\<rparr>)"
    and "fs_read svc path s =
       (case files s path of None \<Rightarrow> Inl (IoError NotFound (svc_not_found svc)) | Some b \<Rightarrow> Inr b)"
    and "fs_remove svc path s =
       (case files s path of
          None \<Rightarrow> (Inl (IoError NotFound (svc_not_found svc)), s)
        | Some b \<Rightarrow> (Inr (), s\<lparr>files := (files s)(path := None)\<rparr>))"
  using assms
  by (simp_all add: healthy_def client_write_def send_result_def fs_write_def fs_read_def fs_remove_def)

lemma sending_keeps_files [simp]:
  "files (snd (client_write svc b s)) = files s"
  "files (snd (send_result svc code tag s)) = files s"
  "files (snd (answer_failure svc codes e tag s)) = files s"
  by (auto simp: client_write_def send_result_def answer_failure_def try_then_split
      split: option.splits)

lemma read_pair_record_files: "files (snd (read_pair_record svc i tag s)) = files s"
  by (simp add: read_pair_record_def split: sum.splits)

lemma handle_read_files: "files (snd (handle_read_pair_record svc i tag s)) = files s"
proof -
  obtain r s1 where r: "read_pair_record svc i tag s = (r, s1)" by fastforce
  with read_pair_record_files [of svc i tag s] show ?thesis
    by (cases r) (simp_all add: handle_read_pair_record_def)
qed

lemma save_pair_record_files:
  "p \<noteq> record_path svc i \<or> malformed_id i \<Longrightarrow> files (snd (save_pair_record svc i d dev tag s)) p = files s p"
  by (auto simp: save_pair_record_def fs_write_def client_write_def split: option.splits)

lemma delete_pair_record_files:
  "p \<noteq> record_path svc i \<or> malformed_id i \<Longrightarrow> files (snd (delete_pair_record svc i s)) p = files s p"
  by (auto simp: delete_pair_record_def fs_remove_def split: option.splits)

lemma handle_save_files:
  "p \<noteq> record_path svc i \<or> malformed_id i \<Longrightarrow>
     files (snd (handle_save_pair_record svc i d dev tag s)) p = files s p"
  using save_pair_record_files [of p svc i d dev tag s]
  by (cases "save_pair_record svc i d dev tag s"; cases "fst (save_pair_record svc i d dev tag s)")
    (simp_all add: handle_save_pair_record_def)

lemma handle_delete_files:
  "p \<noteq> record_path svc i \<or> malformed_id i \<Longrightarrow>
     files (snd (handle_delete_pair_record svc i tag s)) p = files s p"
  using delete_pair_record_files [of p svc i s]
  by (cases "delete_pair_record svc i s"; cases "fst (delete_pair_record svc i s)")
    (simp_all add: handle_delete_pair_record_def)

lemma malformed_answer:
  assumes "malformed_id i"
  shows "handle_read_pair_record svc i tag s = answer_failure svc read_failure_code malformed_error tag s"
    and "handle_save_pair_record svc i d dev tag s = answer_failure svc read_failure_code malformed_error tag s"
    and "handle_delete_pair_record svc i tag s = answer_failure svc delete_failure_code malformed_error tag s"
  using assms
  by (simp_all add: handle_read_pair_record_def read_pair_record_def handle_save_pair_record_def
      save_pair_record_def handle_delete_pair_record_def delete_pair_record_def)

text \<open>The pair record requests of a client.\<close>

datatype record_request = ReadRecord | SaveRecord bytes "u64 option" | DeleteRecord

fun handle_record ::
    "service \<Rightarrow> record_request \<Rightarrow> string \<Rightarrow> u32 \<Rightarrow> 'a session_scheme
       \<Rightarrow> (RusbmuxError + unit) \<times> 'a session_scheme" where
  "handle_record svc ReadRecord i tag s = handle_read_pair_record svc i tag s"
| "handle_record svc (SaveRecord d dev) i tag s = handle_save_pair_record svc i d dev tag s"
| "handle_record svc DeleteRecord i tag s = handle_delete_pair_record svc i tag s"

lemma handle_record_files:
  "p \<noteq> record_path svc i \<or> malformed_id i \<Longrightarrow> files (snd (handle_record svc req i tag s)) p = files s p"
  by (cases req) (simp_all add: handle_read_files handle_save_files handle_delete_files)

text \<open>Two sessions that agree on what was sent and on one file.\<close>

lemma handle_record_local:
  assumes "files s (record_path svc i) = files t (record_path svc i)" and "sent s = sent t"
  shows "fst (handle_record svc req i tag s) = fst (handle_record svc req i tag t)
     \<and> sent (snd (handle_record svc req i tag s)) = sent (snd (handle_record svc req i tag t))"
  using assms
  by (cases req)
    (auto simp: handle_read_pair_record_def read_pair_record_def handle_save_pair_record_def
      save_pair_record_def handle_delete_pair_record_def delete_pair_record_def fs_read_def fs_write_def
      fs_remove_def client_write_def send_result_def answer_failure_def split: option.splits)

section \<open>Properties\<close>

text \<open>
  C10. The pair record requests stay inside the lockdown directory: whatever identifier a client
  sends, at most one file is changed or looked at, it is an entry of that directory itself (its
  name has no separator of either kind), and an identifier with a separator or two dots in a row
  touches no file at all and is answered with \<open>BadCommand\<close>.
\<close>
theorem pair_records_confined:
  fixes s :: session
  assumes "handle_record svc req i tag s = (res, s')"
  shows "(\<forall>p. files s' p \<noteq> files s p \<longrightarrow> \<not> malformed_id i \<and>
       (\<exists>name. p = LOCKDOWN_PATH (svc_os svc) @ ''/'' @ name \<and> name = i @ ''.plist''
          \<and> CHR ''/'' \<notin> set name \<and> CHR 0x5C \<notin> set name))
     \<and> (\<forall>t. files t (record_path svc i) = files s (record_path svc i) \<and> sent t = sent s \<longrightarrow>
          fst (handle_record svc req i tag t) = res \<and> sent (snd (handle_record svc req i tag t)) = sent s')
     \<and> (malformed_id i \<longrightarrow> files s' = files s \<and> (\<exists>e. res = Inl e)
          \<and> (svc_write svc (sent s) (response svc (result_value BadCommand) tag) = None \<longrightarrow>
               sent s' = sent s @ [response svc (result_value BadCommand) tag]))"
proof (intro conjI allI impI)
  fix p assume ch: "files s' p \<noteq> files s p"
  with handle_record_files [of p svc i req tag s] assms
  have "\<not> malformed_id i" and p: "p = record_path svc i" by auto
  then show "\<not> malformed_id i" "\<exists>name. p = LOCKDOWN_PATH (svc_os svc) @ ''/'' @ name \<and> name = i @ ''.plist''
      \<and> CHR ''/'' \<notin> set name \<and> CHR 0x5C \<notin> set name"
    by (auto simp: malformed_id_def record_path_def)
next
  fix t
  assume t: "files t (record_path svc i) = files s (record_path svc i) \<and> sent t = sent s"
  show "fst (handle_record svc req i tag t) = res" "sent (snd (handle_record svc req i tag t)) = sent s'"
    using handle_record_local [of s svc i t req tag] t assms by simp_all
next
  assume m: "malformed_id i"
  show "files s' = files s" using handle_record_files [of _ svc i req tag s] m assms by auto
  have "\<exists>codes. handle_record svc req i tag s = answer_failure svc codes malformed_error tag s
      \<and> codes malformed_error = Some BadCommand"
    by (cases req) (auto simp: malformed_answer [OF m])
  then have "(res, s') = (case svc_write svc (sent s) (response svc (result_value BadCommand) tag) of
      Some e \<Rightarrow> (Inl (IO e), s)
    | None \<Rightarrow> (Inl malformed_error, s\<lparr>sent := sent s @ [response svc (result_value BadCommand) tag]\<rparr>))"
    using assms by (auto simp: answer_failure_def send_result_def client_write_def split: option.split)
  then show "\<exists>e. res = Inl e"
    "svc_write svc (sent s) (response svc (result_value BadCommand) tag) = None \<Longrightarrow>
      sent s' = sent s @ [response svc (result_value BadCommand) tag]"
    by (auto split: option.splits)
qed

definition sample_svc :: service where
  "sample_svc = \<lparr>svc_os = Linux, svc_endian = Little,
     svc_xml = (\<lambda>v. case v of Data b \<Rightarrow> 1 # b | Dictionary [(k, String t)] \<Rightarrow> 2 # bytes_of t | _ \<Rightarrow> [3]),
     svc_plist = (\<lambda>b. case b of
         [] \<Rightarrow> Inl ''empty''
       | c # cs \<Rightarrow> if c = 1 then Inr (Data cs) else Inr (Dictionary [(''SystemBUID'', String (str_of cs))])),
     svc_plist_io = io_message, svc_uuid = ''ab-1'', svc_write = (\<lambda>_ _. None), svc_fault = (\<lambda>_ _. None),
     svc_not_found = ''no file''\<rparr>"

lemma sample_svc_healthy: "healthy sample_svc"
  by (simp add: healthy_def sample_svc_def)

abbreviation empty_session :: session where
  "empty_session \<equiv> \<lparr>files = Map.empty, sent = []\<rparr>"

theorem pair_records_confined_witness:
  "malformed_id ''../x'' \<and>
   sent (snd (handle_record sample_svc DeleteRecord ''../x'' 7 empty_session)) =
     [response sample_svc (result_value BadCommand) 7]
   \<and> files (snd (handle_record sample_svc DeleteRecord ''../x'' 7 empty_session)) = Map.empty"
proof -
  have m: "malformed_id ''../x''" by (simp add: malformed_id_def)
  obtain r s' where r: "handle_record sample_svc DeleteRecord ''../x'' 7 empty_session = (r, s')"
    by fastforce
  have "svc_write sample_svc h b = None" for h b by (simp add: sample_svc_def)
  with pair_records_confined [OF r] m have "files s' = Map.empty"
    and "sent s' = [response sample_svc (result_value BadCommand) 7]" by auto
  with m r show ?thesis by simp
qed

text \<open>
  C31. The life of a pair record: a record that was saved is answered when it is read, under the
  same identifier and only there, until it is deleted; then the client is told that there is no
  such file. The data that is answered is the XML text of the saved data, not the saved data.
\<close>
theorem pair_record_lifecycle:
  fixes s :: session
  assumes "healthy svc" and "\<not> malformed_id i"
    and "snd (handle_save_pair_record svc i d None tag s) = s1"
    and "snd (handle_read_pair_record svc i tag' s1) = s2"
    and "snd (handle_delete_pair_record svc i tag2 s2) = s3"
    and "handle_read_pair_record svc i tag3 s3 = (res, s4)"
  shows "sent s4 = sent s @
       [response svc (result_value OK) tag,
        response svc (Dictionary [(''PairRecordData'', Data (svc_xml svc (Data d)))]) tag',
        response svc (result_value OK) tag2,
        response svc (result_value BadDeviceOrNoSuchFile) tag3]
     \<and> (\<exists>e. res = Inl (IO e) \<and> kind e = NotFound)
     \<and> files s4 = (files s)(record_path svc i := None)"
proof -
  have s1: "s1 = s\<lparr>files := (files s)(record_path svc i \<mapsto> svc_xml svc (Data d)),
      sent := sent s @ [response svc (result_value OK) tag]\<rparr>"
    using assms(1-3) by (simp add: handle_save_pair_record_def save_pair_record_def)
  have s2: "s2 = s1\<lparr>sent := sent s1 @
      [response svc (Dictionary [(''PairRecordData'', Data (svc_xml svc (Data d)))]) tag']\<rparr>"
    using assms(1,2,4) by (simp add: handle_read_pair_record_def read_pair_record_def s1)
  have s3: "s3 = s2\<lparr>files := (files s)(record_path svc i := None),
      sent := sent s2 @ [response svc (result_value OK) tag2]\<rparr>"
    using assms(1,2,5) by (simp add: handle_delete_pair_record_def delete_pair_record_def s2 s1)
  show ?thesis
    using assms(1,2,6)
    by (auto simp: handle_read_pair_record_def read_pair_record_def answer_failure_def s3 s2 s1)
qed

theorem pair_record_lifecycle_witness:
  "\<exists>s4 :: session. sent s4 = [response sample_svc (result_value OK) 1,
       response sample_svc (Dictionary [(''PairRecordData'', Data [1, 8, 9])]) 2,
       response sample_svc (result_value OK) 3,
       response sample_svc (result_value BadDeviceOrNoSuchFile) 4] \<and> files s4 = Map.empty"
proof -
  have m: "\<not> malformed_id ''udid''" by (simp add: malformed_id_def)
  obtain r s4 where r: "handle_read_pair_record sample_svc ''udid'' 4
      (snd (handle_delete_pair_record sample_svc ''udid'' 3
        (snd (handle_read_pair_record sample_svc ''udid'' 2
          (snd (handle_save_pair_record sample_svc ''udid'' [8, 9] None 1 empty_session)))))) = (r, s4)"
    by fastforce
  have "svc_xml sample_svc (Data [8, 9]) = [1, 8, 9]" by (simp add: sample_svc_def)
  with pair_record_lifecycle [OF sample_svc_healthy m refl refl refl r]
  show ?thesis by (intro exI [of _ s4]) simp
qed

text \<open>
  The system identifier is made once: the first request on a fresh directory stores a new
  identifier, upper case, and answers it, and every later request, whatever identifier it would
  have made itself, answers the same one; of the codec this needs that it reads back the one
  dictionary it wrote.
\<close>
theorem buid_stable:
  fixes s :: session
  assumes "healthy svc" and "healthy svc'" and "svc_os svc' = svc_os svc" and "svc_plist svc' = svc_plist svc"
    and "files s (config_path svc) = None"
    and "svc_plist svc (svc_xml svc (Dictionary [(''SystemBUID'', String (map to_upper (svc_uuid svc)))]))
         = Inr (Dictionary [(''SystemBUID'', String (map to_upper (svc_uuid svc)))])"
    and "handle_read_buid svc tag s = (res, s1)" and "handle_read_buid svc' tag' s1 = (res', s2)"
  shows "res = Inr () \<and> res' = Inr () \<and> files s2 = files s1
     \<and> sent s2 = sent s @ [response svc (Dictionary [(''BUID'', String (map to_upper (svc_uuid svc)))]) tag,
          response svc' (Dictionary [(''BUID'', String (map to_upper (svc_uuid svc)))]) tag']"
proof -
  have path: "config_path svc' = config_path svc" by (simp add: config_path_def assms(3))
  have s1: "res = Inr ()" "files s1 = (files s)(config_path svc \<mapsto>
       svc_xml svc (Dictionary [(''SystemBUID'', String (map to_upper (svc_uuid svc)))]))"
    "sent s1 = sent s @ [response svc (Dictionary [(''BUID'', String (map to_upper (svc_uuid svc)))]) tag]"
    using assms(1,5-7) by (auto simp: handle_read_buid_def answer_buid_def read_config_def extract_buid_def)
  show ?thesis
    using assms(2,4,6,8) s1
    by (auto simp: handle_read_buid_def answer_buid_def read_config_def extract_buid_def path)
qed

theorem buid_stable_witness:
  "\<exists>s2 :: session. sent s2 = [response sample_svc (Dictionary [(''BUID'', String ''AB-1'')]) 1,
     response (sample_svc\<lparr>svc_uuid := ''zz''\<rparr>) (Dictionary [(''BUID'', String ''AB-1'')]) 2]"
proof -
  have u: "map to_upper (svc_uuid sample_svc) = ''AB-1''"
    unfolding sample_svc_def by code_simp
  have h: "healthy (sample_svc\<lparr>svc_uuid := ''zz''\<rparr>)" by (simp add: healthy_def sample_svc_def)
  have c: "svc_plist sample_svc (svc_xml sample_svc (Dictionary [(''SystemBUID'',
      String (map to_upper (svc_uuid sample_svc)))]))
    = Inr (Dictionary [(''SystemBUID'', String (map to_upper (svc_uuid sample_svc)))])"
    unfolding u by (simp add: sample_svc_def)
  obtain r s1 where r: "handle_read_buid sample_svc 1 empty_session = (r, s1)" by fastforce
  obtain r' s2 where r': "handle_read_buid (sample_svc\<lparr>svc_uuid := ''zz''\<rparr>) 2 s1 = (r', s2)" by fastforce
  from buid_stable [OF sample_svc_healthy h _ _ _ c r r'] show ?thesis
    unfolding u by (intro exI [of _ s2]) simp
qed

end
