(* ===== verification/Packet_Router.thy ===== *)
theory Packet_Router
  imports Packet_Builder
begin

text \<open>
  Channels and the packet router of \<^verbatim>\<open>src/device/packet_router.rs\<close>. The bounded channels
  belong to the crate \<open>crossfire\<close>: a channel is known here by the messages it has accepted,
  in order, and what a send answers is a parameter that may depend on them. The concurrent
  map (\<open>dashmap\<close>) is a map; its documented locking rule, that \<open>remove\<close> blocks when the caller
  still holds a reference into the same part of the map, is kept.
\<close>

section \<open>Channels\<close>

text \<open>Answers of \<open>send\<close>, \<open>try_send\<close> and \<open>recv\<close>; a closed channel answers with its error text.\<close>

datatype send_reply = Sent | SendClosed string

datatype try_send_reply = TrySent | TryFailed string

datatype 'm recv_reply = Received 'm | RecvClosed string

text \<open>What the sender side of a channel answers after the messages it has accepted.\<close>

record 'm chan_env =
  ch_send :: "'m list \<Rightarrow> 'm \<Rightarrow> send_reply"
  ch_try_send :: "'m list \<Rightarrow> 'm \<Rightarrow> try_send_reply"

section \<open>The router\<close>

text \<open>
  \<open>conns\<close> maps a port to the sender of that connection's channel; \<open>delivered\<close> holds what
  each channel has accepted; \<open>bounded_async\<close> makes a channel no one has used before.
\<close>

record PacketRouter =
  conns :: "u16 \<rightharpoonup> nat"
  next_chan :: nat
  delivered :: "nat \<Rightarrow> UsbDevicePacket list"

type_synonym router_env = "nat \<Rightarrow> UsbDevicePacket chan_env"

definition router_new :: PacketRouter where
  "router_new = \<lparr>conns = Map.empty, next_chan = 0, delivered = (\<lambda>_. [])\<rparr>"

text \<open>\<open>disconnected c\<close>: every receiver of channel \<open>c\<close> is gone.\<close>

definition cleanup_dead :: "(nat \<Rightarrow> bool) \<Rightarrow> PacketRouter \<Rightarrow> PacketRouter" where
  "cleanup_dead disconnected r =
     r\<lparr>conns := (\<lambda>port. case conns r port of
          None \<Rightarrow> None | Some c \<Rightarrow> if disconnected c then None else Some c)\<rparr>"

definition register :: "u16 \<Rightarrow> PacketRouter \<Rightarrow> nat \<times> PacketRouter" where
  "register port r =
     (next_chan r,
      r\<lparr>conns := (conns r)(port \<mapsto> next_chan r), next_chan := Suc (next_chan r)\<rparr>)"

definition router_clear :: "PacketRouter \<Rightarrow> PacketRouter" where
  "router_clear r = r\<lparr>conns := Map.empty\<rparr>"

text \<open>
  \<open>held\<close> is the set of ports whose entries the caller still holds a guard on. Removing such
  an entry waits for the guard, which the caller itself never releases: \<open>None\<close>.
\<close>

definition unregister_holding :: "u16 set \<Rightarrow> u16 \<Rightarrow> PacketRouter \<Rightarrow> PacketRouter option" where
  "unregister_holding held port r =
     (if port \<in> held then None else Some (r\<lparr>conns := (conns r)(port := None)\<rparr>))"

definition unregister :: "u16 \<Rightarrow> PacketRouter \<Rightarrow> PacketRouter" where
  "unregister port r = r\<lparr>conns := (conns r)(port := None)\<rparr>"

definition route_port :: "UsbDevicePacket \<Rightarrow> u16" where
  "route_port p = (case tcp_hdr p of None \<Rightarrow> 0 | Some h \<Rightarrow> destination_port h)"

text \<open>
  Routing ends, or the task waits for itself. The guard \<open>conn\<close> of \<open>self.conns.get(&port)\<close>
  lives until the end of the \<open>if let\<close> block, so the call of \<open>unregister\<close> is made while it is
  held.
\<close>

datatype route_outcome = Routed PacketRouter | Self_deadlock u16

definition route :: "router_env \<Rightarrow> UsbDevicePacket \<Rightarrow> PacketRouter \<Rightarrow> route_outcome" where
  "route env packet r =
     (let port = route_port packet in
      case conns r port of
        None \<Rightarrow> Routed r
      | Some c \<Rightarrow>
          (case ch_send (env c) (delivered r c) packet of
             Sent \<Rightarrow> Routed (r\<lparr>delivered := (delivered r)(c := delivered r c @ [packet])\<rparr>)
           | SendClosed e \<Rightarrow>
               (case unregister_holding {port} port r of
                  None \<Rightarrow> Self_deadlock port
                | Some r' \<Rightarrow> Routed r')))"

section \<open>Lemmas\<close>

lemma unregister_holding_none [simp]: "unregister_holding {} port r = Some (unregister port r)"
  by (simp add: unregister_holding_def unregister_def)

definition router_put :: "u16 \<Rightarrow> nat \<Rightarrow> PacketRouter \<Rightarrow> PacketRouter" where
  "router_put port c r = r\<lparr>conns := (conns r)(port \<mapsto> c)\<rparr>"

interpretation port_table: registry conns router_put unregister
  by unfold_locales (simp_all add: router_put_def unregister_def)

lemma register_snd: "snd (register port r) = (router_put port (next_chan r) r)\<lparr>next_chan := Suc (next_chan r)\<rparr>"
  by (simp add: register_def router_put_def)

lemma register_fields [simp]:
  "fst (register port r) = next_chan r"
  "conns (snd (register port r)) = (conns r)(port \<mapsto> next_chan r)"
  "next_chan (snd (register port r)) = Suc (next_chan r)"
  "delivered (snd (register port r)) = delivered r"
  by (simp_all add: register_def)

lemma unregister_fields [simp]:
  "conns (unregister port r) = (conns r)(port := None)"
  "next_chan (unregister port r) = next_chan r"
  "delivered (unregister port r) = delivered r"
  by (simp_all add: unregister_def)

text \<open>
  The invariant of the router: registered channels were made by it, no two ports share a
  channel, and a channel not yet made has accepted nothing.
\<close>

definition router_inv :: "PacketRouter \<Rightarrow> bool" where
  "router_inv r \<longleftrightarrow>
     (\<forall>port c. conns r port = Some c \<longrightarrow> c < next_chan r)
     \<and> (\<forall>p q c. conns r p = Some c \<longrightarrow> conns r q = Some c \<longrightarrow> p = q)
     \<and> (\<forall>c \<ge> next_chan r. delivered r c = [])"

lemma router_inv_new: "router_inv router_new"
  by (simp add: router_inv_def router_new_def)

lemma router_inv_register: "router_inv r \<Longrightarrow> router_inv (snd (register port r))"
  unfolding router_inv_def register_fields
  by (auto split: if_splits intro: less_SucI dest: less_irrefl_nat less_not_refl3)

lemma router_inv_unregister: "router_inv r \<Longrightarrow> router_inv (unregister port r)"
  unfolding router_inv_def by (auto split: if_splits)

lemma router_inv_clear: "router_inv r \<Longrightarrow> router_inv (router_clear r)"
  by (simp add: router_inv_def router_clear_def)

lemma router_inv_cleanup: "router_inv r \<Longrightarrow> router_inv (cleanup_dead d r)"
  unfolding router_inv_def cleanup_dead_def by (auto split: if_splits option.splits)

lemma route_Routed:
  assumes "route env p r = Routed r'"
  shows "conns r' = conns r" and "next_chan r' = next_chan r"
  using assms
  by (auto simp: route_def Let_def unregister_holding_def split: option.splits send_reply.splits)

lemma router_inv_route:
  assumes "router_inv r" and "route env p r = Routed r'"
  shows "router_inv r'"
proof (cases "conns r (route_port p)")
  case None
  with assms show ?thesis by (simp add: route_def)
next
  case (Some c)
  with assms have "c < next_chan r"
    and "r' = r\<lparr>delivered := (delivered r)(c := delivered r c @ [p])\<rparr>"
    by (auto simp: route_def Let_def unregister_holding_def router_inv_def split: send_reply.splits)
  with assms(1) show ?thesis by (simp add: router_inv_def)
qed

lemma route_delivered:
  assumes "route env p r = Routed r'" and "conns r (route_port p) = Some c"
  shows "delivered r' = (delivered r)(c := delivered r c @ [p])"
  using assms
  by (auto simp: route_def Let_def unregister_holding_def split: send_reply.splits)

lemma route_unknown: "conns r (route_port p) = None \<Longrightarrow> route env p r = Routed r"
  by (simp add: route_def)

lemma route_deadlock_iff:
  "route env p r = Self_deadlock q \<longleftrightarrow>
     q = route_port p \<and>
     (\<exists>c e. conns r q = Some c \<and> ch_send (env c) (delivered r c) p = SendClosed e)"
  by (auto simp: route_def Let_def unregister_holding_def split: option.splits send_reply.splits)

section \<open>Properties\<close>


definition open_env :: router_env where
  "open_env = (\<lambda>_. \<lparr>ch_send = (\<lambda>_ _. Sent), ch_try_send = (\<lambda>_ _. TrySent)\<rparr>)"

definition closed_env :: router_env where
  "closed_env = (\<lambda>_. \<lparr>ch_send = (\<lambda>_ _. SendClosed ''closed''),
     ch_try_send = (\<lambda>_ _. TryFailed ''closed'')\<rparr>)"


text \<open>
  Every operation of the router keeps its invariant: registered channels exist, two ports
  never share a channel, and a fresh channel is empty.
\<close>
theorem router_inv_preserved:
  assumes "router_inv r"
  shows "router_inv (snd (register port r)) \<and> router_inv (unregister port r)
     \<and> router_inv (router_clear r) \<and> router_inv (cleanup_dead d r)
     \<and> (\<forall>env p r'. route env p r = Routed r' \<longrightarrow> router_inv r')"
  using router_inv_register router_inv_unregister router_inv_clear router_inv_cleanup
    router_inv_route assms by blast

theorem router_inv_preserved_witness:
  "router_inv (snd (register 5 router_new)) \<and> router_inv (unregister 5 router_new)
     \<and> router_inv (router_clear router_new) \<and> router_inv (cleanup_dead (\<lambda>_. True) router_new)"
  using router_inv_preserved [OF router_inv_new] by blast


end
