(* ===== verification/Usb_Conn.thy ===== *)
theory Usb_Conn
  imports Packet_Router
begin

text \<open>
  A TCP-like connection to a port of a USB device: \<^verbatim>\<open>src/conn/usb.rs\<close>. The atomics of the
  Rust struct are plain fields, updated in the order of the code. The sender \<open>tx\<close> is the
  device's writer channel; an operation takes the packets that channel has accepted so far
  and returns them with what it has added. A \<open>recv\<close> takes the answer of the channel as an
  argument: an operation that waits has simply not been given one yet.
\<close>

section \<open>State\<close>

definition MAX_PACKET_SIZE :: nat where
  "MAX_PACKET_SIZE = 48 * 1024"

definition MAX_PACKET_PAYLOAD_SIZE :: nat where
  "MAX_PACKET_PAYLOAD_SIZE = MAX_PACKET_SIZE - HEADERS_LEN_V2"

record UsbDeviceConn =
  conn_device_id :: u64
  sent_bytes :: u32
  received_bytes :: u32
  conn_source_port :: u16
  conn_destination_port :: u16
  sendable_bytes :: nat
  device_last_window_size :: u16
  device_last_received_bytes :: u32
  conn_rx :: nat
  dropped :: bool

text \<open>
  The setters and getters. \<open>fetch_add\<close> wraps around. They are unfolded by the simplifier.
\<close>

definition get_sent_bytes :: "UsbDeviceConn \<Rightarrow> u32" where
  [simp]: "get_sent_bytes c = sent_bytes c"

definition get_received_bytes :: "UsbDeviceConn \<Rightarrow> u32" where
  [simp]: "get_received_bytes c = received_bytes c"

definition get_sendable_bytes :: "UsbDeviceConn \<Rightarrow> nat" where
  [simp]: "get_sendable_bytes c = sendable_bytes c"

definition set_sendable_bytes :: "nat \<Rightarrow> UsbDeviceConn \<Rightarrow> UsbDeviceConn" where
  [simp]: "set_sendable_bytes v c = c\<lparr>sendable_bytes := v\<rparr>"

definition get_device_last_window_size :: "UsbDeviceConn \<Rightarrow> u16" where
  [simp]: "get_device_last_window_size c = device_last_window_size c"

definition set_device_last_window_size :: "u16 \<Rightarrow> UsbDeviceConn \<Rightarrow> UsbDeviceConn" where
  [simp]: "set_device_last_window_size v c = c\<lparr>device_last_window_size := v\<rparr>"

definition get_device_last_received_bytes :: "UsbDeviceConn \<Rightarrow> u32" where
  [simp]: "get_device_last_received_bytes c = device_last_received_bytes c"

definition set_device_last_received_bytes :: "u32 \<Rightarrow> UsbDeviceConn \<Rightarrow> UsbDeviceConn" where
  [simp]: "set_device_last_received_bytes v c = c\<lparr>device_last_received_bytes := v\<rparr>"

definition set_received_bytes :: "u32 \<Rightarrow> UsbDeviceConn \<Rightarrow> UsbDeviceConn" where
  [simp]: "set_received_bytes v c = c\<lparr>received_bytes := v\<rparr>"

definition add_sent_bytes :: "u32 \<Rightarrow> UsbDeviceConn \<Rightarrow> UsbDeviceConn" where
  [simp]: "add_sent_bytes v c = c\<lparr>sent_bytes := sent_bytes c + v\<rparr>"

definition conn_is_dropped :: "UsbDeviceConn \<Rightarrow> bool" where
  [simp]: "conn_is_dropped c = dropped c"

definition conn_set_dropped :: "UsbDeviceConn \<Rightarrow> UsbDeviceConn" where
  [simp]: "conn_set_dropped c = c\<lparr>dropped := True\<rparr>"

definition AUTO_SEQ :: u16 where
  "AUTO_SEQ = 0"

section \<open>Flow control\<close>

definition saturating_sub :: "u32 \<Rightarrow> u32 \<Rightarrow> u32" where
  "saturating_sub a b = (if a < b then 0 else a - b)"

definition calc_sendable_bytes :: "u32 \<Rightarrow> u16 \<Rightarrow> u32 \<Rightarrow> nat" where
  "calc_sendable_bytes sent window device_received =
     (let device_window_size = push_bit 8 (ucast window :: u32);
          unacked_bytes = saturating_sub sent device_received
      in if device_window_size > unacked_bytes
         then min (unat (device_window_size - unacked_bytes)) MAX_PACKET_PAYLOAD_SIZE
         else 0)"

definition update_sendable_bytes :: "UsbDeviceConn \<Rightarrow> UsbDeviceConn" where
  "update_sendable_bytes c =
     set_sendable_bytes (calc_sendable_bytes (get_sent_bytes c) (get_device_last_window_size c)
         (get_device_last_received_bytes c)) c"

section \<open>Packets of a connection\<close>

text \<open>A packet without payload, with the flag given.\<close>

definition control_packet :: "tcp_ops \<Rightarrow> TcpFlags \<Rightarrow> u16 \<Rightarrow> u16 \<Rightarrow> u32 \<Rightarrow> u32 \<Rightarrow> UsbDevicePacket" where
  "control_packet ops flags sport dport sent received =
     build_ack (tcp_header ops sport dport sent received flags
       (header_tcp AUTO_SEQ AUTO_SEQ builder_new))"

definition data_packet :: "tcp_ops \<Rightarrow> UsbDeviceConn \<Rightarrow> bytes \<Rightarrow> UsbDevicePacket" where
  "data_packet ops c value =
     build_tcp_bytes (payload_bytes value
       (tcp_header ops (conn_source_port c) (conn_destination_port c) (get_sent_bytes c)
         (get_received_bytes c) ACK (header_tcp AUTO_SEQ AUTO_SEQ builder_new)))"

definition plist_packet ::
    "tcp_ops \<Rightarrow> ('v \<Rightarrow> bytes option) \<Rightarrow> UsbDeviceConn \<Rightarrow> 'v \<Rightarrow> UsbDevicePacket option" where
  "plist_packet ops to_xml c value =
     build_tcp_plist to_xml (payload_plist value
       (tcp_header ops (conn_source_port c) (conn_destination_port c) (get_sent_bytes c)
         (get_received_bytes c) ACK (header_tcp AUTO_SEQ AUTO_SEQ builder_new)))"

section \<open>Operations\<close>

type_synonym wq = "UsbDevicePacket list"
type_synonym wenv = "UsbDevicePacket chan_env"

definition conn_new_from ::
    "u64 \<Rightarrow> u16 \<Rightarrow> u16 \<Rightarrow> u32 \<Rightarrow> u32 \<Rightarrow> u16 \<Rightarrow> u32 \<Rightarrow> nat \<Rightarrow> UsbDeviceConn" where
  "conn_new_from dev dport sport sent received window device_received rx =
     \<lparr>conn_device_id = dev, sent_bytes = sent, received_bytes = received,
      conn_source_port = sport, conn_destination_port = dport,
      sendable_bytes = calc_sendable_bytes sent window device_received,
      device_last_window_size = window, device_last_received_bytes = device_received,
      conn_rx = rx, dropped = False\<rparr>"

text \<open>The handshake: SYN, the device's answer, ACK.\<close>

definition conn_new ::
    "tcp_ops \<Rightarrow> wenv \<Rightarrow> u64 \<Rightarrow> u16 \<Rightarrow> u16 \<Rightarrow> nat \<Rightarrow> UsbDevicePacket recv_reply \<Rightarrow> wq
       \<Rightarrow> (RusbmuxError + UsbDeviceConn) \<times> wq" where
  "conn_new ops env dev sport dport rx answer q =
     (let tcp_syn = control_packet ops SYN sport dport 0 0 in
      case ch_send env q tcp_syn of
        SendClosed e \<Rightarrow> (Inl (from_channel_error e), q)
      | Sent \<Rightarrow>
          (let q1 = q @ [tcp_syn] in
           case answer of
             RecvClosed e \<Rightarrow> (Inl (from_channel_error e), q1)
           | Received tcp_syn_ack \<Rightarrow>
               (case tcp_hdr tcp_syn_ack of
                  None \<Rightarrow> (Inl (UnexpectedPacket ''Expected a packet with a tcp header''), q1)
                | Some t \<Rightarrow>
                    (let sent = 0 + acknowledgment_number t;
                         received = 0 + sequence_number t;
                         tcp_ack = control_packet ops ACK sport dport sent received
                     in case ch_send env q1 tcp_ack of
                          SendClosed e \<Rightarrow> (Inl (from_channel_error e), q1)
                        | Sent \<Rightarrow>
                            (Inr \<lparr>conn_device_id = dev, sent_bytes = sent,
                               received_bytes = received, conn_source_port = sport,
                               conn_destination_port = dport,
                               sendable_bytes = calc_sendable_bytes sent (window_size t)
                                 (acknowledgment_number t),
                               device_last_window_size = window_size t,
                               device_last_received_bytes = acknowledgment_number t,
                               conn_rx = rx, dropped = False\<rparr>,
                             q1 @ [tcp_ack])))))"

definition send_packet ::
    "wenv \<Rightarrow> UsbDevicePacket \<Rightarrow> UsbDeviceConn \<Rightarrow> wq \<Rightarrow> (RusbmuxError + unit) \<times> UsbDeviceConn \<times> wq" where
  "send_packet env packet c q =
     (let plen = (word_of_nat (payload_len (payload packet)) :: u32) in
      case ch_send env q packet of
        SendClosed e \<Rightarrow> (Inl (from_channel_error e), c, q)
      | Sent \<Rightarrow>
          (Inr (), update_sendable_bytes (add_sent_bytes plen c), q @ [packet]))"

definition send_bytes ::
    "tcp_ops \<Rightarrow> wenv \<Rightarrow> bytes \<Rightarrow> UsbDeviceConn \<Rightarrow> wq
       \<Rightarrow> (RusbmuxError + unit) \<times> UsbDeviceConn \<times> wq" where
  "send_bytes ops env value c q = send_packet env (data_packet ops c value) c q"

text \<open>\<open>None\<close> is the panic of the XML writer's \<open>unwrap\<close>.\<close>

definition send_plist ::
    "tcp_ops \<Rightarrow> ('v \<Rightarrow> bytes option) \<Rightarrow> wenv \<Rightarrow> 'v \<Rightarrow> UsbDeviceConn \<Rightarrow> wq
       \<Rightarrow> ((RusbmuxError + unit) \<times> UsbDeviceConn \<times> wq) option" where
  "send_plist ops to_xml env value c q =
     (case plist_packet ops to_xml c value of
        None \<Rightarrow> None
      | Some packet \<Rightarrow> Some (send_packet env packet c q))"

definition rst_packet :: "tcp_ops \<Rightarrow> UsbDeviceConn \<Rightarrow> UsbDevicePacket" where
  "rst_packet ops c =
     control_packet ops RST (conn_source_port c) (conn_destination_port c) (get_sent_bytes c)
       (get_received_bytes c)"

definition send_rst ::
    "tcp_ops \<Rightarrow> wenv \<Rightarrow> UsbDeviceConn \<Rightarrow> wq \<Rightarrow> (RusbmuxError + unit) \<times> wq" where
  "send_rst ops env c q =
     (case ch_send env q (rst_packet ops c) of
        SendClosed e \<Rightarrow> (Inl (from_channel_error e), q)
      | Sent \<Rightarrow> (Inr (), q @ [rst_packet ops c]))"

definition send_rst_blocking ::
    "tcp_ops \<Rightarrow> wenv \<Rightarrow> UsbDeviceConn \<Rightarrow> wq \<Rightarrow> (RusbmuxError + unit) \<times> wq" where
  "send_rst_blocking ops env c q =
     (case ch_try_send env q (rst_packet ops c) of
        TryFailed e \<Rightarrow> (Inl (from_channel_error e), q)
      | TrySent \<Rightarrow> (Inr (), q @ [rst_packet ops c]))"

definition conn_ack ::
    "tcp_ops \<Rightarrow> wenv \<Rightarrow> UsbDeviceConn \<Rightarrow> wq \<Rightarrow> (RusbmuxError + unit) \<times> wq" where
  "conn_ack ops env c q =
     (let tcp_ack = control_packet ops ACK (conn_source_port c) (conn_destination_port c)
                      (get_sent_bytes c) (get_received_bytes c)
      in case ch_send env q tcp_ack of
           SendClosed e \<Rightarrow> (Inl (from_channel_error e), q)
         | Sent \<Rightarrow> (Inr (), q @ [tcp_ack]))"

definition note_received :: "UsbDevicePacket \<Rightarrow> UsbDeviceConn \<Rightarrow> UsbDeviceConn" where
  "note_received response c =
     (let recv_bytes = (word_of_nat (payload_len (payload response)) :: u32);
          c1 = set_received_bytes
                 (case tcp_hdr response of None \<Rightarrow> recv_bytes | Some t \<Rightarrow> sequence_number t) c
      in case tcp_hdr response of
           None \<Rightarrow> c1
         | Some h \<Rightarrow> set_device_last_window_size (window_size h)
                       (set_device_last_received_bytes (acknowledgment_number h) c1))"

definition recv ::
    "tcp_ops \<Rightarrow> wenv \<Rightarrow> UsbDevicePacket recv_reply \<Rightarrow> UsbDeviceConn \<Rightarrow> wq
       \<Rightarrow> (RusbmuxError + UsbDevicePacket) \<times> UsbDeviceConn \<times> wq" where
  "recv ops env answer c q =
     (case answer of
        RecvClosed e \<Rightarrow> (Inl (from_channel_error e), c, q)
      | Received response \<Rightarrow>
          (let c1 = note_received response c in
           case conn_ack ops env c1 q of
             (Inl e, q1) \<Rightarrow> (Inl e, c1, q1)
           | (Inr _, q1) \<Rightarrow> (Inr response, update_sendable_bytes c1, q1)))"

text \<open>
  Closing takes the device's router when it is still alive (\<open>Weak::upgrade\<close>): \<open>None\<close> when the
  device is gone.
\<close>

definition conn_close ::
    "tcp_ops \<Rightarrow> wenv \<Rightarrow> UsbDeviceConn \<Rightarrow> PacketRouter option \<Rightarrow> wq
       \<Rightarrow> (RusbmuxError + unit) \<times> UsbDeviceConn \<times> PacketRouter option \<times> wq" where
  "conn_close ops env c rt q =
     (let c1 = conn_set_dropped c in
      case send_rst ops env c1 q of
        (Inl e, q1) \<Rightarrow> (Inl e, c1, rt, q1)
      | (Inr _, q1) \<Rightarrow> (Inr (), c1, map_option (unregister (conn_source_port c1)) rt, q1))"

definition close_blocking ::
    "tcp_ops \<Rightarrow> wenv \<Rightarrow> UsbDeviceConn \<Rightarrow> PacketRouter option \<Rightarrow> wq
       \<Rightarrow> (RusbmuxError + unit) \<times> UsbDeviceConn \<times> PacketRouter option \<times> wq" where
  "close_blocking ops env c rt q =
     (let c1 = conn_set_dropped c in
      case send_rst_blocking ops env c1 q of
        (Inl e, q1) \<Rightarrow> (Inl e, c1, rt, q1)
      | (Inr _, q1) \<Rightarrow> (Inr (), c1, map_option (unregister (conn_source_port c1)) rt, q1))"

text \<open>The destructor; the connection is gone afterwards.\<close>

definition conn_drop ::
    "tcp_ops \<Rightarrow> wenv \<Rightarrow> UsbDeviceConn \<Rightarrow> PacketRouter option \<Rightarrow> wq \<Rightarrow> PacketRouter option \<times> wq" where
  "conn_drop ops env c rt q =
     (if \<not> conn_is_dropped c
      then (case close_blocking ops env c rt q of (_, _, rt1, q1) \<Rightarrow> (rt1, q1))
      else (rt, q))"

section \<open>Facts about the packets\<close>

lemma control_packet_shape:
  assumes "tcp_laws ops"
  shows "wf_packet (control_packet ops fl sp dp sn an)" and "no_options (control_packet ops fl sp dp sn an)"
    and "payload (control_packet ops fl sp dp sn an) = Bytes []"
    and "\<exists>t. tcp_hdr (control_packet ops fl sp dp sn an) = Some t \<and> source_port t = sp
           \<and> destination_port t = dp \<and> sequence_number t = sn \<and> acknowledgment_number t = an
           \<and> window_size t = 512 \<and> syn t = flags_contains fl SYN \<and> ack t = flags_contains fl ACK
           \<and> rst t = flags_contains fl RST"
  unfolding control_packet_def
  using wf_build_ack [of "tcp_header ops sp dp sn an fl (header_tcp AUTO_SEQ AUTO_SEQ builder_new)"]
  by (simp_all add: tcp_header_built [OF assms] build_ack_def header_tcp_def packet_new_def
      no_options_def)

lemma data_packet_fields:
  assumes "tcp_laws ops"
  shows "payload (data_packet ops c v) = Bytes v"
    and "no_options (data_packet ops c v)"
    and "\<exists>t. tcp_hdr (data_packet ops c v) = Some t \<and> source_port t = conn_source_port c
           \<and> destination_port t = conn_destination_port c \<and> sequence_number t = sent_bytes c
           \<and> acknowledgment_number t = received_bytes c \<and> ack t \<and> \<not> syn t \<and> \<not> rst t"
  by (simp_all add: data_packet_def build_tcp_bytes_def payload_bytes_def header_tcp_def
      packet_new_def tcp_header_built [OF assms] no_options_def)

lemma wf_data_packet:
  assumes "tcp_laws ops" and "36 + length v < 2 ^ 32"
  shows "wf_packet (data_packet ops c v)"
  unfolding data_packet_def
  by (rule wf_build_tcp_bytes)
    (use assms(2) in \<open>simp_all add: payload_bytes_def tcp_header_built [OF assms(1)]\<close>)

section \<open>Flow control\<close>

lemma MAX_PACKET_PAYLOAD_SIZE_val [simp]: "MAX_PACKET_PAYLOAD_SIZE = 49116"
  by (simp add: MAX_PACKET_PAYLOAD_SIZE_def MAX_PACKET_SIZE_def HEADERS_LEN_V2_def)

lemma unat_window: "unat (push_bit 8 (ucast (w::u16)) :: u32) = 256 * unat w"
proof -
  have "unat w < 2 ^ 16" using unsigned_less [of w] by simp
  then show ?thesis
    by (simp add: push_bit_eq_mult unat_word_ariths unsigned_ucast_eq take_bit_nat_eq_self)
qed

lemma unat_saturating_sub: "unat (saturating_sub a b) = unat a - unat b"
  by (auto simp: saturating_sub_def unat_sub not_less word_less_nat_alt word_le_nat_alt)

lemma calc_sendable_eq:
  "calc_sendable_bytes s w d =
     min (256 * unat w - (unat s - unat d)) MAX_PACKET_PAYLOAD_SIZE"
  unfolding calc_sendable_bytes_def Let_def
  by (auto simp: word_less_nat_alt unat_window unat_saturating_sub unat_sub_if' not_less
      simp del: MAX_PACKET_PAYLOAD_SIZE_val)

lemma calc_sendable_window:
  "0 < calc_sendable_bytes s w d \<Longrightarrow> unat d \<le> unat s \<Longrightarrow>
     unat s - unat d + calc_sendable_bytes s w d \<le> 256 * unat w"
  by (simp add: calc_sendable_eq)

text \<open>The cached amount always belongs to the counters it was computed from.\<close>

definition conn_inv :: "UsbDeviceConn \<Rightarrow> bool" where
  "conn_inv c \<longleftrightarrow>
     sendable_bytes c = calc_sendable_bytes (sent_bytes c) (device_last_window_size c)
       (device_last_received_bytes c)"

lemma conn_inv_update [simp]: "conn_inv (update_sendable_bytes c)"
  by (simp add: conn_inv_def update_sendable_bytes_def)

lemma update_sendable_fields [simp, state_simps]:
  "sent_bytes (update_sendable_bytes c) = sent_bytes c"
  "received_bytes (update_sendable_bytes c) = received_bytes c"
  "conn_source_port (update_sendable_bytes c) = conn_source_port c"
  "conn_destination_port (update_sendable_bytes c) = conn_destination_port c"
  "device_last_window_size (update_sendable_bytes c) = device_last_window_size c"
  "device_last_received_bytes (update_sendable_bytes c) = device_last_received_bytes c"
  "conn_device_id (update_sendable_bytes c) = conn_device_id c"
  "conn_rx (update_sendable_bytes c) = conn_rx c"
  "dropped (update_sendable_bytes c) = dropped c"
  by (simp_all add: update_sendable_bytes_def)

lemma conn_inv_new:
  "conn_new ops env dev sp dp rx answer q = (Inr c, q') \<Longrightarrow> conn_inv c"
  by (auto simp: conn_new_def Let_def conn_inv_def
      split: send_reply.splits recv_reply.splits option.splits)

lemma conn_inv_new_from: "conn_inv (conn_new_from dev dp sp s r w d rx)"
  by (simp add: conn_inv_def conn_new_from_def)

lemma conn_inv_send:
  "conn_inv c \<Longrightarrow> send_packet env p c q = (res, c', q') \<Longrightarrow> conn_inv c'"
  by (auto simp: send_packet_def Let_def split: send_reply.splits)

lemma conn_inv_recv:
  "recv ops env answer c q = (Inr p, c', q') \<Longrightarrow> conn_inv c'"
  by (auto simp: recv_def Let_def split: recv_reply.splits prod.splits sum.splits)

lemma conn_inv_close:
  "conn_inv c \<Longrightarrow> conn_close ops env c rt q = (res, c', rt', q') \<Longrightarrow> conn_inv c'"
  by (auto simp: conn_close_def Let_def conn_inv_def split: prod.splits sum.splits)

section \<open>Sending a sequence of chunks\<close>

text \<open>Successive calls of \<open>send_bytes\<close>, stopping at the first error.\<close>

primrec send_all ::
    "tcp_ops \<Rightarrow> wenv \<Rightarrow> bytes list \<Rightarrow> UsbDeviceConn \<Rightarrow> wq
       \<Rightarrow> (RusbmuxError + unit) \<times> UsbDeviceConn \<times> wq" where
  "send_all ops env [] c q = (Inr (), c, q)"
| "send_all ops env (v # vs) c q =
     (case send_bytes ops env v c q of
        (Inl e, c1, q1) \<Rightarrow> (Inl e, c1, q1)
      | (Inr _, c1, q1) \<Rightarrow> send_all ops env vs c1 q1)"

definition seq_no :: "UsbDevicePacket \<Rightarrow> u32" where
  "seq_no p = sequence_number (the (tcp_hdr p))"

text \<open>The packets carry \<open>vs\<close> with consecutive sequence numbers, the first one being \<open>s\<close>.\<close>

fun carries :: "u32 \<Rightarrow> bytes list \<Rightarrow> UsbDevicePacket list \<Rightarrow> bool" where
  "carries s [] [] = True"
| "carries s (v # vs) (p # ps) =
     (payload p = Bytes v \<and> seq_no p = s \<and> carries (s + word_of_nat (length v)) vs ps)"
| "carries s vs ps = False"

lemma carries_length: "carries s vs ps \<Longrightarrow> length ps = length vs"
  by (induction s vs ps rule: carries.induct) auto

lemma data_packet_seq_no [simp]: "tcp_laws ops \<Longrightarrow> seq_no (data_packet ops c v) = sent_bytes c"
  using data_packet_fields(3) [of ops c v] by (auto simp: seq_no_def)

lemma send_bytes_cases:
  assumes "tcp_laws ops" and "send_bytes ops env v c q = (res, c1, q1)"
  shows "(\<exists>e. res = Inl (Channel e) \<and> c1 = c \<and> q1 = q) \<or>
     (res = Inr () \<and> q1 = q @ [data_packet ops c v]
      \<and> sent_bytes c1 = sent_bytes c + word_of_nat (length v))"
  using assms
  by (auto simp: send_bytes_def send_packet_def Let_def data_packet_fields(1)
      split: send_reply.splits)

section \<open>Properties\<close>

lemma send_all_prefix:
  assumes "tcp_laws ops" and "send_all ops env vs c q = (res, c', q')"
  shows "\<exists>n \<le> length vs. \<exists>ps. q' = q @ ps \<and> carries (sent_bytes c) (take n vs) ps
     \<and> sent_bytes c' = sent_bytes c + word_of_nat (length (concat (take n vs)))
     \<and> (res = Inr () \<longleftrightarrow> n = length vs)"
  using assms(2)
proof (induction vs arbitrary: c q)
  case Nil
  then show ?case by auto
next
  case (Cons v vs)
  obtain r1 c1 q1 where s: "send_bytes ops env v c q = (r1, c1, q1)" by (metis prod_cases3)
  from send_bytes_cases [OF assms(1) s] show ?case
  proof
    assume "\<exists>e. r1 = Inl (Channel e) \<and> c1 = c \<and> q1 = q"
    with Cons.prems s show ?thesis by (intro exI [of _ 0]) auto
  next
    assume ok: "r1 = Inr () \<and> q1 = q @ [data_packet ops c v]
      \<and> sent_bytes c1 = sent_bytes c + word_of_nat (length v)"
    with Cons.prems s have "send_all ops env vs c1 q1 = (res, c', q')" by simp
    from Cons.IH [OF this] obtain n ps where n: "n \<le> length vs" "q' = q1 @ ps"
      "carries (sent_bytes c1) (take n vs) ps"
      "sent_bytes c' = sent_bytes c1 + word_of_nat (length (concat (take n vs)))"
      "res = Inr () \<longleftrightarrow> n = length vs" by blast
    with ok assms(1) show ?thesis
      by (intro exI [of _ "Suc n"] conjI exI [of _ "data_packet ops c v # ps"])
        (simp_all add: data_packet_fields(1) algebra_simps)
  qed
qed

text \<open>
  C19. Sending chunks one after the other puts a prefix of them on the writer queue, one packet
  per chunk, in order, with consecutive 32-bit sequence numbers that start at the connection's
  counter, which is moved on by the bytes that were queued. All of them are queued exactly when
  no error is reported.
\<close>
theorem send_stream:
  assumes "tcp_laws ops" and "send_all ops env vs c q = (res, c', q')"
  shows "\<exists>n \<le> length vs. \<exists>ps. q' = q @ ps \<and> carries (sent_bytes c) (take n vs) ps
     \<and> sent_bytes c' = sent_bytes c + word_of_nat (length (concat (take n vs)))
     \<and> (res = Inr () \<longleftrightarrow> n = length vs)"
  using assms by (rule send_all_prefix)

definition sample_conn :: UsbDeviceConn where
  "sample_conn = conn_new_from 1 62078 1 100 50 512 100 0"

definition sample_chunks :: "bytes list" where
  "sample_chunks = [[1, 2], [3]]"

theorem send_stream_witness:
  "\<exists>n \<le> length sample_chunks. \<exists>ps.
     snd (snd (send_all rfc_ops (open_env 0) sample_chunks sample_conn [])) = [] @ ps
     \<and> carries (sent_bytes sample_conn) (take n sample_chunks) ps
     \<and> sent_bytes (fst (snd (send_all rfc_ops (open_env 0) sample_chunks sample_conn []))) =
         sent_bytes sample_conn + word_of_nat (length (concat (take n sample_chunks)))
     \<and> (fst (send_all rfc_ops (open_env 0) sample_chunks sample_conn []) = Inr ()
          \<longleftrightarrow> n = length sample_chunks)"
  by (rule send_stream [OF rfc_ops_laws]) simp

text \<open>
  C20. Flow control: a connection whose cached amount is up to date and whose counters have not
  wrapped can send any chunk of at most the cached amount, and afterwards the bytes the device
  has not acknowledged still fit its window; no such chunk is larger than a packet may carry.
\<close>
theorem send_respects_window:
  assumes "conn_inv c" and "tcp_laws ops"
    and "unat (device_last_received_bytes c) \<le> unat (sent_bytes c)"
    and "0 < length v" and "length v \<le> sendable_bytes c"
    and "unat (sent_bytes c) + length v < 2 ^ 32"
    and "send_bytes ops env v c q = (Inr (), c', q')"
  shows "unat (sent_bytes c') - unat (device_last_received_bytes c')
           \<le> 256 * unat (device_last_window_size c')
     \<and> length v \<le> MAX_PACKET_PAYLOAD_SIZE \<and> conn_inv c'"
proof -
  have c': "sent_bytes c' = sent_bytes c + word_of_nat (length v)"
    "device_last_received_bytes c' = device_last_received_bytes c"
    "device_last_window_size c' = device_last_window_size c" "conn_inv c'"
    using assms(2,7)
    by (auto simp: send_bytes_def send_packet_def Let_def data_packet_fields(1)
        split: send_reply.splits)
  have "unat (sent_bytes c') = unat (sent_bytes c) + length v"
    using assms(6) c'(1) by (simp add: unat_word_ariths unat_of_nat)
  moreover have "length v \<le> calc_sendable_bytes (sent_bytes c) (device_last_window_size c)
      (device_last_received_bytes c)"
    using assms(1,5) by (simp add: conn_inv_def)
  ultimately show ?thesis
    using c' assms(3,4) by (simp add: calc_sendable_eq del: length_greater_0_conv) linarith
qed

theorem send_respects_window_witness:
  "\<exists>c' q'. send_bytes rfc_ops (open_env 0) [1, 2, 3] sample_conn [] = (Inr (), c', q')
     \<and> unat (sent_bytes c') - unat (device_last_received_bytes c')
           \<le> 256 * unat (device_last_window_size c')
     \<and> length [1, 2, 3 :: u8] \<le> MAX_PACKET_PAYLOAD_SIZE \<and> conn_inv c'"
proof -
  obtain c' q' where s: "send_bytes rfc_ops (open_env 0) [1, 2, 3] sample_conn [] = (Inr (), c', q')"
    by (simp add: send_bytes_def send_packet_def Let_def open_env_def)
  have "conn_inv sample_conn" by (simp add: sample_conn_def conn_inv_new_from)
  from send_respects_window [OF this rfc_ops_laws _ _ _ _ s] s show ?thesis
    by (simp add: sample_conn_def conn_new_from_def calc_sendable_eq)
qed

text \<open>
  After the 32-bit counter of sent bytes has wrapped and before the acknowledgements have,
  the saturating subtraction counts no byte as unacknowledged: the whole window is offered
  again, although a full window of bytes may still be on its way.
\<close>
theorem window_wraparound:
  assumes "sent < device_received"
  shows "calc_sendable_bytes sent window device_received =
     min (256 * unat window) MAX_PACKET_PAYLOAD_SIZE"
  using assms by (simp add: calc_sendable_eq word_less_nat_alt)

theorem window_wraparound_witness:
  "unat ((0 :: u32) - 0xFFFE0000) = 256 * unat (512 :: u16)
   \<and> calc_sendable_bytes 0 512 0xFFFE0000 = min (256 * unat (512 :: u16)) MAX_PACKET_PAYLOAD_SIZE"
  using window_wraparound [of 0 "0xFFFE0000" 512] by simp

text \<open>
  C22. The handshake: it succeeds exactly when both packets are accepted and the answer has a
  TCP header; it then has queued a SYN with both counters zero and an ACK that takes its
  sequence number from the answer's acknowledgement and its acknowledgement from the answer's
  sequence number, and the connection starts with these counters, the announced window and an
  up-to-date amount.
\<close>
theorem handshake:
  "(\<exists>c. conn_new ops env dev sport dport rx answer q = (Inr c, q')
        \<and> conn_inv c \<and> sent_bytes c = sent \<and> received_bytes c = received \<and> \<not> dropped c
        \<and> conn_source_port c = sport \<and> conn_destination_port c = dport
        \<and> device_last_window_size c = window \<and> device_last_received_bytes c = sent) \<longleftrightarrow>
   (\<exists>p t. answer = Received p \<and> tcp_hdr p = Some t
        \<and> sent = acknowledgment_number t \<and> received = sequence_number t
        \<and> window = window_size t
        \<and> ch_send env q (control_packet ops SYN sport dport 0 0) = Sent
        \<and> ch_send env (q @ [control_packet ops SYN sport dport 0 0])
             (control_packet ops ACK sport dport sent received) = Sent
        \<and> q' = q @ [control_packet ops SYN sport dport 0 0,
                    control_packet ops ACK sport dport sent received])"
  by (auto simp: conn_new_def Let_def conn_inv_def
      split: send_reply.splits recv_reply.splits option.splits)



text \<open>
  C21. Receiving: the connection takes over the packet's sequence number, acknowledgement and
  window, answers it with one ACK packet that acknowledges exactly that sequence number, and
  recomputes the amount it may send.
\<close>
theorem recv_acks:
  assumes "tcp_laws ops" and "tcp_hdr p = Some t"
    and "recv ops env (Received p) c q = (Inr p', c', q')"
  shows "p' = p \<and> received_bytes c' = sequence_number t
     \<and> device_last_received_bytes c' = acknowledgment_number t
     \<and> device_last_window_size c' = window_size t \<and> sent_bytes c' = sent_bytes c \<and> conn_inv c'
     \<and> (\<exists>a h. q' = q @ [a] \<and> payload a = Bytes [] \<and> tcp_hdr a = Some h \<and> ack h
          \<and> acknowledgment_number h = sequence_number t \<and> sequence_number h = sent_bytes c)"
proof -
  let ?c1 = "note_received p c"
  let ?a = "control_packet ops ACK (conn_source_port c) (conn_destination_port c) (sent_bytes c)
     (sequence_number t)"
  have f: "sent_bytes ?c1 = sent_bytes c" "received_bytes ?c1 = sequence_number t"
    "conn_source_port ?c1 = conn_source_port c" "conn_destination_port ?c1 = conn_destination_port c"
    "device_last_received_bytes ?c1 = acknowledgment_number t"
    "device_last_window_size ?c1 = window_size t"
    using assms(2) by (simp_all add: note_received_def Let_def)
  from assms(3) f have R: "p' = p" "c' = update_sendable_bytes ?c1" "q' = q @ [?a]"
    by (auto simp: recv_def conn_ack_def Let_def split: send_reply.splits)
  with f control_packet_shape(3,4) [OF assms(1)] show ?thesis by fastforce
qed

theorem recv_acks_witness:
  "\<exists>p' c' q'. recv rfc_ops (open_env 0) (Received sample_packet) sample_conn [] = (Inr p', c', q')
     \<and> p' = sample_packet \<and> received_bytes c' = sequence_number sample_tcp
     \<and> device_last_received_bytes c' = acknowledgment_number sample_tcp
     \<and> device_last_window_size c' = window_size sample_tcp
     \<and> sent_bytes c' = sent_bytes sample_conn \<and> conn_inv c'
     \<and> (\<exists>a h. q' = [] @ [a] \<and> payload a = Bytes [] \<and> tcp_hdr a = Some h \<and> ack h
          \<and> acknowledgment_number h = sequence_number sample_tcp
          \<and> sequence_number h = sent_bytes sample_conn)"
proof -
  have t: "tcp_hdr sample_packet = Some sample_tcp" by (simp add: sample_packet_def packet_new_def)
  obtain p' c' q' where
    r: "recv rfc_ops (open_env 0) (Received sample_packet) sample_conn [] = (Inr p', c', q')"
    by (simp add: recv_def conn_ack_def Let_def open_env_def)
  from recv_acks [OF rfc_ops_laws t r] r show ?thesis by blast
qed

end
