(* ===== verification/Usb_Device.thy ===== *)
theory Usb_Device
  imports Usb_Conn Usb_Backend Plist
begin

text \<open>
  A device on the USB bus: \<^verbatim>\<open>src/device/usb.rs\<close> and \<^verbatim>\<open>src/device/core.rs\<close>. The record holds
  the counters, the writer queue, the router and the table of connections; a weak reference is
  a handle into \<open>heap\<close>, which has an entry as long as a client holds the connection. The
  reader loop runs over all the bytes the endpoint delivers until it fails; the writer loop
  runs over the packets its channel delivers. What the endpoint answers to a write is a
  parameter that may depend on everything written before.
\<close>

section \<open>State\<close>

datatype out_action = Write bytes | Flush | SubmitEnd

text \<open>\<open>None\<close>: the call succeeds.\<close>

type_synonym out_env = "out_action list \<Rightarrow> out_action \<Rightarrow> io_error option"

definition do_out :: "out_env \<Rightarrow> out_action \<Rightarrow> out_action list \<Rightarrow> (io_error + unit) \<times> out_action list" where
  "do_out env a log = (case env log a of Some e \<Rightarrow> (Inl e, log) | None \<Rightarrow> (Inr (), log @ [a]))"

text \<open>\<open>write_all\<close> of an empty buffer does not reach the endpoint.\<close>

definition write_all :: "out_env \<Rightarrow> bytes \<Rightarrow> out_action list \<Rightarrow> (io_error + unit) \<times> out_action list" where
  "write_all env b log = (if b = [] then (Inr (), log) else do_out env (Write b) log)"

record UsbDevice =
  info :: AnyDeviceInfo
  core_id :: u64
  canceled :: bool
  send_seq :: u16
  recv_seq :: u16
  next_source_port :: u16
  dev_version :: UsbDevicePacketVersion
  w_queue :: wq
  disconnected_tx :: bool
  reports :: "(u64 \<times> u64) list"
  router :: PacketRouter
  dev_conns :: "u16 \<rightharpoonup> nat"
  heap :: "nat \<rightharpoonup> UsbDeviceConn"
  next_conn :: nat
  loops_aborted :: bool
  dev_dropped :: bool

text \<open>The value \<open>new\<close> and \<open>new_from\<close> build once the device is open.\<close>

definition fresh_device :: "AnyDeviceInfo \<Rightarrow> u64 \<Rightarrow> UsbDevicePacketVersion \<Rightarrow> UsbDevice" where
  "fresh_device dinfo i v =
     \<lparr>info = dinfo, core_id = i, canceled = False, send_seq = 1, recv_seq = 0, next_source_port = 1,
      dev_version = v, w_queue = [], disconnected_tx = False, reports = [], router = router_new,
      dev_conns = Map.empty, heap = Map.empty, next_conn = 0, loops_aborted = False,
      dev_dropped = False\<rparr>"

text \<open>\<open>opened\<close> is what opening the device and its endpoints answers.\<close>

definition device_new_from ::
    "RusbmuxError + reader \<Rightarrow> AnyDeviceInfo \<Rightarrow> u64 \<Rightarrow> UsbDevicePacketVersion
       \<Rightarrow> RusbmuxError + UsbDevice" where
  "device_new_from opened dinfo i v =
     (case opened of Inl e \<Rightarrow> Inl e | Inr _ \<Rightarrow> Inr (fresh_device dinfo i v))"

section \<open>Creation\<close>

text \<open>
  Waiting for the answer to the version packet: packets of any other kind are dropped. Every
  packet takes at least a header off the stream, so the loop ends.
\<close>

lemma read_exact_len:
  "read_exact n r = (Inr b, r') \<Longrightarrow> length (avail r') + n = length (avail r)"
  by (auto simp: read_exact_def split: if_splits)

lemma header_from_reader_progress:
  assumes "header_from_reader r = (res, r')" and "\<forall>e. res \<noteq> Inl (ParseError_IO e)"
  shows "length (avail r') < length (avail r)"
  using assms
  by (auto simp: header_from_reader_def split: prod.splits sum.splits UsbDevicePacketProtocol.splits
      dest!: read_exact_len)

lemma tcp_part_from_reader_progress:
  assumes "tcp_part_from_reader ops pr r = (res, r')"
  shows "length (avail r') \<le> length (avail r)"
  using assms
  by (auto simp: tcp_part_from_reader_def read_exact_def split: prod.splits sum.splits if_splits)

lemma read_exact_le: "length (avail (snd (read_exact n r))) \<le> length (avail r)"
  by (simp add: read_exact_def)

lemma packet_from_reader_progress:
  assumes "packet_from_reader ops r = (res, r')" and "\<forall>e. res \<noteq> Err (ParseError_IO e)"
  shows "length (avail r') < length (avail r)"
proof -
  obtain h r1 where h: "header_from_reader r = (h, r1)" by (metis prod.exhaust)
  with assms have "\<forall>e. h \<noteq> Inl (ParseError_IO e)" by (auto simp: packet_from_reader_def)
  with h have r1: "length (avail r1) < length (avail r)" by (rule header_from_reader_progress)
  show ?thesis
  proof (cases h)
    case (Inl e)
    with assms h r1 show ?thesis by (simp add: packet_from_reader_def)
  next
    case (Inr hd)
    show ?thesis
    proof (cases "get_protocol hd")
      case None
      with assms h Inr r1 show ?thesis by (simp add: packet_from_reader_def)
    next
      case (Some pr)
      obtain t r2 where t: "tcp_part_from_reader ops pr r1 = (t, r2)" by (metis prod.exhaust)
      note r2 = tcp_part_from_reader_progress [OF t]
      have "length (avail r') \<le> length (avail r2)"
        using assms(1) h Inr Some t
          read_exact_le [of "unat (get_length hd) - (header_size hd + tcp_hdr_len ops (projr t))" r2]
        by (cases t) (auto simp: packet_from_reader_def Let_def split: if_splits prod.splits sum.splits)
      with r1 r2 show ?thesis by simp
    qed
  qed
qed

function await_version ::
    "tcp_ops \<Rightarrow> reader \<Rightarrow> (ParseError, UsbDevicePacketVersion) outcome \<times> reader" where
  "await_version ops r =
     (case packet_from_reader ops r of
        (Err e, r') \<Rightarrow> (Err e, r')
      | (Panic, r') \<Rightarrow> (Panic, r')
      | (Ok p, r') \<Rightarrow>
          (case payload p of Version v \<Rightarrow> (Ok v, r') | _ \<Rightarrow> await_version ops r'))"
  by pat_completeness auto
termination
  by (relation "measure (\<lambda>(ops, r). length (avail r))")
    (auto dest!: sym [of "(_, _)"] packet_from_reader_progress)

declare await_version.simps [simp del]

definition version_packet :: UsbDevicePacket where
  "version_packet = build_version (payload_version 2 0 (header_version builder_new))"

definition setup_packet :: UsbDevicePacket where
  "setup_packet = build_setup (payload_bytes [0x07] (header_setup builder_new))"

definition send_out ::
    "tcp_ops \<Rightarrow> out_env \<Rightarrow> UsbDevicePacket \<Rightarrow> out_action list \<Rightarrow> (io_error + unit) \<times> out_action list" where
  "send_out ops env p log =
     (case write_all env (encode ops p) log of
        (Inl e, log1) \<Rightarrow> (Inl e, log1)
      | (Inr _, log1) \<Rightarrow> do_out env Flush log1)"

definition device_new ::
    "tcp_ops \<Rightarrow> out_env \<Rightarrow> RusbmuxError + reader \<Rightarrow> AnyDeviceInfo \<Rightarrow> u64
       \<Rightarrow> (RusbmuxError, UsbDevice \<times> reader) outcome \<times> out_action list" where
  "device_new ops env opened dinfo i =
     (case opened of
        Inl e \<Rightarrow> (Err e, [])
      | Inr end_in \<Rightarrow>
          (case send_out ops env version_packet [] of
             (Inl e, log) \<Rightarrow> (Err (IO e), log)
           | (Inr _, log) \<Rightarrow>
               (case await_version ops end_in of
                  (Err e, _) \<Rightarrow> (Err (Parse e), log)
                | (Panic, _) \<Rightarrow> (Panic, log)
                | (Ok v, end_in') \<Rightarrow>
                    (case send_out ops env setup_packet log of
                       (Inl e, log') \<Rightarrow> (Err (IO e), log')
                     | (Inr _, log') \<Rightarrow> (Ok (fresh_device dinfo i v, end_in'), log')))))"

section \<open>Sequence numbers\<close>

definition take_send_seq :: "UsbDevice \<Rightarrow> u16 \<times> UsbDevice" where
  "take_send_seq d = (send_seq d, d\<lparr>send_seq := send_seq d + 1\<rparr>)"

definition get_recv_seq :: "UsbDevice \<Rightarrow> u16" where
  "get_recv_seq d = recv_seq d"

definition increment_recv_seq :: "UsbDevice \<Rightarrow> UsbDevice" where
  "increment_recv_seq d = d\<lparr>recv_seq := recv_seq d + 1\<rparr>"

definition set_disconnected_tx :: "UsbDevice \<Rightarrow> UsbDevice" where
  "set_disconnected_tx d = d\<lparr>disconnected_tx := True\<rparr>"

section \<open>The reader loop\<close>

definition is_rst :: "UsbDevicePacket \<Rightarrow> bool" where
  "is_rst p \<longleftrightarrow> (case tcp_hdr p of None \<Rightarrow> False | Some t \<Rightarrow> rst t)"

text \<open>
  What is done with one packet: a reset is dropped, an error report and everything else is
  routed. \<open>Inl\<close>: the task waits for itself in the router.
\<close>

definition handle_packet :: "router_env \<Rightarrow> UsbDevicePacket \<Rightarrow> UsbDevice \<Rightarrow> u16 + UsbDevice" where
  "handle_packet env p d =
     (let d1 = increment_recv_seq d in
      if is_rst p then Inr d1
      else case payload p of
        Error code msg \<Rightarrow>
          (case route env p (router d1) of
             Routed r \<Rightarrow> Inr (d1\<lparr>router := r\<rparr>)
           | Self_deadlock port \<Rightarrow> Inl port)
      | _ \<Rightarrow>
          (case route env p (router d1) of
             Routed r \<Rightarrow> Inr (d1\<lparr>router := r\<rparr>)
           | Self_deadlock port \<Rightarrow> Inl port))"

text \<open>An I/O error is reported to the watcher, when it has registered.\<close>

definition report_disconnect :: "(nat \<Rightarrow> u64) \<Rightarrow> (u64 \<times> u64) chan_env \<Rightarrow> UsbDevice \<Rightarrow> UsbDevice" where
  "report_disconnect hash denv d =
     (if disconnected_tx d
      then (let msg = (core_id d, opaque_id hash (info d)) in
            case ch_send denv (reports d) msg of
              Sent \<Rightarrow> d\<lparr>reports := reports d @ [msg]\<rparr>
            | SendClosed e \<Rightarrow> d)
      else d)"

datatype reader_end = ReaderClosed io_error | ReaderDeadlocked u16 | ReaderPanicked

function reader_loop ::
    "tcp_ops \<Rightarrow> (nat \<Rightarrow> u64) \<Rightarrow> router_env \<Rightarrow> (u64 \<times> u64) chan_env \<Rightarrow> reader \<Rightarrow> UsbDevice
       \<Rightarrow> reader_end \<times> UsbDevice" where
  "reader_loop ops hash env denv r d =
     (case packet_from_reader ops r of
        (Ok p, r') \<Rightarrow>
          (case handle_packet env p d of
             Inl port \<Rightarrow> (ReaderDeadlocked port, increment_recv_seq d)
           | Inr d' \<Rightarrow> reader_loop ops hash env denv r' d')
      | (Panic, r') \<Rightarrow> (ReaderPanicked, d)
      | (Err e, r') \<Rightarrow>
          (case e of
             ParseError_IO io \<Rightarrow> (ReaderClosed io, report_disconnect hash denv d)
           | _ \<Rightarrow> reader_loop ops hash env denv r' d))"
  by pat_completeness auto
termination
  by (relation "measure (\<lambda>(ops, hash, env, denv, r, d). length (avail r))")
    (auto dest!: sym [of "(_, _)"] packet_from_reader_progress)

declare reader_loop.simps [simp del]

section \<open>The writer loop\<close>

definition stamp :: "UsbDevicePacket \<Rightarrow> UsbDevice \<Rightarrow> UsbDevicePacket \<times> UsbDevice" where
  "stamp p d =
     (case header p of
        V1 h \<Rightarrow> (p, d)
      | V2 h \<Rightarrow>
          (case take_send_seq d of
             (s, d1) \<Rightarrow>
               (p\<lparr>header := V2 (h\<lparr>v2_send_seq := s, v2_recv_seq := get_recv_seq d1\<rparr>)\<rparr>, d1)))"

text \<open>
  The header part of one iteration. The buffer has room for 20 bytes of TCP header, and
  \<open>copy_from_slice\<close> panics when the header has another size.
\<close>

definition write_headers ::
    "tcp_ops \<Rightarrow> out_env \<Rightarrow> UsbDevicePacket \<Rightarrow> out_action list
       \<Rightarrow> (io_error, unit) outcome \<times> out_action list" where
  "write_headers ops env p log =
     (let run = (\<lambda>b. case write_all env b log of
             (Inl e, log1) \<Rightarrow> (Err e, log1) | (Inr _, log1) \<Rightarrow> (Ok (), log1))
      in case header p of
           V1 h \<Rightarrow> run (v1_encode h)
         | V2 h \<Rightarrow>
             (case tcp_hdr p of
                Some t \<Rightarrow>
                  (if length (tcp_to_bytes ops t) = MIN_LEN
                   then run (v2_encode h @ tcp_to_bytes ops t)
                   else (Panic, log))
              | None \<Rightarrow> run (v2_encode h)))"

definition write_packet ::
    "tcp_ops \<Rightarrow> out_env \<Rightarrow> UsbDevicePacket \<Rightarrow> UsbDevice \<Rightarrow> out_action list
       \<Rightarrow> bool \<times> UsbDevice \<times> out_action list" where
  "write_packet ops env packet d log =
     (case stamp packet d of
        (p, d1) \<Rightarrow>
          (case write_headers ops env p log of
             (Panic, log1) \<Rightarrow> (False, d1, log1)
           | (Err e, log1) \<Rightarrow> (True, d1, log1)
           | (Ok _, log1) \<Rightarrow>
               (case write_all env (payload_encode (payload p)) log1 of
                  (_, log2) \<Rightarrow> (case do_out env SubmitEnd log2 of (_, log3) \<Rightarrow> (True, d1, log3)))))"

text \<open>The packets of the channel one by one; \<open>False\<close>: the task has panicked.\<close>

primrec writer_loop ::
    "tcp_ops \<Rightarrow> out_env \<Rightarrow> UsbDevicePacket list \<Rightarrow> UsbDevice \<Rightarrow> out_action list
       \<Rightarrow> bool \<times> UsbDevice \<times> out_action list" where
  "writer_loop ops env [] d log = (True, d, log)"
| "writer_loop ops env (p # ps) d log =
     (case write_packet ops env p d log of
        (False, d1, log1) \<Rightarrow> (False, d1, log1)
      | (True, d1, log1) \<Rightarrow> writer_loop ops env ps d1 log1)"

section \<open>Connections\<close>

definition get_next_source_port :: "UsbDevice \<Rightarrow> (RusbmuxError + u16) \<times> UsbDevice" where
  "get_next_source_port d =
     (let sp = next_source_port d; d1 = d\<lparr>next_source_port := sp + 1\<rparr>
      in (if sp = 0 then Inl RanOutofSourcePort else Inr sp, d1))"

text \<open>The connection is stored for its client, and the device keeps a weak reference.\<close>

definition add_conn :: "UsbDeviceConn \<Rightarrow> UsbDevice \<Rightarrow> nat \<times> UsbDevice" where
  "add_conn c d =
     (let n = next_conn d in
      (n, d\<lparr>heap := (heap d)(n \<mapsto> c), next_conn := Suc n,
            dev_conns := (dev_conns d)(conn_source_port c \<mapsto> n)\<rparr>))"

definition connect ::
    "tcp_ops \<Rightarrow> wenv \<Rightarrow> u16 \<Rightarrow> UsbDevicePacket recv_reply \<Rightarrow> UsbDevice
       \<Rightarrow> (RusbmuxError + nat) \<times> UsbDevice" where
  "connect ops env dport answer d =
     (case get_next_source_port d of
        (Inl e, d1) \<Rightarrow> (Inl e, d1)
      | (Inr sport, d1) \<Rightarrow>
          (case register sport (router d1) of
             (rx, r) \<Rightarrow>
               (let d2 = d1\<lparr>router := r\<rparr> in
                case conn_new ops env (core_id d2) sport dport rx answer (w_queue d2) of
                  (Inl e, q) \<Rightarrow> (Inl e, d2\<lparr>w_queue := q\<rparr>)
                | (Inr c, q) \<Rightarrow>
                    (case add_conn c (d2\<lparr>w_queue := q\<rparr>) of (n, d3) \<Rightarrow> (Inr n, d3)))))"

definition connect_from ::
    "u16 \<Rightarrow> u16 \<Rightarrow> u32 \<Rightarrow> u32 \<Rightarrow> u16 \<Rightarrow> u32 \<Rightarrow> UsbDevice \<Rightarrow> nat \<times> UsbDevice" where
  "connect_from dport sport sent received window device_received d =
     (case register sport (router d) of
        (rx, r) \<Rightarrow>
          add_conn (conn_new_from (core_id d) dport sport sent received window device_received rx)
            (d\<lparr>router := r\<rparr>))"

text \<open>\<open>upgrade\<close>: the connection behind the weak reference of a port, if a client still has it.\<close>

definition upgrade :: "UsbDevice \<Rightarrow> u16 \<Rightarrow> (nat \<times> UsbDeviceConn) option" where
  "upgrade d port =
     (case dev_conns d port of
        None \<Rightarrow> None
      | Some n \<Rightarrow> map_option (Pair n) (heap d n))"

definition cleanup_conn ::
    "tcp_ops \<Rightarrow> wenv \<Rightarrow> UsbDeviceConn \<Rightarrow> UsbDevice \<Rightarrow> (RusbmuxError + unit) \<times> UsbDevice" where
  "cleanup_conn ops env conn d =
     (let port = conn_source_port conn;
          found = upgrade d port;
          d1 = d\<lparr>dev_conns := (dev_conns d)(port := None)\<rparr>
      in case found of
           Some (n, c) \<Rightarrow>
             (if \<not> dropped c
              then (case conn_close ops env c (Some (router d1)) (w_queue d1) of
                      (Inl e, c', _, q) \<Rightarrow> (Inl e, d1\<lparr>heap := (heap d1)(n \<mapsto> c'), w_queue := q\<rparr>)
                    | (Inr _, c', rt, q) \<Rightarrow>
                        (Inr (), d1\<lparr>heap := (heap d1)(n \<mapsto> c'), w_queue := q,
                                    router := unregister port (the rt)\<rparr>))
              else (Inr (), d1\<lparr>router := unregister port (router d1)\<rparr>))
         | None \<Rightarrow> (Inr (), d1\<lparr>router := unregister port (router d1)\<rparr>))"

text \<open>
  The resets of \<open>close_all\<close> and \<open>close_all_blocking\<close>: in the order in which the table is
  walked, up to the first error, which leaves the tables as they are.
\<close>

primrec send_rsts ::
    "(UsbDeviceConn \<Rightarrow> wq \<Rightarrow> (RusbmuxError + unit) \<times> wq) \<Rightarrow> UsbDeviceConn list \<Rightarrow> wq
       \<Rightarrow> (RusbmuxError + unit) \<times> wq" where
  "send_rsts f [] q = (Inr (), q)"
| "send_rsts f (c # cs) q =
     (case f c q of (Inl e, q1) \<Rightarrow> (Inl e, q1) | (Inr _, q1) \<Rightarrow> send_rsts f cs q1)"

definition live_conns :: "((u16 \<rightharpoonup> nat) \<Rightarrow> u16 list) \<Rightarrow> UsbDevice \<Rightarrow> UsbDeviceConn list" where
  "live_conns walk d = map snd (List.map_filter (upgrade d) (walk (dev_conns d)))"

definition close_with ::
    "((u16 \<rightharpoonup> nat) \<Rightarrow> u16 list) \<Rightarrow> (UsbDeviceConn \<Rightarrow> wq \<Rightarrow> (RusbmuxError + unit) \<times> wq)
       \<Rightarrow> UsbDevice \<Rightarrow> (RusbmuxError + unit) \<times> UsbDevice" where
  "close_with walk f d =
     (case send_rsts f (live_conns walk d) (w_queue d) of
        (Inl e, q) \<Rightarrow> (Inl e, d\<lparr>w_queue := q\<rparr>)
      | (Inr _, q) \<Rightarrow>
          (Inr (), d\<lparr>w_queue := q, router := router_clear (router d), dev_conns := Map.empty\<rparr>))"

definition close_all ::
    "tcp_ops \<Rightarrow> wenv \<Rightarrow> ((u16 \<rightharpoonup> nat) \<Rightarrow> u16 list) \<Rightarrow> UsbDevice
       \<Rightarrow> (RusbmuxError + unit) \<times> UsbDevice" where
  "close_all ops env walk d = close_with walk (send_rst ops env) d"

definition close_all_blocking ::
    "tcp_ops \<Rightarrow> wenv \<Rightarrow> ((u16 \<rightharpoonup> nat) \<Rightarrow> u16 list) \<Rightarrow> UsbDevice
       \<Rightarrow> (RusbmuxError + unit) \<times> UsbDevice" where
  "close_all_blocking ops env walk d = close_with walk (send_rst_blocking ops env) d"

definition drop_loops :: "UsbDevice \<Rightarrow> UsbDevice" where
  "drop_loops d = d\<lparr>loops_aborted := True\<rparr>"

definition device_dropped :: "UsbDevice \<Rightarrow> bool" where
  [simp]: "device_dropped d = dev_dropped d"

definition device_set_dropped :: "UsbDevice \<Rightarrow> UsbDevice" where
  [simp]: "device_set_dropped d = d\<lparr>dev_dropped := True\<rparr>"

text \<open>Waiting for the device to be shut down ends (\<open>Some\<close>) once its token is cancelled.\<close>

definition usb_conn_wait_shutdown :: "UsbDevice \<Rightarrow> (RusbmuxError + unit) option" where
  "usb_conn_wait_shutdown d = (if canceled d then Some (Inr ()) else None)"

definition shutdown ::
    "tcp_ops \<Rightarrow> wenv \<Rightarrow> ((u16 \<rightharpoonup> nat) \<Rightarrow> u16 list) \<Rightarrow> UsbDevice
       \<Rightarrow> (RusbmuxError + unit) \<times> UsbDevice" where
  "shutdown ops env walk d =
     close_all ops env walk (drop_loops (device_set_dropped (d\<lparr>canceled := True\<rparr>)))"

definition shutdown_blocking ::
    "tcp_ops \<Rightarrow> wenv \<Rightarrow> ((u16 \<rightharpoonup> nat) \<Rightarrow> u16 list) \<Rightarrow> UsbDevice
       \<Rightarrow> (RusbmuxError + unit) \<times> UsbDevice" where
  "shutdown_blocking ops env walk d =
     close_all_blocking ops env walk (drop_loops (device_set_dropped (d\<lparr>canceled := True\<rparr>)))"

definition device_drop ::
    "tcp_ops \<Rightarrow> wenv \<Rightarrow> ((u16 \<rightharpoonup> nat) \<Rightarrow> u16 list) \<Rightarrow> UsbDevice \<Rightarrow> UsbDevice" where
  "device_drop ops env walk d =
     (if \<not> device_dropped d then snd (shutdown_blocking ops env walk d) else d)"

section \<open>Announcement to clients\<close>

definition usb_create_device_attached ::
    "target_os \<Rightarrow> UsbDevice \<Rightarrow> (RusbmuxError, Value) outcome" where
  "usb_create_device_attached os d =
     (let location = location_id os (info d);
          spd = (case speed (info d) of None \<Rightarrow> 0 | Some s \<Rightarrow> s)
      in and_then (serial_number (info d)) (\<lambda>serial.
         and_then (product_id (info d)) (\<lambda>pid.
           Ok (Dictionary
             [(''DeviceID'', int_u (core_id d)),
              (''MessageType'', String ''Attached''),
              (''Properties'', Dictionary
                [(''ConnectionSpeed'', int_u spd),
                 (''ConnectionType'', String ''USB''),
                 (''DeviceID'', int_u (core_id d)),
                 (''LocationID'', int_u location),
                 (''ProductID'', int_u pid),
                 (''SerialNumber'',
                    String (case serial of None \<Rightarrow> [] | Some s \<Rightarrow> str_of s))])]))))"

section \<open>The reader loop on a stream of packets\<close>

lemma route_open:
  assumes "\<forall>c h m. ch_send (env c) h m = Sent"
  shows "route env p r = Routed (r\<lparr>delivered := (\<lambda>c. delivered r c
     @ (if conns r (route_port p) = Some c then [p] else []))\<rparr>)"
  by (cases "conns r (route_port p)") (auto simp: route_def Let_def assms fun_eq_iff)

lemma handle_packet_open:
  assumes "\<forall>c h m. ch_send (env c) h m = Sent"
  shows "handle_packet env p d = Inr (d\<lparr>recv_seq := recv_seq d + 1,
     router := (router d)\<lparr>delivered := (\<lambda>c. delivered (router d) c
       @ (if \<not> is_rst p \<and> conns (router d) (route_port p) = Some c then [p] else []))\<rparr>\<rparr>)"
  by (simp add: handle_packet_def Let_def increment_recv_seq_def route_open [OF assms]
      split: UsbDevicePacketPayload.splits)

lemma packet_from_reader_short:
  "length (avail r) < 8 \<Longrightarrow> packet_from_reader ops r = (Err (ParseError_IO (at_end r)), r\<lparr>avail := []\<rparr>)"
  by (simp add: packet_from_reader_def header_from_reader_def read_exact_def)

text \<open>The device after the packets \<open>ps\<close> have been handled with every channel open.\<close>

definition after_packets :: "UsbDevicePacket list \<Rightarrow> UsbDevice \<Rightarrow> UsbDevice" where
  "after_packets ps d = d\<lparr>recv_seq := recv_seq d + word_of_nat (length ps),
     router := (router d)\<lparr>delivered := (\<lambda>c. delivered (router d) c
       @ filter (\<lambda>p. \<not> is_rst p \<and> conns (router d) (route_port p) = Some c) ps)\<rparr>\<rparr>"

lemma after_packets_Nil [simp]: "after_packets [] d = d"
  by (simp add: after_packets_def)

lemma after_packets_Cons:
  assumes "\<forall>c h m. ch_send (env c) h m = Sent" and "handle_packet env p d = Inr d'"
  shows "after_packets (p # ps) d = after_packets ps d'"
proof -
  have "(if b then [p] else []) @ xs = (if b then p # xs else xs)" for b xs by simp
  then show ?thesis
    using assms(2) by (auto simp: handle_packet_open [OF assms(1)] after_packets_def algebra_simps)
qed

lemma reader_loop_packets:
  assumes "tcp_laws ops" and "list_all (\<lambda>p. wf_packet p \<and> no_options p) ps"
    and "\<forall>c h m. ch_send (env c) h m = Sent" and "length rest < 8"
  shows "reader_loop ops hash env denv \<lparr>avail = concat (map (encode ops) ps) @ rest, at_end = e\<rparr> d =
     (ReaderClosed e, report_disconnect hash denv (after_packets ps d))"
  using assms(2)
proof (induction ps arbitrary: d)
  case Nil
  then show ?case
    using packet_from_reader_short [of "\<lparr>avail = rest, at_end = e\<rparr>" ops] assms(4)
    by (simp add: reader_loop.simps)
next
  case (Cons p ps)
  let ?s = "concat (map (encode ops) ps) @ rest"
  have pk: "packet_from_reader ops \<lparr>avail = encode ops p @ ?s, at_end = e\<rparr> =
      (Ok p, \<lparr>avail = ?s, at_end = e\<rparr>)"
    using packet_from_reader_encode [OF assms(1), where p = p and s = ?s
        and r = "\<lparr>avail = [], at_end = e\<rparr>"] Cons.prems
    by simp
  obtain d' where d': "handle_packet env p d = Inr d'"
    using handle_packet_open [OF assms(3)] by blast
  show ?case
    using Cons.IH [of d'] Cons.prems after_packets_Cons [OF assms(3) d'] pk d'
    by (subst reader_loop.simps) simp
qed

section \<open>The writer loop on a working endpoint\<close>

text \<open>The bytes written, and the number of times the end of a transfer was submitted.\<close>

fun written :: "out_action list \<Rightarrow> bytes" where
  "written [] = []"
| "written (Write b # log) = b @ written log"
| "written (a # log) = written log"

definition submits :: "out_action list \<Rightarrow> nat" where
  "submits log = length (filter (\<lambda>a. a = SubmitEnd) log)"

text \<open>The packets with the sequence numbers of the device, from send number \<open>s\<close> on.\<close>

fun stamped :: "u16 \<Rightarrow> u16 \<Rightarrow> UsbDevicePacket list \<Rightarrow> UsbDevicePacket list" where
  "stamped s r [] = []"
| "stamped s r (p # ps) =
     (case header p of
        V1 h \<Rightarrow> p # stamped s r ps
      | V2 h \<Rightarrow> p\<lparr>header := V2 (h\<lparr>v2_send_seq := s, v2_recv_seq := r\<rparr>)\<rparr> # stamped (s + 1) r ps)"

lemma written_append [simp]: "written (a @ b) = written a @ written b"
  by (induction a rule: written.induct) auto

lemma submits_append [simp]: "submits (a @ b) = submits a + submits b"
  by (simp add: submits_def)

lemma write_all_ok:
  assumes "\<forall>l a. env l a = None"
  obtains l where "write_all env b log = (Inr (), log @ l)" "written l = b" "submits l = 0"
  by (cases "b = []") (auto simp: write_all_def do_out_def assms submits_def intro: that)

lemma header_only_v2: "header p = V1 h \<Longrightarrow> wf_packet p \<Longrightarrow> tcp_hdr p = None"
  by (auto simp: wf_packet_def wf_shape_def tcp_hdr_ok_def get_protocol_def
      from_u32_unchecked_def split: option.splits if_splits)

lemma write_headers_ok:
  assumes "tcp_laws ops" and "wf_packet p" and "no_options p" and "\<forall>l a. env l a = None"
  obtains l where "write_headers ops env p log = (Ok (), log @ l)"
    "written l = header_encode (header p) @ (case tcp_hdr p of None \<Rightarrow> [] | Some t \<Rightarrow> tcp_to_bytes ops t)"
    "submits l = 0"
proof (cases "header p")
  case (V1 h)
  obtain l where "write_all env (v1_encode h) log = (Inr (), log @ l)" "written l = v1_encode h" "submits l = 0"
    using write_all_ok [OF assms(4)] by blast
  then show ?thesis
    using that [of l] V1 header_only_v2 [OF V1 assms(2)]
    by (simp add: write_headers_def header_encode_cases)
next
  case (V2 h)
  let ?tb = "case tcp_hdr p of None \<Rightarrow> [] | Some t \<Rightarrow> tcp_to_bytes ops t"
  have len: "length (tcp_to_bytes ops t) = MIN_LEN" if "tcp_hdr p = Some t" for t
  proof -
    have "tcp_valid t" using that assms(2) by (auto simp: wf_packet_def wf_shape_def tcp_hdr_ok_def)
    moreover have "options t = []" using that assms(3) by (simp add: no_options_def)
    ultimately show ?thesis using tcp_len [OF assms(1)] by simp
  qed
  obtain l where "write_all env (v2_encode h @ ?tb) log = (Inr (), log @ l)"
    "written l = v2_encode h @ ?tb" "submits l = 0"
    using write_all_ok [OF assms(4)] by blast
  then show ?thesis
    using that [of l] V2 len by (cases "tcp_hdr p") (simp_all add: write_headers_def header_encode_cases)
qed

lemma stamp_wf:
  assumes "stamp p d = (p', d')" and "wf_packet p" and "no_options p"
  shows "wf_packet p'" and "no_options p'" and "payload p' = payload p"
  using assms
  by (auto simp: stamp_def take_send_seq_def wf_packet_def wf_shape_def no_options_def
      get_protocol_def packet_size_def split: UsbDevicePacketHeader.splits)

lemma write_packet_ok:
  assumes "tcp_laws ops" and "wf_packet p" and "no_options p" and "\<forall>l a. env l a = None"
    and "stamp p d = (p', d')"
  obtains l where "write_packet ops env p d log = (True, d', log @ l)"
    "written l = encode ops p'" "submits l = 1"
proof -
  note st = stamp_wf [OF assms(5,2,3)]
  obtain l1 where l1: "write_headers ops env p' log = (Ok (), log @ l1)"
    "written l1 = header_encode (header p') @ (case tcp_hdr p' of None \<Rightarrow> [] | Some t \<Rightarrow> tcp_to_bytes ops t)"
    "submits l1 = 0"
    using write_headers_ok [OF assms(1) st(1,2) assms(4)] by blast
  obtain l2 where l2: "write_all env (payload_encode (payload p')) (log @ l1) = (Inr (), (log @ l1) @ l2)"
    "written l2 = payload_encode (payload p')" "submits l2 = 0"
    using write_all_ok [OF assms(4)] by blast
  show ?thesis
    using that [of "l1 @ l2 @ [SubmitEnd]"] l1 l2 assms(4,5)
    by (simp add: write_packet_def do_out_def submits_def encode_eq split: option.splits)
qed

lemma stamped_Cons:
  assumes "stamp p d = (p', d')"
  shows "stamped (send_seq d) (recv_seq d) (p # ps) = p' # stamped (send_seq d') (recv_seq d') ps"
  using assms by (auto simp: stamp_def take_send_seq_def get_recv_seq_def
      split: UsbDevicePacketHeader.splits)

lemma writer_loop_ok:
  assumes "tcp_laws ops" and "list_all (\<lambda>p. wf_packet p \<and> no_options p) ps"
    and "\<forall>l a. env l a = None"
  shows "\<exists>d' l. writer_loop ops env ps d log = (True, d', log @ l)
     \<and> written l = concat (map (encode ops) (stamped (send_seq d) (recv_seq d) ps))
     \<and> submits l = length ps"
  using assms(2)
proof (induction ps arbitrary: d log)
  case Nil
  then show ?case by (auto simp: submits_def)
next
  case (Cons p ps)
  obtain p' d1 where st: "stamp p d = (p', d1)" by (metis prod.exhaust)
  obtain l1 where l1: "write_packet ops env p d log = (True, d1, log @ l1)"
    "written l1 = encode ops p'" "submits l1 = 1"
    using write_packet_ok [OF assms(1) _ _ assms(3) st] Cons.prems by auto
  obtain d' l2 where "writer_loop ops env ps d1 (log @ l1) = (True, d', (log @ l1) @ l2)
     \<and> written l2 = concat (map (encode ops) (stamped (send_seq d1) (recv_seq d1) ps))
     \<and> submits l2 = length ps"
    using Cons.IH [of d1 "log @ l1"] Cons.prems by auto
  with l1 show ?case
    by (intro exI [of _ d'] exI [of _ "l1 @ l2"]) (simp add: stamped_Cons [OF st] del: stamped.simps)
qed

lemma stamped_wf:
  "list_all (\<lambda>p. wf_packet p \<and> no_options p) ps \<Longrightarrow>
     list_all (\<lambda>p. wf_packet p \<and> no_options p) (stamped s r ps)"
  by (induction s r ps rule: stamped.induct)
    (auto simp: wf_packet_def wf_shape_def no_options_def get_protocol_def packet_size_def
      split: UsbDevicePacketHeader.splits)

lemma length_stamped [simp]: "length (stamped s r ps) = length ps"
  by (induction s r ps rule: stamped.induct) (auto split: UsbDevicePacketHeader.splits)

section \<open>Creation\<close>

lemma await_version_skips:
  assumes "tcp_laws ops" and "list_all (\<lambda>p. wf_packet p \<and> no_options p) ps"
    and "list_all (\<lambda>p. as_version (payload p) = None) ps"
    and "wf_packet p" and "no_options p" and "payload p = Version v"
  shows "await_version ops \<lparr>avail = concat (map (encode ops) ps) @ encode ops p @ rest, at_end = e\<rparr> =
     (Ok v, \<lparr>avail = rest, at_end = e\<rparr>)"
  using assms(2,3)
proof (induction ps)
  case Nil
  then show ?case
    using packet_from_reader_encode [OF assms(1,4,5), where s = rest
        and r = "\<lparr>avail = [], at_end = e\<rparr>"] assms(6)
    by (simp add: await_version.simps)
next
  case (Cons a ps)
  let ?s = "concat (map (encode ops) ps) @ encode ops p @ rest"
  have "packet_from_reader ops \<lparr>avail = encode ops a @ ?s, at_end = e\<rparr> =
      (Ok a, \<lparr>avail = ?s, at_end = e\<rparr>)"
    using packet_from_reader_encode [OF assms(1), where p = a and s = ?s
        and r = "\<lparr>avail = [], at_end = e\<rparr>"] Cons.prems by simp
  with Cons show ?case
    by (subst await_version.simps) (auto split: UsbDevicePacketPayload.splits)
qed

section \<open>The invariant of a device\<close>

text \<open>
  A registered channel has only received packets for its port; a connection's channel exists,
  can only be registered for the connection's port, and has only received packets for it.
\<close>

definition chan_ok :: "PacketRouter \<Rightarrow> bool" where
  "chan_ok r \<longleftrightarrow> router_inv r \<and> (\<forall>port c. conns r port = Some c \<longrightarrow>
     (\<forall>p \<in> set (delivered r c). route_port p = port))"

definition conn_ok :: "PacketRouter \<Rightarrow> UsbDeviceConn \<Rightarrow> bool" where
  "conn_ok r c \<longleftrightarrow> conn_rx c < next_chan r
     \<and> (\<forall>port. conns r port = Some (conn_rx c) \<longrightarrow> port = conn_source_port c)
     \<and> (\<forall>p \<in> set (delivered r (conn_rx c)). route_port p = conn_source_port c)"

definition table_ok :: "UsbDevice \<Rightarrow> bool" where
  "table_ok d \<longleftrightarrow> (\<forall>port n. dev_conns d port = Some n \<longrightarrow> n < next_conn d
     \<and> (\<forall>c. heap d n = Some c \<longrightarrow> conn_source_port c = port))"

definition own_channels :: "UsbDevice \<Rightarrow> bool" where
  "own_channels d \<longleftrightarrow> (\<forall>n m c c'. heap d n = Some c \<longrightarrow> heap d m = Some c' \<longrightarrow>
     conn_rx c = conn_rx c' \<longrightarrow> n = m)"

definition device_inv :: "UsbDevice \<Rightarrow> bool" where
  "device_inv d \<longleftrightarrow> chan_ok (router d) \<and> table_ok d \<and> own_channels d
     \<and> (\<forall>n c. heap d n = Some c \<longrightarrow> n < next_conn d \<and> conn_ok (router d) c)"

lemmas inv_parts = device_inv_def table_ok_def own_channels_def

lemma device_inv_fresh: "device_inv (fresh_device dinfo i v)"
  by (simp add: inv_parts fresh_device_def chan_ok_def router_inv_new) (simp add: router_new_def)

lemma device_inv_cong:
  assumes "device_inv d" and "router d' = router d" and "heap d' = heap d"
    and "next_conn d' = next_conn d" and "dev_conns d' = dev_conns d"
  shows "device_inv d'"
  using assms by (simp add: inv_parts)

lemma device_inv_queue [simp]: "device_inv (d\<lparr>w_queue := q\<rparr>) = device_inv d"
  by (simp add: inv_parts)

text \<open>A new router that is good for the same connections.\<close>

lemma device_inv_router:
  assumes "device_inv d" and "chan_ok r" and "\<And>c. conn_ok (router d) c \<Longrightarrow> conn_ok r c"
  shows "device_inv (d\<lparr>router := r\<rparr>)"
  using assms by (simp add: inv_parts)

lemma shrink_ok:
  assumes "chan_ok r" and "router_inv r'" and "next_chan r' = next_chan r"
    and "delivered r' = delivered r" and "\<And>port c. conns r' port = Some c \<Longrightarrow> conns r port = Some c"
  shows "chan_ok r'" and "\<And>c. conn_ok r c \<Longrightarrow> conn_ok r' c"
  using assms unfolding chan_ok_def conn_ok_def by (metis, metis)

lemma device_inv_shrink:
  assumes "device_inv d" and "router_inv r" and "next_chan r = next_chan (router d)"
    and "delivered r = delivered (router d)"
    and "\<And>port c. conns r port = Some c \<Longrightarrow> conns (router d) port = Some c"
  shows "device_inv (d\<lparr>router := r\<rparr>)"
proof -
  have ok: "chan_ok (router d)" using assms(1) by (simp add: device_inv_def)
  show ?thesis
    using device_inv_router [OF assms(1) shrink_ok(1) [OF ok assms(2-5)]]
      shrink_ok(2) [OF ok assms(2-5)] by blast
qed

lemma device_inv_router_inv: "device_inv d \<Longrightarrow> router_inv (router d)"
  by (simp add: device_inv_def chan_ok_def)

lemma device_inv_conns_sub:
  assumes "device_inv d" and "\<And>port n. m port = Some n \<Longrightarrow> dev_conns d port = Some n"
  shows "device_inv (d\<lparr>dev_conns := m\<rparr>)"
proof -
  have "table_ok (d\<lparr>dev_conns := m\<rparr>)" using assms by (fastforce simp: device_inv_def table_ok_def)
  with assms(1) show ?thesis by (simp add: device_inv_def own_channels_def)
qed

lemma device_inv_heap_update:
  assumes "device_inv d" and "heap d n = Some c" and "conn_rx c' = conn_rx c"
    and "conn_source_port c' = conn_source_port c"
  shows "device_inv (d\<lparr>heap := (heap d)(n \<mapsto> c')\<rparr>)"
proof -
  have "table_ok (d\<lparr>heap := (heap d)(n \<mapsto> c')\<rparr>)" using assms by (auto simp: inv_parts)
  moreover have "own_channels (d\<lparr>heap := (heap d)(n \<mapsto> c')\<rparr>)"
    using assms unfolding inv_parts by (simp; metis)
  moreover have "conn_ok (router d) c'" using assms by (auto simp: device_inv_def conn_ok_def)
  ultimately show ?thesis using assms(1,2) by (auto simp: device_inv_def)
qed

lemma device_inv_release:
  assumes "device_inv d"
  shows "device_inv (d\<lparr>heap := (heap d)(n := None)\<rparr>)"
  using assms by (auto simp: inv_parts)

lemma device_inv_unregister:
  "device_inv d \<Longrightarrow> device_inv (d\<lparr>router := unregister port (router d)\<rparr>)"
  by (rule device_inv_shrink)
    (auto simp: router_inv_unregister device_inv_router_inv split: if_splits)

lemma register_ok:
  assumes "chan_ok r" and "register port r = (rx, r')"
  shows "chan_ok r'" and "\<And>c. conn_ok r c \<Longrightarrow> conn_ok r' c \<and> conn_rx c \<noteq> rx"
    and "conn_rx c = rx \<Longrightarrow> conn_source_port c = port \<Longrightarrow> conn_ok r' c"
proof -
  have r: "rx = next_chan r" "r' = snd (register port r)"
    using assms(2) by (metis fst_conv register_fields(1), metis snd_conv)
  have ri: "router_inv r" using assms(1) by (simp add: chan_ok_def)
  then have empty: "delivered r (next_chan r) = []"
    and below: "\<And>q c. conns r q = Some c \<Longrightarrow> c < next_chan r"
    by (simp_all add: router_inv_def)
  show "chan_ok r'"
    using assms(1) router_inv_register [OF ri] empty by (auto simp: chan_ok_def r)
  show "conn_ok r c \<Longrightarrow> conn_ok r' c \<and> conn_rx c \<noteq> rx" for c
    by (auto simp: conn_ok_def r)
  show "conn_rx c = rx \<Longrightarrow> conn_source_port c = port \<Longrightarrow> conn_ok r' c"
    using empty by (auto simp: conn_ok_def r dest: below)
qed

lemma device_inv_register:
  assumes "device_inv d" and "register port (router d) = (rx, r)"
  shows "device_inv (d\<lparr>router := r\<rparr>)"
  using device_inv_router [OF assms(1)] register_ok [OF _ assms(2)] assms(1)
  by (simp add: device_inv_def)

lemma device_inv_registered_conn:
  assumes "device_inv d" and "register sport (router d) = (rx, r)" and "conn_rx c = rx"
    and "conn_source_port c = sport"
  shows "device_inv (snd (add_conn c (d\<lparr>router := r, w_queue := q\<rparr>)))"
proof -
  have ok: "chan_ok (router d)" using assms(1) by (simp add: device_inv_def)
  note reg = register_ok [OF ok assms(2)]
  have old: "\<And>n c'. heap d n = Some c' \<Longrightarrow> n < next_conn d \<and> conn_ok r c' \<and> conn_rx c' \<noteq> rx"
    using assms(1) reg(2) by (simp add: device_inv_def)
  have own: "own_channels (snd (add_conn c (d\<lparr>router := r, w_queue := q\<rparr>)))"
    using assms(1) old assms(3) unfolding inv_parts add_conn_def Let_def by simp (metis old)
  have tab: "table_ok (snd (add_conn c (d\<lparr>router := r, w_queue := q\<rparr>)))"
    using assms(1) by (auto simp: inv_parts add_conn_def Let_def less_Suc_eq)
  show ?thesis
    using own tab reg(1) reg(3) [OF assms(3,4)] old
    by (auto simp: device_inv_def add_conn_def Let_def less_Suc_eq)
qed

lemma conn_new_keeps:
  "conn_new ops env dev sp dp rx answer q = (Inr c, q') \<Longrightarrow> conn_rx c = rx \<and> conn_source_port c = sp"
  by (auto simp: conn_new_def Let_def split: send_reply.splits recv_reply.splits option.splits)

lemma device_inv_connect:
  assumes "device_inv d" and "connect ops env dport answer d = (res, d')"
  shows "device_inv d'"
proof -
  let ?d1 = "d\<lparr>next_source_port := next_source_port d + 1\<rparr>"
  have d1: "device_inv ?d1" using assms(1) by (rule device_inv_cong) simp_all
  obtain rx r where reg: "register (next_source_port d) (router ?d1) = (rx, r)" by (metis prod.exhaust)
  obtain a q where cn: "conn_new ops env (core_id d) (next_source_port d) dport rx answer (w_queue d) = (a, q)"
    by (metis prod.exhaust)
  show ?thesis
  proof (cases "next_source_port d = 0")
    case True
    with assms(2) d1 show ?thesis by (auto simp: connect_def get_next_source_port_def Let_def)
  next
    case False
    show ?thesis
    proof (cases a)
      case (Inl e)
      with False assms(2) reg cn device_inv_register [OF d1 reg] show ?thesis
        by (auto simp: connect_def get_next_source_port_def Let_def)
    next
      case (Inr c)
      with False assms(2) reg cn device_inv_registered_conn [OF d1 reg, of c q] conn_new_keeps
      show ?thesis
        by (auto simp: connect_def get_next_source_port_def Let_def split: prod.splits)
    qed
  qed
qed

lemma device_inv_connect_from:
  assumes "device_inv d" and "connect_from dp sp s rc w dr d = (n, d')"
  shows "device_inv d'"
proof -
  obtain rx r where reg: "register sp (router d) = (rx, r)" by (metis prod.exhaust)
  with assms device_inv_registered_conn [OF assms(1) reg, of
      "conn_new_from (core_id d) dp sp s rc w dr rx" "w_queue d"]
  show ?thesis by (simp add: connect_from_def conn_new_from_def)
qed

lemma device_inv_route:
  assumes "device_inv d" and "route env p (router d) = Routed r"
  shows "device_inv (d\<lparr>router := r\<rparr>)"
proof (cases "conns (router d) (route_port p)")
  case None
  with route_unknown [OF None, of env] assms show ?thesis by simp
next
  case (Some c)
  have ok: "chan_ok (router d)" using assms(1) by (simp add: device_inv_def)
  have same: "conns r = conns (router d)" "next_chan r = next_chan (router d)"
    "delivered r = (delivered (router d))(c := delivered (router d) c @ [p])"
    using route_Routed [OF assms(2)] route_delivered [OF assms(2) Some] by simp_all
  have ri: "router_inv r" and inj: "\<And>q. conns (router d) q = Some c \<Longrightarrow> q = route_port p"
    using router_inv_route [OF _ assms(2)] ok Some unfolding chan_ok_def router_inv_def by blast+
  have "chan_ok r"
    using ok ri inj unfolding chan_ok_def same by (simp; metis)
  moreover have "conn_ok r c'" if "conn_ok (router d) c'" for c'
    using that Some unfolding conn_ok_def same by (simp; blast)
  ultimately show ?thesis using device_inv_router [OF assms(1)] by blast
qed

lemma device_inv_packet:
  assumes "device_inv d" and "handle_packet env p d = Inr d'"
  shows "device_inv d'"
proof -
  have d1: "device_inv (increment_recv_seq d)"
    using assms(1) by (rule device_inv_cong) (simp_all add: increment_recv_seq_def)
  show ?thesis
    using assms(2) d1 device_inv_route [OF d1]
    by (auto simp: handle_packet_def Let_def split: if_splits UsbDevicePacketPayload.splits
        route_outcome.splits)
qed

lemma device_inv_close_with:
  assumes "device_inv d" and "close_with walk f d = (res, d')"
  shows "device_inv d'"
proof -
  have "device_inv (d\<lparr>router := router_clear (router d)\<rparr>)"
    by (rule device_inv_shrink [OF assms(1)])
      (simp_all add: router_inv_clear device_inv_router_inv [OF assms(1)], simp_all add: router_clear_def)
  then have "device_inv ((d\<lparr>router := router_clear (router d)\<rparr>)\<lparr>dev_conns := Map.empty\<rparr>)"
    by (rule device_inv_conns_sub) simp
  then have "device_inv (d\<lparr>w_queue := q, router := router_clear (router d), dev_conns := Map.empty\<rparr>)" for q
    by (rule device_inv_cong) simp_all
  with assms show ?thesis
    by (auto simp: close_with_def split: prod.splits sum.splits)
qed

lemma device_inv_cleanup:
  assumes "device_inv d" and "cleanup_conn ops env conn d = (res, d')"
  shows "device_inv d'"
proof -
  let ?port = "conn_source_port conn"
  let ?d1 = "d\<lparr>dev_conns := (dev_conns d)(?port := None)\<rparr>"
  have d1: "device_inv ?d1"
    by (rule device_inv_conns_sub [OF assms(1)]) (simp split: if_splits)
  have plain: "device_inv (?d1\<lparr>router := unregister ?port (router ?d1)\<rparr>)"
    by (rule device_inv_unregister [OF d1])
  show ?thesis
  proof (cases "upgrade d ?port")
    case None
    with assms(2) plain show ?thesis by (auto simp: cleanup_conn_def Let_def)
  next
    case (Some nc)
    obtain n c where nc: "nc = (n, c)" by force
    with Some have held: "heap ?d1 n = Some c" and port: "conn_source_port c = ?port"
      using assms(1) by (auto simp: upgrade_def device_inv_def table_ok_def split: option.splits)
    obtain a c' rt q where cl: "conn_close ops env c (Some (router d)) (w_queue d) = (a, c', rt, q)"
      by (metis prod_cases4)
    have keeps: "conn_rx c' = conn_rx c" "conn_source_port c' = conn_source_port c"
      "a = Inr () \<Longrightarrow> rt = Some (unregister (conn_source_port c) (router d))"
      using cl by (auto simp: conn_close_def Let_def split: prod.splits sum.splits)
    have upd: "device_inv (?d1\<lparr>heap := (heap ?d1)(n \<mapsto> c')\<rparr>)"
      by (rule device_inv_heap_update [OF d1 held keeps(1,2)])
    then have upd2: "device_inv ((?d1\<lparr>heap := (heap ?d1)(n \<mapsto> c')\<rparr>)
        \<lparr>router := unregister ?port (router (?d1\<lparr>heap := (heap ?d1)(n \<mapsto> c')\<rparr>))\<rparr>)"
      by (rule device_inv_unregister)
    have twice: "unregister ?port (unregister ?port (router d)) = unregister ?port (router d)"
      by (simp add: unregister_def)
    show ?thesis
    proof (cases "dropped c")
      case True
      with assms(2) plain Some nc show ?thesis by (auto simp: cleanup_conn_def Let_def)
    next
      case False
      show ?thesis
      proof (cases a)
        case (Inl e)
        with False assms(2) Some nc cl have
          "d' = ?d1\<lparr>heap := (heap ?d1)(n \<mapsto> c'), w_queue := q\<rparr>"
          by (auto simp: cleanup_conn_def Let_def)
        with upd show ?thesis by simp
      next
        case (Inr u)
        with False assms(2) Some nc cl keeps(3) port twice have
          "d' = ?d1\<lparr>heap := (heap ?d1)(n \<mapsto> c'), w_queue := q, router := unregister ?port (router d)\<rparr>"
          by (auto simp: cleanup_conn_def Let_def)
        with upd2 show ?thesis by (auto intro: device_inv_cong)
      qed
    qed
  qed
qed

section \<open>Everything that can happen to a device\<close>

text \<open>
  The steps of a device: its own operations, the packets that arrive, and what the clients do
  with the connections they hold (send, receive, give up a receive half way, close, and release,
  which runs the destructor).
\<close>

inductive dev_step :: "tcp_ops \<Rightarrow> UsbDevice \<Rightarrow> UsbDevice \<Rightarrow> bool" for ops where
  connects: "connect ops env dport answer d = (res, d') \<Longrightarrow> dev_step ops d d'"
| connects_from: "connect_from dp sp s rc w dr d = (n, d') \<Longrightarrow> dev_step ops d d'"
| packet: "handle_packet renv p d = Inr d' \<Longrightarrow> dev_step ops d d'"
| stamps: "take_send_seq d = (s, d') \<Longrightarrow> dev_step ops d d'"
| cleans: "cleanup_conn ops env c d = (res, d') \<Longrightarrow> dev_step ops d d'"
| shuts: "shutdown ops env walk d = (res, d') \<Longrightarrow> dev_step ops d d'"
| drops: "device_drop ops env walk d = d' \<Longrightarrow> dev_step ops d d'"
| sends: "heap d n = Some c \<Longrightarrow> send_bytes ops env v c (w_queue d) = (res, c', q) \<Longrightarrow>
    dev_step ops d (d\<lparr>heap := (heap d)(n \<mapsto> c'), w_queue := q\<rparr>)"
| receives: "heap d n = Some c \<Longrightarrow> recv ops env answer c (w_queue d) = (res', c', q) \<Longrightarrow>
    dev_step ops d (d\<lparr>heap := (heap d)(n \<mapsto> c'), w_queue := q\<rparr>)"
| abandons: "heap d n = Some c \<Longrightarrow>
    dev_step ops d (d\<lparr>heap := (heap d)(n \<mapsto> note_received p c)\<rparr>)"
| closes: "heap d n = Some c \<Longrightarrow>
    conn_close ops env c (Some (router d)) (w_queue d) = (res, c', Some r, q) \<Longrightarrow>
    dev_step ops d (d\<lparr>heap := (heap d)(n \<mapsto> c'), router := r, w_queue := q\<rparr>)"
| releases: "heap d n = Some c \<Longrightarrow>
    conn_drop ops env c (Some (router d)) (w_queue d) = (Some r, q) \<Longrightarrow>
    dev_step ops d (d\<lparr>heap := (heap d)(n := None), router := r, w_queue := q\<rparr>)"

inductive_cases dev_stepE: "dev_step ops d d'"

lemma send_bytes_keeps:
  "send_bytes ops env v c q = (res, c', q') \<Longrightarrow> conn_rx c' = conn_rx c \<and> conn_source_port c' = conn_source_port c"
  by (auto simp: send_bytes_def send_packet_def Let_def split: send_reply.splits)

lemma recv_keeps:
  "recv ops env answer c q = (res, c', q') \<Longrightarrow> conn_rx c' = conn_rx c \<and> conn_source_port c' = conn_source_port c"
  by (auto simp: recv_def note_received_def Let_def
      split: recv_reply.splits prod.splits sum.splits option.splits)

lemma note_received_keeps:
  "conn_rx (note_received p c) = conn_rx c" "conn_source_port (note_received p c) = conn_source_port c"
  "sendable_bytes (note_received p c) = sendable_bytes c"
  by (simp_all add: note_received_def Let_def split: option.splits)

lemma conn_close_router:
  "conn_close ops env c (Some r) q = (res, c', Some r', q') \<Longrightarrow>
     conn_rx c' = conn_rx c \<and> conn_source_port c' = conn_source_port c
     \<and> (r' = r \<or> r' = unregister (conn_source_port c) r)"
  by (auto simp: conn_close_def Let_def split: prod.splits sum.splits)

lemma conn_drop_router:
  "conn_drop ops env c (Some r) q = (Some r', q') \<Longrightarrow> r' = r \<or> r' = unregister (conn_source_port c) r"
  by (auto simp: conn_drop_def close_blocking_def Let_def split: prod.splits sum.splits if_splits)

lemma device_inv_router_change:
  assumes "device_inv d" and "r = router d \<or> r = unregister port (router d)"
  shows "device_inv (d\<lparr>router := r\<rparr>)"
  using assms(2)
proof
  assume "r = router d"
  with assms(1) show ?thesis by simp
next
  assume "r = unregister port (router d)"
  with device_inv_unregister [OF assms(1)] show ?thesis by simp
qed

lemma device_inv_shutdown:
  assumes "device_inv d" and "shutdown ops env walk d = (res, d') \<or> shutdown_blocking ops env walk d = (res, d')"
  shows "device_inv d'"
proof -
  have "device_inv (drop_loops (d\<lparr>canceled := True, dev_dropped := True\<rparr>))"
    using assms(1) by (rule device_inv_cong) (simp_all add: drop_loops_def)
  with assms(2) show ?thesis
    by (auto simp: shutdown_def shutdown_blocking_def close_all_def close_all_blocking_def
        intro: device_inv_close_with)
qed

lemma device_inv_step:
  assumes "device_inv d" and "dev_step ops d d'"
  shows "device_inv d'"
  using assms(2)
proof (cases rule: dev_step.cases)
  case (connects env dport answer res)
  with assms(1) show ?thesis by (rule device_inv_connect)
next
  case (connects_from dp sp s rc w dr n)
  with assms(1) show ?thesis by (rule device_inv_connect_from)
next
  case (packet renv p)
  with assms(1) show ?thesis by (rule device_inv_packet)
next
  case (stamps s)
  with assms(1) show ?thesis by (auto simp: take_send_seq_def intro: device_inv_cong)
next
  case (cleans env c res)
  with assms(1) show ?thesis by (rule device_inv_cleanup)
next
  case (shuts env walk res)
  with assms(1) device_inv_shutdown show ?thesis by blast
next
  case (drops env walk)
  have "device_inv (snd (shutdown_blocking ops env walk d))"
    using device_inv_shutdown [OF assms(1) disjI2 [OF prod.collapse [symmetric]]] .
  with drops assms(1) show ?thesis by (auto simp: device_drop_def)
next
  case (sends n c env v res c' q)
  then show ?thesis
    using device_inv_heap_update [OF assms(1) sends(2)] send_bytes_keeps [OF sends(3)]
    by (auto intro: device_inv_cong)
next
  case (receives n c env answer res' c' q)
  then show ?thesis
    using device_inv_heap_update [OF assms(1) receives(2)] recv_keeps [OF receives(3)]
    by (auto intro: device_inv_cong)
next
  case (abandons n c p)
  then show ?thesis
    using device_inv_heap_update [OF assms(1) abandons(2)] note_received_keeps by metis
next
  case (closes n c env res c' r q)
  note cl = conn_close_router [OF closes(3)]
  have "device_inv (d\<lparr>heap := (heap d)(n \<mapsto> c')\<rparr>)"
    using device_inv_heap_update [OF assms(1) closes(2)] cl by blast
  then have "device_inv ((d\<lparr>heap := (heap d)(n \<mapsto> c')\<rparr>)\<lparr>router := r\<rparr>)"
    by (rule device_inv_router_change) (use cl in auto)
  with closes(1) show ?thesis by (auto intro: device_inv_cong)
next
  case (releases n c env r q)
  note dr = conn_drop_router [OF releases(3)]
  have "device_inv ((d\<lparr>heap := (heap d)(n := None)\<rparr>)\<lparr>router := r\<rparr>)"
    by (rule device_inv_router_change [OF device_inv_release [OF assms(1)]]) (use dr in auto)
  with releases(1) show ?thesis by (auto intro: device_inv_cong)
qed

interpretation dev_machine: machine "\<lambda>d. \<exists>dinfo i v. d = fresh_device dinfo i v" "dev_step ops"
  device_inv for ops
  by unfold_locales (auto simp: device_inv_fresh device_inv_step)

section \<open>Properties of the loops\<close>

text \<open>
  C11. The reader loop delivers: on a stream of packets (and a rest too short for a header) with
  every channel open, it reads all of them, gives every connection exactly the packets addressed
  to its port that are not resets, in the order of the stream, counts them all, and ends with
  the endpoint's error, which it reports once.
\<close>
theorem reader_loop_delivers:
  assumes "tcp_laws ops" and "list_all (\<lambda>p. wf_packet p \<and> no_options p) ps"
    and "\<forall>c h m. ch_send (env c) h m = Sent" and "length rest < 8"
    and "reader_loop ops hash env denv
       \<lparr>avail = concat (map (encode ops) ps) @ rest, at_end = e\<rparr> d = (res, d')"
  shows "res = ReaderClosed e
     \<and> (\<forall>c. delivered (router d') c = delivered (router d) c
          @ filter (\<lambda>p. \<not> is_rst p \<and> conns (router d) (route_port p) = Some c) ps)
     \<and> conns (router d') = conns (router d)
     \<and> recv_seq d' = recv_seq d + word_of_nat (length ps)
     \<and> reports d' = reports d @
          (if disconnected_tx d \<and> ch_send denv (reports d) (core_id d, opaque_id hash (info d)) = Sent
           then [(core_id d, opaque_id hash (info d))] else [])"
  using assms(5) reader_loop_packets [OF assms(1,2) _ assms(4), of env hash denv e d] assms(3)
  by (auto simp: report_disconnect_def after_packets_def Let_def split: send_reply.splits)

definition sample_device :: UsbDevice where
  "sample_device = snd (connect_from 62078 62078 0 0 512 0
     (set_disconnected_tx (fresh_device (Nusb sample_nusb) 3 (version_new 2 0 0))))"

theorem reader_loop_delivers_witness:
  "let (res, d') = reader_loop rfc_ops word_of_nat open_env
       \<lparr>ch_send = (\<lambda>_ _. Sent), ch_try_send = (\<lambda>_ _. TrySent)\<rparr>
       \<lparr>avail = concat (map (encode rfc_ops) [sample_error, sample_packet]) @ [0, 0],
        at_end = IoError BrokenPipe []\<rparr> sample_device
   in res = ReaderClosed (IoError BrokenPipe []) \<and> recv_seq d' = 2
      \<and> delivered (router d') 0 = [sample_packet] \<and> reports d' = [(3, 7)]"
proof -
  obtain res d' where r: "reader_loop rfc_ops word_of_nat open_env
       \<lparr>ch_send = (\<lambda>_ _. Sent), ch_try_send = (\<lambda>_ _. TrySent)\<rparr>
       \<lparr>avail = concat (map (encode rfc_ops) [sample_error, sample_packet]) @ [0, 0],
        at_end = IoError BrokenPipe []\<rparr> sample_device = (res, d')"
    by (metis prod.exhaust)
  have ports: "route_port sample_error = 0" "route_port sample_packet = 62078"
    "\<not> is_rst sample_packet"
    using rfc_ops_laws
    by (simp_all add: route_port_def sample_error_def sample_packet_def packet_new_def is_rst_def
        sample_tcp_def tcp_laws_def tcp_new_law_def)
  have dev: "conns (router sample_device) = [62078 \<mapsto> 0]" "delivered (router sample_device) 0 = []"
    "recv_seq sample_device = 0" "reports sample_device = []" "disconnected_tx sample_device"
    "core_id sample_device = 3" "opaque_id word_of_nat (info sample_device) = 7"
    by (simp_all add: sample_device_def connect_from_def register_def add_conn_def Let_def
        set_disconnected_tx_def fresh_device_def router_new_def sample_nusb_def)
  show ?thesis
    using reader_loop_delivers [OF rfc_ops_laws _ _ _ r] r
    by (simp add: wf_sample_error wf_sample_packet open_env_def ports dev)
qed

text \<open>
  C12. The writer loop is equivalent to the encoder: on a working endpoint the bytes it writes
  for a queue of packets are exactly the encodings of these packets with the device's sequence
  numbers filled in, one transfer end per packet; reading them back gives the stamped packets.
\<close>
theorem writer_loop_encodes:
  assumes "tcp_laws ops" and "list_all (\<lambda>p. wf_packet p \<and> no_options p) ps"
    and "\<forall>l a. env l a = None" and "writer_loop ops env ps d [] = (ok, d', log)"
  shows "ok \<and> written log = concat (map (encode ops) (stamped (send_seq d) (recv_seq d) ps))
     \<and> submits log = length ps
     \<and> parse_n (reader_parse ops e) (length ps) (written log) =
         (stamped (send_seq d) (recv_seq d) ps, [])"
proof -
  let ?ps = "stamped (send_seq d) (recv_seq d) ps"
  have "ok \<and> written log = concat (map (encode ops) ?ps) \<and> submits log = length ps"
    using writer_loop_ok [OF assms(1,2), of env d "[]"] assms(3,4) by auto
  moreover have "list_all (\<lambda>p. tcp_laws ops \<and> wf_packet p \<and> no_options p) ?ps"
    using stamped_wf [OF assms(2)] assms(1) by (simp add: list_all_iff)
  ultimately show ?thesis
    using reader_frames.parse_n_concat [of ops ?ps e "[]"] by simp
qed

theorem writer_loop_encodes_witness:
  "let (ok, d', log) = writer_loop rfc_ops (\<lambda>_ _. None) [sample_packet, sample_error] sample_device []
   in ok \<and> submits log = 2
      \<and> parse_n (reader_parse rfc_ops (IoError UnexpectedEof [])) 2 (written log) =
         (stamped 1 0 [sample_packet, sample_error], [])"
proof -
  obtain ok d' log where w: "writer_loop rfc_ops (\<lambda>_ _. None) [sample_packet, sample_error]
      sample_device [] = (ok, d', log)" by (metis prod_cases3)
  have "send_seq sample_device = 1" "recv_seq sample_device = 0"
    by (simp_all add: sample_device_def connect_from_def register_def add_conn_def Let_def
        set_disconnected_tx_def fresh_device_def)
  with writer_loop_encodes [OF rfc_ops_laws _ _ w, of "IoError UnexpectedEof []"]
  have "ok \<and> submits log = 2
      \<and> parse_n (reader_parse rfc_ops (IoError UnexpectedEof [])) 2 (written log) =
         (stamped 1 0 [sample_packet, sample_error], [])"
    by (auto simp: wf_sample_error wf_sample_packet numeral_2_eq_2
        simp del: parse_n.simps stamped.simps writer_loop.simps)
  then show ?thesis unfolding w by simp
qed

section \<open>Properties of the device\<close>

text \<open>
  C4. Isolation: whatever sequence of connects, packets, sends, receives, closes, cleanups and
  shutdowns a device has gone through since it was created, a connection a client holds has only
  been given packets addressed to its own source port, and no two connections share a channel,
  also when source ports have been reused.
\<close>
theorem device_isolation:
  assumes "(dev_step ops)\<^sup>*\<^sup>* (fresh_device dinfo i v) d" and "heap d n = Some c"
  shows "(\<forall>p \<in> set (delivered (router d) (conn_rx c)). route_port p = conn_source_port c)
     \<and> (\<forall>m c'. heap d m = Some c' \<and> conn_rx c' = conn_rx c \<longrightarrow> m = n)"
proof -
  have "device_inv d" by (rule dev_machine.reach_inv [OF _ assms(1)]) blast
  with assms(2) show ?thesis unfolding device_inv_def conn_ok_def own_channels_def by blast
qed

theorem device_isolation_witness:
  "\<exists>d c. (dev_step rfc_ops)\<^sup>*\<^sup>* (fresh_device (Nusb sample_nusb) 3 (version_new 2 0 0)) d
     \<and> heap d 0 = Some c \<and> delivered (router d) (conn_rx c) = [sample_packet]
     \<and> route_port sample_packet = conn_source_port c"
proof -
  let ?d0 = "fresh_device (Nusb sample_nusb) 3 (version_new 2 0 0)"
  obtain n d1 where c1: "connect_from 62078 62078 0 0 512 0 ?d0 = (n, d1)" by (metis prod.exhaust)
  obtain d2 where c2: "handle_packet open_env sample_packet d1 = Inr d2"
    using handle_packet_open [of open_env sample_packet d1] by (auto simp: open_env_def)
  have r: "(dev_step rfc_ops)\<^sup>*\<^sup>* ?d0 d2"
    using dev_step.connects_from [OF c1] dev_step.packet [OF c2]
    by (meson converse_rtranclp_into_rtranclp rtranclp.rtrancl_refl)
  have ports: "route_port sample_packet = 62078" "\<not> is_rst sample_packet"
    using rfc_ops_laws
    by (simp_all add: route_port_def sample_packet_def packet_new_def is_rst_def
        sample_tcp_def tcp_laws_def tcp_new_law_def)
  have h: "heap d2 0 = Some (conn_new_from 3 62078 62078 0 0 512 0 0)"
    and del: "delivered (router d2) 0 = [sample_packet]"
    using c1 c2 ports handle_packet_open [of open_env sample_packet d1]
    by (auto simp: open_env_def connect_from_def register_def add_conn_def Let_def
        fresh_device_def router_new_def)
  from device_isolation [OF r h] r h del show ?thesis
    by (intro exI [of _ d2]) (simp add: conn_new_from_def)
qed

text \<open>
  C24. Opening a device: on a working endpoint whose stream has, after any packets of other
  kinds, a version packet, the device is created with that version and the stream right behind
  that packet; what was written is the encoded version request followed by the encoded setup
  packet.
\<close>
theorem device_new_handshake:
  assumes "tcp_laws ops" and "list_all (\<lambda>p. wf_packet p \<and> no_options p) (ps @ [p])"
    and "list_all (\<lambda>p. as_version (payload p) = None) ps" and "payload p = Version v"
    and "\<forall>l a. env l a = None"
    and "device_new ops env
       (Inr \<lparr>avail = concat (map (encode ops) (ps @ [p])) @ rest, at_end = e\<rparr>) dinfo i = (res, log)"
  shows "res = Ok (fresh_device dinfo i v, \<lparr>avail = rest, at_end = e\<rparr>)
     \<and> written log = encode ops version_packet @ encode ops setup_packet"
proof -
  have aw: "await_version ops \<lparr>avail = concat (map (encode ops) (ps @ [p])) @ rest, at_end = e\<rparr> =
      (Ok v, \<lparr>avail = rest, at_end = e\<rparr>)"
    using await_version_skips [OF assms(1) _ assms(3) _ _ assms(4)] assms(2) by simp
  have send: "\<exists>l. send_out ops env q log0 = (Inr (), log0 @ l) \<and> written l = encode ops q" for q log0
  proof -
    obtain l where "write_all env (encode ops q) log0 = (Inr (), log0 @ l)" "written l = encode ops q"
      using write_all_ok [OF assms(5)] by blast
    then show ?thesis
      by (intro exI [of _ "l @ [Flush]"]) (simp add: send_out_def do_out_def assms(5))
  qed
  from send [of version_packet "[]"] obtain l1 where
    l1: "send_out ops env version_packet [] = (Inr (), l1)" "written l1 = encode ops version_packet" by auto
  from send [of setup_packet l1] obtain l2 where
    "send_out ops env setup_packet l1 = (Inr (), l1 @ l2)" "written l2 = encode ops setup_packet" by auto
  with l1 aw assms(6) show ?thesis by (auto simp: device_new_def)
qed

theorem device_new_handshake_witness:
  "\<exists>log. device_new rfc_ops (\<lambda>_ _. None)
       (Inr \<lparr>avail = concat (map (encode rfc_ops) ([sample_error] @ [version_packet])) @ [1, 2],
             at_end = IoError UnexpectedEof []\<rparr>) (Nusb sample_nusb) 3 =
     (Ok (fresh_device (Nusb sample_nusb) 3 (version_new 2 0 0),
          \<lparr>avail = [1, 2], at_end = IoError UnexpectedEof []\<rparr>), log)
     \<and> written log = encode rfc_ops version_packet @ encode rfc_ops setup_packet"
proof -
  let ?n = "device_new rfc_ops (\<lambda>_ _. None)
       (Inr \<lparr>avail = concat (map (encode rfc_ops) ([sample_error] @ [version_packet])) @ [1, 2],
             at_end = IoError UnexpectedEof []\<rparr>) (Nusb sample_nusb) 3"
  have wf: "wf_packet version_packet" "no_options version_packet"
    "payload version_packet = Version (version_new 2 0 0)"
    by (simp_all add: version_packet_def wf_build_version no_options_def)
      (simp_all add: build_version_def packet_new_def payload_version_def)
  have "as_version (payload sample_error) = None" by (simp add: sample_error_def packet_new_def)
  with device_new_handshake [OF rfc_ops_laws _ _ wf(3), of "[sample_error]" "\<lambda>_ _. None" "[1, 2]"
      "IoError UnexpectedEof []" "Nusb sample_nusb" 3 "fst ?n" "snd ?n"] wf wf_sample_error
  show ?thesis by (intro exI [of _ "snd ?n"]) (simp add: prod_eq_iff)
qed

text \<open>The answers of \<open>n\<close> successive calls of \<open>get_next_source_port\<close>.\<close>

primrec take_ports :: "nat \<Rightarrow> UsbDevice \<Rightarrow> (RusbmuxError + u16) list" where
  "take_ports 0 d = []"
| "take_ports (Suc n) d =
     (case get_next_source_port d of (p, d') \<Rightarrow> p # take_ports n d')"

lemma take_ports_eq:
  "take_ports n d = map (\<lambda>k. if next_source_port d + word_of_nat k = 0 then Inl RanOutofSourcePort
     else Inr (next_source_port d + word_of_nat k)) [0..<n]"
proof (induction n arbitrary: d)
  case 0
  then show ?case by simp
next
  case (Suc n)
  show ?case
    by (simp add: Suc get_next_source_port_def Let_def map_upt_Suc algebra_simps del: upt_Suc)
qed

text \<open>
  A fresh device hands out the source ports 1 to 65535, each once and in order, to its first
  65535 connections, and refuses the next one.
\<close>
theorem source_ports_exhausted:
  assumes "k < 65535"
  shows "take_ports 65536 (fresh_device dinfo i v) ! k = Inr (word_of_nat (Suc k))
     \<and> take_ports 65536 (fresh_device dinfo i v) ! 65535 = Inl RanOutofSourcePort"
proof -
  have port: "take_ports 65536 (fresh_device dinfo i v) ! j =
      (if (1 :: u16) + word_of_nat j = 0 then Inl RanOutofSourcePort
       else Inr (1 + word_of_nat j))" if "j < 65536" for j
    using that by (simp add: take_ports_eq fresh_device_def del: upt_Suc)
  have ne: "(1 :: u16) + word_of_nat k \<noteq> 0"
  proof
    assume "(1 :: u16) + word_of_nat k = 0"
    then have "(word_of_nat (Suc k) :: u16) = 0" by simp
    then have "unat (word_of_nat (Suc k) :: u16) = 0" by (metis unat_0)
    with assms show False by (simp add: unat_of_nat del: of_nat_Suc)
  qed
  have last: "(1 :: u16) + word_of_nat 65535 = 0" by simp
  show ?thesis using port [of k] port [of 65535] ne last assms by simp
qed

theorem source_ports_exhausted_witness:
  "take_ports 65536 (fresh_device (Nusb sample_nusb) 3 (version_new 2 0 0)) ! 4 = Inr 5
   \<and> take_ports 65536 (fresh_device (Nusb sample_nusb) 3 (version_new 2 0 0)) ! 65535 = Inl RanOutofSourcePort"
  using source_ports_exhausted [of 4 "Nusb sample_nusb" 3 "version_new 2 0 0"] by simp

text \<open>
  A connect that gets a port leaves the port registered for a new channel whatever its
  outcome, and never asks whether the port is in use: the connection that had the port loses its
  registration, and a failed handshake leaves an entry whose receiver is gone, so that the next
  packet for that port makes the reader task wait for itself.
\<close>
theorem connect_registers_always:
  assumes "connect ops env dport answer d = (res, d')" and "next_source_port d \<noteq> 0"
  shows "conns (router d') = (conns (router d))(next_source_port d \<mapsto> next_chan (router d))
     \<and> delivered (router d') = delivered (router d)
     \<and> next_source_port d' = next_source_port d + 1
     \<and> (\<forall>err renv p msg. res = Inl err \<longrightarrow> \<not> is_rst p \<longrightarrow> route_port p = next_source_port d \<longrightarrow>
          ch_send (renv (next_chan (router d))) (delivered (router d') (next_chan (router d))) p
            = SendClosed msg \<longrightarrow> handle_packet renv p d' = Inl (next_source_port d))"
proof -
  let ?sp = "next_source_port d" and ?c = "next_chan (router d)"
  obtain a q where cn: "conn_new ops env (core_id d) ?sp dport ?c answer (w_queue d) = (a, q)"
    by (metis prod.exhaust)
  have R: "conns (router d') = (conns (router d))(?sp \<mapsto> ?c)" "delivered (router d') = delivered (router d)"
    "next_source_port d' = ?sp + 1"
    using assms cn
    by (auto simp: connect_def get_next_source_port_def register_def Let_def add_conn_def
        split: sum.splits prod.splits)
  have "handle_packet renv p d' = Inl ?sp"
    if "\<not> is_rst p" "route_port p = ?sp"
      "ch_send (renv ?c) (delivered (router d') ?c) p = SendClosed msg" for renv p msg
  proof -
    have "route renv p (router d') = Self_deadlock ?sp"
      using that R by (simp add: route_deadlock_iff)
    then show ?thesis
      using that by (simp add: handle_packet_def Let_def increment_recv_seq_def
          split: UsbDevicePacketPayload.splits)
  qed
  with R show ?thesis by blast
qed

theorem connect_registers_always_witness:
  "let d' = snd (connect rfc_ops (closed_env 0) 62078 (RecvClosed []) sample_device) in
   conns (router d') = (conns (router sample_device))(1 \<mapsto> 1)
   \<and> fst (connect rfc_ops (closed_env 0) 62078 (RecvClosed []) sample_device) = Inl (Channel ''closed'')"
proof -
  have dev: "next_source_port sample_device = 1" "next_chan (router sample_device) = 1"
    by (simp_all add: sample_device_def connect_from_def register_def add_conn_def Let_def
        set_disconnected_tx_def fresh_device_def router_new_def)
  have "fst (connect rfc_ops (closed_env 0) 62078 (RecvClosed []) sample_device) = Inl (Channel ''closed'')"
    by (simp add: connect_def get_next_source_port_def dev register_def conn_new_def closed_env_def Let_def)
  moreover obtain res d' where c: "connect rfc_ops (closed_env 0) 62078 (RecvClosed []) sample_device = (res, d')"
    by (metis prod.exhaust)
  moreover have "conns (router d') = (conns (router sample_device))(1 \<mapsto> 1)"
    using connect_registers_always [OF c] dev by simp
  ultimately show ?thesis by (simp add: Let_def)
qed

lemma live_conns_marked:
  "live_conns walk (drop_loops (d\<lparr>canceled := True, dev_dropped := True\<rparr>)) = live_conns walk d"
proof -
  have "upgrade (drop_loops (d\<lparr>canceled := True, dev_dropped := True\<rparr>)) = upgrade d"
    by (rule ext) (simp add: upgrade_def drop_loops_def split: option.splits)
  then show ?thesis by (simp add: live_conns_def) (simp add: drop_loops_def)
qed

lemma send_rsts_open:
  assumes "\<forall>h m. ch_send env h m = Sent"
  shows "send_rsts (send_rst ops env) cs q = (Inr (), q @ map (rst_packet ops) cs)"
  by (induction cs arbitrary: q) (simp_all add: send_rst_def assms)



text \<open>
  A shutdown first aborts the writer loop, the only receiver of the writer channel: once that
  channel is closed, a shutdown with a held connection fails at the first reset and leaves both
  tables as they were.
\<close>
theorem shutdown_after_abort:
  assumes "\<forall>h m. \<exists>msg. ch_send env h m = SendClosed msg" and "live_conns walk d \<noteq> []"
    and "shutdown ops env walk d = (res, d')"
  shows "(\<exists>msg. res = Inl (Channel msg)) \<and> w_queue d' = w_queue d
     \<and> conns (router d') = conns (router d) \<and> dev_conns d' = dev_conns d"
proof -
  let ?d = "drop_loops (d\<lparr>canceled := True, dev_dropped := True\<rparr>)"
  obtain c cs where cs: "live_conns walk d = c # cs" using assms(2) by (cases "live_conns walk d") auto
  obtain msg where "ch_send env (w_queue d) (rst_packet ops c) = SendClosed msg" using assms(1) by blast
  then have "send_rsts (send_rst ops env) (live_conns walk ?d) (w_queue ?d) = (Inl (Channel msg), w_queue d)"
    unfolding live_conns_marked cs by (simp add: send_rst_def drop_loops_def)
  with assms(3) show ?thesis
    by (auto simp: shutdown_def close_all_def close_with_def) (auto simp: drop_loops_def)
qed

theorem shutdown_after_abort_witness:
  "let (res, d') = shutdown rfc_ops (closed_env 0) (\<lambda>_. [62078]) sample_device
   in (\<exists>msg. res = Inl (Channel msg)) \<and> conns (router d') = conns (router sample_device)"
proof -
  obtain res d' where s: "shutdown rfc_ops (closed_env 0) (\<lambda>_. [62078]) sample_device = (res, d')"
    by (metis prod.exhaust)
  have "live_conns (\<lambda>_. [62078]) sample_device \<noteq> []"
    by (simp add: live_conns_def upgrade_def sample_device_def connect_from_def register_def
        add_conn_def Let_def conn_new_from_def List.map_filter_def fresh_device_def set_disconnected_tx_def)
  with shutdown_after_abort [OF _ _ s] s show ?thesis by (simp add: closed_env_def)
qed

end
