(* ===== verification/Watcher.thy ===== *)
theory Watcher
  imports Usb_Device Network_Device
begin

text \<open>
  The table of connected devices and the watchers that fill it: \<^verbatim>\<open>src/watcher/mod.rs\<close>,
  \<^verbatim>\<open>src/watcher/usb.rs\<close>, \<^verbatim>\<open>src/watcher/network.rs\<close> and \<^verbatim>\<open>src/device/mod.rs\<close>. The broadcast channel
  is the list of the events sent to it. The order in which the concurrent map is walked is a
  parameter. What the USB backend, mDNS and the pairing files answer comes as arguments.
\<close>

section \<open>Devices\<close>

datatype Device = Network NetworkDevice | Usb UsbDevice

text \<open>A device of either kind, once its own constructor has succeeded.\<close>

definition device_new_usb ::
    "tcp_ops \<Rightarrow> out_env \<Rightarrow> RusbmuxError + reader \<Rightarrow> AnyDeviceInfo \<Rightarrow> u64
       \<Rightarrow> (RusbmuxError, Device \<times> reader) outcome \<times> out_action list" where
  "device_new_usb ops env opened dinfo i =
     (case device_new ops env opened dinfo i of
        (res, log) \<Rightarrow> (map_ok (\<lambda>(d, end_in). (Usb d, end_in)) res, log))"

definition device_new_network ::
    "target_os \<Rightarrow> (string \<Rightarrow> string + 'pf) \<Rightarrow> ('pf \<Rightarrow> IpAddr \<Rightarrow> string + 'client)
       \<Rightarrow> (IpAddr \<Rightarrow> string \<Rightarrow> RusbmuxError + unit) \<Rightarrow> u64 \<Rightarrow> IpAddr \<times> IpAddr option \<Rightarrow> u32 option
       \<Rightarrow> string \<Rightarrow> string \<Rightarrow> string \<Rightarrow> RusbmuxError + Device" where
  "device_new_network os pairing dial assertion i addr scope mac service serial =
     (case network_device_new os pairing dial assertion i addr scope mac service serial of
        Inl e \<Rightarrow> Inl e
      | Inr d \<Rightarrow> Inr (Network d))"

datatype ConnectionType = ConnUsb | ConnNetwork

fun connection_type :: "Device \<Rightarrow> ConnectionType" where
  "connection_type (Usb d) = ConnUsb"
| "connection_type (Network d) = ConnNetwork"

fun device_id :: "Device \<Rightarrow> u64" where
  "device_id (Network d) = nd_id d"
| "device_id (Usb d) = core_id d"

text \<open>Reading the serial number of a USB device may panic.\<close>

fun device_serial :: "Device \<Rightarrow> (RusbmuxError, string) outcome" where
  "device_serial (Network d) = Ok (nd_serial_number d)"
| "device_serial (Usb d) =
     map_ok (\<lambda>s. case s of None \<Rightarrow> [] | Some b \<Rightarrow> str_of b) (serial_number (info d))"

fun as_network :: "Device \<Rightarrow> NetworkDevice option" where
  "as_network (Network d) = Some d"
| "as_network (Usb d) = None"

fun as_usb :: "Device \<Rightarrow> UsbDevice option" where
  "as_usb (Usb d) = Some d"
| "as_usb (Network d) = None"

text \<open>The environment of the daemon: what the operations on a device need from outside.\<close>

record daemon_env =
  env_os :: target_os
  env_endian :: endian
  env_ops :: tcp_ops
  env_hash :: "nat \<Rightarrow> u64"
  env_writer :: wenv
  env_conn_walk :: "(u16 \<rightharpoonup> nat) \<Rightarrow> u16 list"
  env_walk :: "(u64 \<rightharpoonup> Device) \<Rightarrow> u64 list"

fun device_shutdown :: "daemon_env \<Rightarrow> Device \<Rightarrow> (RusbmuxError + unit) \<times> Device" where
  "device_shutdown env (Usb d) =
     (case shutdown (env_ops env) (env_writer env) (env_conn_walk env) d of (r, d') \<Rightarrow> (r, Usb d'))"
| "device_shutdown env (Network d) = (Inr (), Network (network_shutdown d))"

fun device_attached :: "daemon_env \<Rightarrow> Device \<Rightarrow> (RusbmuxError, Value) outcome" where
  "device_attached env (Usb d) = usb_create_device_attached (env_os env) d"
| "device_attached env (Network d) =
     Ok (network_create_device_attached (env_os env) (env_endian env) d)"

section \<open>The table and the events\<close>

datatype DeviceEvent = Attached u64 | Detached u64

record world =
  connected :: "u64 \<rightharpoonup> Device"
  events :: "DeviceEvent list"
  counter :: u64

definition send_event :: "DeviceEvent \<Rightarrow> world \<Rightarrow> world" where
  "send_event e w = w\<lparr>events := events w @ [e]\<rparr>"

definition table_remove :: "u64 \<Rightarrow> world \<Rightarrow> world" where
  "table_remove i w = w\<lparr>connected := (connected w)(i := None)\<rparr>"

definition table_insert :: "u64 \<Rightarrow> Device \<Rightarrow> world \<Rightarrow> world" where
  "table_insert i d w = w\<lparr>connected := (connected w)(i \<mapsto> d)\<rparr>"

definition devices :: "daemon_env \<Rightarrow> world \<Rightarrow> Device list" where
  "devices env w = List.map_filter (connected w) (env_walk env (connected w))"

text \<open>\<open>Iterator::find\<close> and \<open>any\<close> with a condition that may panic.\<close>

fun find_dev :: "(Device \<Rightarrow> (RusbmuxError, bool) outcome) \<Rightarrow> Device list
    \<Rightarrow> (RusbmuxError, Device option) outcome" where
  "find_dev P [] = Ok None"
| "find_dev P (d # ds) = and_then (P d) (\<lambda>b. if b then Ok (Some d) else find_dev P ds)"

definition any_dev :: "(Device \<Rightarrow> (RusbmuxError, bool) outcome) \<Rightarrow> Device list
    \<Rightarrow> (RusbmuxError, bool) outcome" where
  "any_dev P ds = map_ok (\<lambda>x. x \<noteq> None) (find_dev P ds)"

definition same_serial :: "Device \<Rightarrow> Device \<Rightarrow> (RusbmuxError, bool) outcome" where
  "same_serial a b =
     and_then (device_serial a) (\<lambda>s. and_then (device_serial b) (\<lambda>t. Ok (s = t)))"

definition network_with_serial_of :: "Device \<Rightarrow> Device \<Rightarrow> (RusbmuxError, bool) outcome" where
  "network_with_serial_of device d =
     (if as_network d = None then Ok False else same_serial d device)"

definition usb_with_serial_of :: "Device \<Rightarrow> Device \<Rightarrow> (RusbmuxError, bool) outcome" where
  "usb_with_serial_of device d =
     (if as_usb d = None then Ok False else same_serial d device)"

section \<open>Removing a device\<close>

definition announce_removal :: "daemon_env \<Rightarrow> Device \<Rightarrow> world \<Rightarrow> (RusbmuxError, world) outcome" where
  "announce_removal env device w =
     (case connection_type device of
        ConnUsb \<Rightarrow>
          map_ok (\<lambda>found. case found of
              None \<Rightarrow> w
            | Some ndev \<Rightarrow> send_event (Attached (device_id ndev)) w)
            (find_dev (network_with_serial_of device) (devices env w))
      | ConnNetwork \<Rightarrow>
          map_ok (\<lambda>b. if b then w else send_event (Detached (device_id device)) w)
            (any_dev (usb_with_serial_of device) (devices env w)))"

text \<open>A panic ends the task that called; the table keeps what was done to it.\<close>

definition remove_device :: "daemon_env \<Rightarrow> u64 \<Rightarrow> world \<Rightarrow> (RusbmuxError, Device) outcome \<times> world" where
  "remove_device env i w =
     (case connected w i of
        None \<Rightarrow> (Err (DeviceNotFound i), w)
      | Some device \<Rightarrow>
          (let w1 = table_remove i w in
           case device_shutdown env device of
             (Inl e, _) \<Rightarrow> (Err e, w1)
           | (Inr _, device') \<Rightarrow>
               (case announce_removal env device' w1 of
                  Ok w2 \<Rightarrow> (Ok device', w2)
                | Err e \<Rightarrow> (Err e, w1)
                | Panic \<Rightarrow> (Panic, w1))))"

section \<open>The USB watcher\<close>

fun retain_other_serials :: "daemon_env \<Rightarrow> Device \<Rightarrow> u64 list \<Rightarrow> (u64 \<rightharpoonup> Device) \<Rightarrow> (RusbmuxError, u64 \<rightharpoonup> Device) outcome" where
  "retain_other_serials env device [] m = Ok m"
| "retain_other_serials env device (i # is) m =
     (case m i of
        None \<Rightarrow> retain_other_serials env device is m
      | Some d \<Rightarrow>
          and_then (same_serial d device)
            (\<lambda>b. retain_other_serials env device is (if b then m(i := None) else m)))"

text \<open>
  Opening a device that was reported: the first attempt, then one attempt every 100 ms for three
  seconds, each on what the backend lists at that time; when all fail, the first error stands.
  \<open>attempts\<close> has, for each of them, what is listed and the answer of opening a device.
\<close>

type_synonym open_attempt = "AnyDeviceInfo list \<times> (AnyDeviceInfo \<Rightarrow> u64 \<Rightarrow> RusbmuxError + UsbDevice)"

fun retry_open ::
    "(nat \<Rightarrow> u64) \<Rightarrow> u64 \<Rightarrow> u64 \<Rightarrow> RusbmuxError \<Rightarrow> open_attempt list \<Rightarrow> RusbmuxError + UsbDevice" where
  "retry_open hash opaque i first_error [] = Inl first_error"
| "retry_open hash opaque i first_error ((listed, open_usb) # rest) =
     (case find (\<lambda>d. opaque_id hash d = opaque) listed of
        None \<Rightarrow> retry_open hash opaque i first_error rest
      | Some dinfo \<Rightarrow>
          (case open_usb dinfo i of
             Inr d \<Rightarrow> Inr d
           | Inl e \<Rightarrow> retry_open hash opaque i first_error rest))"

definition open_reported ::
    "(nat \<Rightarrow> u64) \<Rightarrow> (AnyDeviceInfo \<Rightarrow> u64 \<Rightarrow> RusbmuxError + UsbDevice) \<Rightarrow> open_attempt list
       \<Rightarrow> AnyDeviceInfo \<Rightarrow> u64 \<Rightarrow> RusbmuxError + UsbDevice" where
  "open_reported hash open_usb attempts dinfo i =
     (case open_usb dinfo i of
        Inr d \<Rightarrow> Inr d
      | Inl first_error \<Rightarrow> retry_open hash (opaque_id hash dinfo) i first_error attempts)"

text \<open>
  The stream of USB events. It is a \<open>try_stream\<close>: the first error it yields is its last item.
  An error of the backend is only logged. \<open>attempts i\<close> are the attempts for the device reported
  with identifier \<open>i\<close>. The second component tells whether the task has panicked.
\<close>

datatype UsbWatchEvent = UsbConnected UsbDevice u64 | UsbDisconnected u64

fun watch_usb ::
    "(nat \<Rightarrow> u64) \<Rightarrow> (AnyDeviceInfo \<Rightarrow> u64 \<Rightarrow> RusbmuxError + UsbDevice) \<Rightarrow> (u64 \<Rightarrow> open_attempt list)
       \<Rightarrow> (RusbmuxError + Event) list \<Rightarrow> (RusbmuxError + UsbWatchEvent) list \<times> bool" where
  "watch_usb hash open_usb attempts [] = ([], False)"
| "watch_usb hash open_usb attempts (Inl e # es) = watch_usb hash open_usb attempts es"
| "watch_usb hash open_usb attempts (Inr (Disconnected i) # es) =
     apfst (Cons (Inr (UsbDisconnected i))) (watch_usb hash open_usb attempts es)"
| "watch_usb hash open_usb attempts (Inr (Connected dinfo i) # es) =
     (case (vendor_id dinfo :: (RusbmuxError, u16) outcome) of
        Ok vid \<Rightarrow>
          (if vid \<noteq> APPLE_VID then watch_usb hash open_usb attempts es
           else case open_reported hash open_usb (attempts i) dinfo i of
                  Inl e \<Rightarrow> ([Inl e], False)
                | Inr d \<Rightarrow> apfst (Cons (Inr (UsbConnected d i))) (watch_usb hash open_usb attempts es))
      | _ \<Rightarrow> ([], True))"

text \<open>
  A device has been connected: the network device of its serial number, if any, is reported
  as detached, every entry of that serial number is removed, and the device is entered.
\<close>

definition usb_connected :: "daemon_env \<Rightarrow> UsbDevice \<Rightarrow> u64 \<Rightarrow> world \<Rightarrow> (RusbmuxError, world) outcome" where
  "usb_connected env usb i w =
     (let device = Usb (set_disconnected_tx usb) in
      and_then (find_dev (network_with_serial_of device) (devices env w)) (\<lambda>found.
        let w1 = (case found of None \<Rightarrow> w | Some ndev \<Rightarrow> send_event (Detached (device_id ndev)) w) in
        map_ok (\<lambda>m. table_insert i device (w1\<lparr>connected := m\<rparr>))
          (retain_other_serials env device (env_walk env (connected w1)) (connected w1))))"

definition usb_disconnected :: "daemon_env \<Rightarrow> u64 \<Rightarrow> world \<Rightarrow> (RusbmuxError, unit) outcome \<times> world" where
  "usb_disconnected env i w =
     (case remove_device env i w of
        (Ok _, w1) \<Rightarrow> (Ok (), send_event (Detached i) w1)
      | (Err e, w1) \<Rightarrow> (Ok (), w1)
      | (Panic, w1) \<Rightarrow> (Panic, w1))"

text \<open>The identifier compared when a device has failed: zero for a network device.\<close>

definition opaque_or_default :: "daemon_env \<Rightarrow> Device \<Rightarrow> u64" where
  "opaque_or_default env d =
     (case as_usb d of None \<Rightarrow> 0 | Some u \<Rightarrow> opaque_id (env_hash env) (info u))"

text \<open>
  An I/O failure was reported: the device is removed and an attempt is made to open it again.
  \<open>listed\<close> is what the backend lists, \<open>open_usb\<close> the answer of opening a device.
\<close>

definition usb_io_disconnected ::
    "daemon_env \<Rightarrow> AnyDeviceInfo list \<Rightarrow> (AnyDeviceInfo \<Rightarrow> u64 \<Rightarrow> RusbmuxError + UsbDevice) \<Rightarrow> u64 \<Rightarrow> u64
       \<Rightarrow> world \<Rightarrow> world" where
  "usb_io_disconnected env listed open_usb i opaque w =
     (let w1 = w\<lparr>connected := (\<lambda>k. case connected w k of
            None \<Rightarrow> None
          | Some d \<Rightarrow> if opaque_or_default env d \<noteq> opaque then Some d else None)\<rparr>;
          w2 = send_event (Detached i) w1
      in case find (\<lambda>dinfo. opaque_id (env_hash env) dinfo = opaque) listed of
           None \<Rightarrow> w2
         | Some dinfo \<Rightarrow>
             (case open_usb dinfo i of
                Inl e \<Rightarrow> w2
              | Inr d \<Rightarrow> send_event (Attached i) (table_insert i (Usb (set_disconnected_tx d)) w2)))"

text \<open>One event of the USB stream; an error is logged.\<close>

fun usb_event :: "daemon_env \<Rightarrow> RusbmuxError + UsbWatchEvent \<Rightarrow> world \<Rightarrow> (RusbmuxError, unit) outcome \<times> world" where
  "usb_event env (Inr (UsbConnected usb i)) w =
     (case usb_connected env usb i w of
        Ok w' \<Rightarrow> (Ok (), w') | Err e \<Rightarrow> (Err e, w) | Panic \<Rightarrow> (Panic, w))"
| "usb_event env (Inr (UsbDisconnected i)) w = usb_disconnected env i w"
| "usb_event env (Inl e) w = (Ok (), w)"

section \<open>The network watcher\<close>

fun before_at :: "string \<Rightarrow> string" where
  "before_at [] = []"
| "before_at (c # cs) = (if c = CHR ''@'' then [] else c # before_at cs)"

definition has_mac :: "string \<Rightarrow> Device \<Rightarrow> bool" where
  "has_mac mac d \<longleftrightarrow> (case as_network d of None \<Rightarrow> False | Some n \<Rightarrow> nd_mac_address n = mac)"

text \<open>A service has disappeared; its name starts with the address of the device.\<close>

definition service_removed :: "daemon_env \<Rightarrow> string \<Rightarrow> world \<Rightarrow> (RusbmuxError, world) outcome" where
  "service_removed env name w =
     (let mac = before_at name in
      case map_option device_id (find (has_mac mac) (devices env w)) of
        None \<Rightarrow> Ok w
      | Some i \<Rightarrow>
          (case connected w i of
             None \<Rightarrow> Ok w
           | Some device \<Rightarrow>
               (let w1 = table_remove i w; device' = snd (device_shutdown env device) in
                map_ok (\<lambda>b. if b then w1 else send_event (Detached i) w1)
                  (any_dev (usb_with_serial_of device') (devices env w1)))))"

datatype ScopedIp = ScopedV4 u32 "u32 list" | ScopedV6 bytes u32

record ResolvedService =
  rs_addresses :: "ScopedIp list"
  rs_properties :: "(string \<times> bytes option) list"
  rs_fullname :: string

record ResolvedDevice =
  rd_addr :: "IpAddr \<times> IpAddr option"
  rd_scope_id :: u32
  rd_mac_address :: string
  rd_service_name :: string
  rd_udid :: string

text \<open>A saved pairing file: its name without the extension, the host id and the Wi-Fi address.\<close>

record pairing =
  pf_udid :: string
  pf_host_id :: string
  pf_wifi_mac :: string

fun first_v6 :: "ScopedIp list \<Rightarrow> (IpAddr \<times> u32) option" where
  "first_v6 [] = None"
| "first_v6 (ScopedV6 ip scope # as) = Some (IPv6 ip, scope)"
| "first_v6 (ScopedV4 ip ifs # as) = first_v6 as"

fun first_v4 :: "ScopedIp list \<Rightarrow> (IpAddr \<times> u32) option" where
  "first_v4 [] = None"
| "first_v4 (ScopedV4 ip ifs # as) = Some (IPv4 ip, case ifs of [] \<Rightarrow> 0 | i # _ \<Rightarrow> i)"
| "first_v4 (ScopedV6 ip scope # as) = first_v4 as"

text \<open>\<open>unreachable!()\<close> panics: a service without any address.\<close>

definition choose_address ::
    "ScopedIp list \<Rightarrow> (RusbmuxError, (IpAddr \<times> IpAddr option) \<times> u32) outcome" where
  "choose_address as =
     (case (first_v6 as, first_v4 as) of
        (Some (v6, scope), Some (v4, _)) \<Rightarrow> Ok ((v6, Some v4), scope)
      | (Some (v6, scope), None) \<Rightarrow> Ok ((v6, None), scope)
      | (None, Some (v4, scope)) \<Rightarrow> Ok ((v4, None), scope)
      | (None, None) \<Rightarrow> Panic)"

definition property_val :: "string \<Rightarrow> ResolvedService \<Rightarrow> bytes option" where
  "property_val key rs = (case map_of (rs_properties rs) key of None \<Rightarrow> None | Some v \<Rightarrow> v)"

definition auth_tags :: "ResolvedService \<Rightarrow> bytes list" where
  "auth_tags rs = List.map_filter snd
     (filter (\<lambda>p. fst p = ''authTag'' \<or> str_prefix ''authTag#'' (fst p)) (rs_properties rs))"

text \<open>\<open>decode\<close> and \<open>derive\<close> are the functions of \<open>idevice\<close> on tags and host ids.\<close>

definition find_udid_from_txt ::
    "(bytes \<Rightarrow> bytes option) \<Rightarrow> (bytes \<Rightarrow> bytes \<Rightarrow> bytes) \<Rightarrow> pairing list \<Rightarrow> bytes \<Rightarrow> bytes list
       \<Rightarrow> string option" where
  "find_udid_from_txt decode derive saved identifier tags =
     (if tags = [] then None
      else let decoded = List.map_filter decode tags in
        if decoded = [] then None
        else map_option pf_udid
          (find (\<lambda>pf. derive (bytes_of (pf_host_id pf)) identifier \<in> set decoded) saved))"

definition get_udid_from_mac_addr :: "pairing list \<Rightarrow> string \<Rightarrow> string option" where
  "get_udid_from_mac_addr saved mac = map_option pf_udid (find (\<lambda>pf. mac = pf_wifi_mac pf) saved)"

text \<open>
  The directory entries: the name without extension when there is one that is valid text, and
  the pairing file when it can be read; others are skipped. \<open>None\<close>: no directory.
\<close>

definition get_saved_pairing_files ::
    "(string option \<times> (string \<times> string) option) list option \<Rightarrow> pairing list" where
  "get_saved_pairing_files entries =
     (case entries of
        None \<Rightarrow> []
      | Some es \<Rightarrow> List.map_filter (\<lambda>(stem, pf).
          case (stem, pf) of
            (Some udid, Some (host_id, mac)) \<Rightarrow>
              Some \<lparr>pf_udid = udid, pf_host_id = host_id, pf_wifi_mac = mac\<rparr>
          | _ \<Rightarrow> None) es)"

definition resolve_service ::
    "(bytes \<Rightarrow> bytes option) \<Rightarrow> (bytes \<Rightarrow> bytes \<Rightarrow> bytes) \<Rightarrow> pairing list \<Rightarrow> ResolvedService
       \<Rightarrow> (RusbmuxError, ResolvedDevice option) outcome" where
  "resolve_service decode derive saved rs =
     and_then (choose_address (rs_addresses rs)) (\<lambda>(addr, scope).
       let mac = before_at (rs_fullname rs);
           tags = auth_tags rs;
           udid = (case property_val ''identifier'' rs of
               Some ident \<Rightarrow>
                 (if tags \<noteq> [] then find_udid_from_txt decode derive saved ident tags
                  else get_udid_from_mac_addr saved mac)
             | None \<Rightarrow> get_udid_from_mac_addr saved mac)
       in Ok (map_option (\<lambda>u. \<lparr>rd_addr = addr, rd_scope_id = scope, rd_mac_address = mac,
                rd_service_name = rs_fullname rs, rd_udid = u\<rparr>) udid))"

text \<open>
  A resolved device that is not in the table yet is created and entered. \<open>create\<close> is the answer
  of \<open>Device::new_network\<close>: an error, or the address it is reached at.
\<close>

definition add_resolved ::
    "daemon_env \<Rightarrow> (ResolvedDevice \<Rightarrow> RusbmuxError + IpAddr) \<Rightarrow> ResolvedDevice \<Rightarrow> world
       \<Rightarrow> (RusbmuxError, world) outcome" where
  "add_resolved env create rd w =
     (if \<exists>d \<in> set (devices env w). \<exists>n. as_network d = Some n \<and> nd_serial_number n = rd_udid rd
      then Ok w
      else case take_new_id (counter w) of
        (i, counter') \<Rightarrow>
          (let w1 = w\<lparr>counter := counter'\<rparr> in
           case create rd of
             Inl e \<Rightarrow> Ok w1
           | Inr ip \<Rightarrow>
               (let device = Network (network_new i ip (Some (rd_scope_id rd)) (rd_mac_address rd)
                               (rd_service_name rd) (rd_udid rd));
                    w2 = table_insert i device w1
                in map_ok (\<lambda>b. if b then w2 else send_event (Attached i) w2)
                     (any_dev (usb_with_serial_of device) (devices env w2)))))"

text \<open>The events of the mDNS browser, and what the daemon does for one.\<close>

datatype ServiceEvent = ServiceResolved ResolvedService | ServiceRemoved string | OtherServiceEvent

definition network_device_add ::
    "daemon_env \<Rightarrow> (bytes \<Rightarrow> bytes option) \<Rightarrow> (bytes \<Rightarrow> bytes \<Rightarrow> bytes) \<Rightarrow> pairing list
       \<Rightarrow> (ResolvedDevice \<Rightarrow> RusbmuxError + IpAddr) \<Rightarrow> ResolvedService \<Rightarrow> world
       \<Rightarrow> (RusbmuxError, world) outcome" where
  "network_device_add env decode derive saved create rs w =
     and_then (resolve_service decode derive saved rs)
       (\<lambda>resolved. case resolved of None \<Rightarrow> Ok w | Some rd \<Rightarrow> add_resolved env create rd w)"

fun network_event ::
    "daemon_env \<Rightarrow> (bytes \<Rightarrow> bytes option) \<Rightarrow> (bytes \<Rightarrow> bytes \<Rightarrow> bytes) \<Rightarrow> pairing list
       \<Rightarrow> (ResolvedDevice \<Rightarrow> RusbmuxError + IpAddr) \<Rightarrow> ServiceEvent \<Rightarrow> world
       \<Rightarrow> (RusbmuxError, world) outcome" where
  "network_event env decode derive saved create (ServiceResolved rs) w =
     network_device_add env decode derive saved create rs w"
| "network_event env decode derive saved create (ServiceRemoved name) w = service_removed env name w"
| "network_event env decode derive saved create OtherServiceEvent w = Ok w"

text \<open>
  The stream of network events for library users: what it yields and how it ends. The
  identifiers come from the same counter.
\<close>

datatype NetworkEvent = NetworkConnected NetworkDevice | NetworkDisconnected u64

fun watch_network ::
    "(ResolvedService \<Rightarrow> (RusbmuxError, ResolvedDevice option) outcome)
       \<Rightarrow> (u64 \<Rightarrow> ResolvedDevice \<Rightarrow> RusbmuxError + NetworkDevice) \<Rightarrow> ServiceEvent list
       \<Rightarrow> (string \<rightharpoonup> u64) \<Rightarrow> u64 \<Rightarrow> NetworkEvent list \<times> (RusbmuxError, unit) outcome" where
  "watch_network resolve new_network [] ids next = ([], Ok ())"
| "watch_network resolve new_network (ServiceResolved rs # es) ids next =
     (case resolve rs of
        Panic \<Rightarrow> ([], Panic)
      | Err e \<Rightarrow> ([], Err e)
      | Ok None \<Rightarrow> watch_network resolve new_network es ids next
      | Ok (Some rd) \<Rightarrow>
          (case take_new_id next of
             (i, next') \<Rightarrow>
               (case new_network i rd of
                  Inl e \<Rightarrow> ([], Err e)
                | Inr d \<Rightarrow>
                    (case watch_network resolve new_network es (ids(rd_mac_address rd \<mapsto> i)) next' of
                       (evs, r) \<Rightarrow> (NetworkConnected d # evs, r)))))"
| "watch_network resolve new_network (ServiceRemoved name # es) ids next =
     (case watch_network resolve new_network es ids next of
        (evs, r) \<Rightarrow>
          ((case ids (before_at name) of None \<Rightarrow> evs | Some i \<Rightarrow> NetworkDisconnected i # evs), r))"
| "watch_network resolve new_network (OtherServiceEvent # es) ids next =
     watch_network resolve new_network es ids next"

section \<open>Searching the table\<close>

definition env_law :: "daemon_env \<Rightarrow> bool" where
  "env_law env \<longleftrightarrow> (\<forall>m. set (env_walk env m) = dom m)"

lemma devices_set:
  assumes "env_law env"
  shows "d \<in> set (devices env w) \<longleftrightarrow> (\<exists>i. connected w i = Some d)"
  using assms by (force simp: devices_def env_law_def List.map_filter_def)

lemma find_dev_total:
  assumes "\<And>d. d \<in> set ds \<Longrightarrow> P d = Ok (Q d)"
  shows "find_dev P ds = Ok (find Q ds)"
  using assms by (induction ds) auto

lemma any_dev_total:
  assumes "\<And>d. d \<in> set ds \<Longrightarrow> P d = Ok (Q d)"
  shows "any_dev P ds = Ok (\<exists>d \<in> set ds. Q d)"
proof -
  have "find Q ds \<noteq> None \<longleftrightarrow> (\<exists>d \<in> set ds. Q d)" by (induction ds) auto
  with find_dev_total [OF assms] show ?thesis by (simp add: any_dev_def)
qed

text \<open>The serial number of a device whose serial number can be read.\<close>

definition ser :: "Device \<Rightarrow> string" where
  "ser d = (case device_serial d of Ok s \<Rightarrow> s | _ \<Rightarrow> [])"

lemma ser_network [simp]: "ser (Network n) = nd_serial_number n"
  by (simp add: ser_def)

definition readable :: "Device \<Rightarrow> bool" where
  "readable d \<longleftrightarrow> device_serial d = Ok (ser d)"

lemma readable_network [simp]: "readable (Network n)"
  by (simp add: readable_def)

lemma same_serial_readable: "readable a \<Longrightarrow> readable b \<Longrightarrow> same_serial a b = Ok (ser a = ser b)"
  by (simp add: same_serial_def readable_def)

lemma with_serial_of:
  assumes "readable device" and "readable d"
  shows "network_with_serial_of device d = Ok (as_network d \<noteq> None \<and> ser d = ser device)"
    and "usb_with_serial_of device d = Ok (as_usb d \<noteq> None \<and> ser d = ser device)"
  using assms
  by (auto simp: network_with_serial_of_def usb_with_serial_of_def same_serial_readable)

section \<open>The invariant of the table\<close>

text \<open>
  An entry is stored under its identifier and its serial number can be read; two entries of one
  kind have different serial numbers; identifiers in use are below the counter.
\<close>

definition table_inv :: "world \<Rightarrow> bool" where
  "table_inv w \<longleftrightarrow>
     (\<forall>i d. connected w i = Some d \<longrightarrow> device_id d = i \<and> readable d \<and> unat i < unat (counter w))
     \<and> (\<forall>i j d e. connected w i = Some d \<longrightarrow> connected w j = Some e \<longrightarrow>
          connection_type d = connection_type e \<longrightarrow> ser d = ser e \<longrightarrow> i = j)"

lemma table_inv_entry:
  "table_inv w \<Longrightarrow> connected w i = Some d \<Longrightarrow> device_id d = i \<and> readable d \<and> unat i < unat (counter w)"
  by (simp add: table_inv_def)

lemma table_inv_unique:
  "table_inv w \<Longrightarrow> connected w i = Some d \<Longrightarrow> connected w j = Some e \<Longrightarrow>
     connection_type d = connection_type e \<Longrightarrow> ser d = ser e \<Longrightarrow> i = j"
  by (simp add: table_inv_def)

lemma table_inv_events [simp]: "table_inv (w\<lparr>events := es\<rparr>) = table_inv w"
  by (simp add: table_inv_def)

lemma send_event_fields [simp, state_simps]:
  "connected (send_event e w) = connected w" "events (send_event e w) = events w @ [e]"
  "counter (send_event e w) = counter w" "table_inv (send_event e w) = table_inv w"
  "devices env (send_event e w) = devices env w"
  by (simp_all add: send_event_def devices_def)

lemma table_ops_fields [simp, state_simps]:
  "connected (table_remove i w) = (connected w)(i := None)"
  "connected (table_insert i d w) = (connected w)(i \<mapsto> d)"
  "events (table_remove i w) = events w" "events (table_insert i d w) = events w"
  "counter (table_remove i w) = counter w" "counter (table_insert i d w) = counter w"
  by (simp_all add: table_remove_def table_insert_def)

interpretation device_table: registry connected table_insert table_remove
  by unfold_locales simp_all

lemma table_inv_remove: "table_inv w \<Longrightarrow> table_inv (table_remove i w)"
  by (auto simp: table_inv_def split: if_splits)

section \<open>What clients see\<close>

text \<open>
  The devices a client is shown: all USB devices, and the network devices whose serial number no
  other entry has.
\<close>

definition visible :: "world \<Rightarrow> u64 set" where
  "visible w = {i. \<exists>d. connected w i = Some d \<and>
     (as_network d = None \<or> (\<forall>j e. connected w j = Some e \<longrightarrow> ser e = ser d \<longrightarrow> j = i))}"

text \<open>What a listener knows that has applied the events to what it was told first.\<close>

fun view :: "DeviceEvent list \<Rightarrow> u64 set \<Rightarrow> u64 set" where
  "view [] V = V"
| "view (Attached i # es) V = view es (insert i V)"
| "view (Detached i # es) V = view es (V - {i})"

lemma view_append [simp]: "view (a @ b) V = view b (view a V)"
  by (induction a V rule: view.induct) auto

lemma visible_cong: "connected w = connected w' \<Longrightarrow> visible w = visible w'"
  by (simp add: visible_def)

lemma visible_send [simp]: "visible (send_event e w) = visible w"
  by (rule visible_cong) simp

lemma visible_counter [simp]: "visible (w\<lparr>counter := c\<rparr>) = visible w"
  by (rule visible_cong) simp

lemma unique_network:
  assumes "table_inv w" and "connected w j = Some e" and "connected w i = Some d"
    and "as_network e \<noteq> None" and "as_network d \<noteq> None" and "ser e = ser d"
  shows "j = i"
  using table_inv_unique [OF assms(1-3)] assms(4-6) by (cases d; cases e) simp_all

lemma unique_usb:
  assumes "table_inv w" and "connected w j = Some e" and "connected w i = Some d"
    and "as_usb e \<noteq> None" and "as_usb d \<noteq> None" and "ser e = ser d"
  shows "j = i"
  using table_inv_unique [OF assms(1-3)] assms(4-6) by (cases d; cases e) simp_all

text \<open>The network entry of a serial number, when there is one.\<close>

lemma network_entries:
  assumes "table_inv w" and "connected w (device_id n) = Some n" and "as_network n \<noteq> None"
  shows "{j. \<exists>e. connected w j = Some e \<and> as_network e \<noteq> None \<and> ser e = ser n} = {device_id n}"
  using unique_network [OF assms(1) _ assms(2) _ assms(3)] assms(2,3) by blast

lemma as_network_usb: "as_network d = None \<longleftrightarrow> as_usb d \<noteq> None"
  by (cases d) auto

definition has_usb :: "world \<Rightarrow> string \<Rightarrow> bool" where
  "has_usb w s \<longleftrightarrow> (\<exists>j e. connected w j = Some e \<and> as_usb e \<noteq> None \<and> ser e = s)"

lemma visible_iff:
  assumes "table_inv w" and "connected w x = Some f"
  shows "x \<in> visible w \<longleftrightarrow> as_usb f \<noteq> None \<or> \<not> has_usb w (ser f)"
proof (cases f)
  case (Usb u)
  with assms(2) show ?thesis by (simp add: visible_def)
next
  case (Network n)
  have net: "j = x" if "connected w j = Some e" "as_usb e = None" "ser e = ser f" for j e
    by (rule unique_network [OF assms(1) that(1) assms(2)])
      (use that Network as_network_usb [of e] in auto)
  have "x \<in> visible w \<longleftrightarrow> (\<forall>j e. connected w j = Some e \<longrightarrow> ser e = ser f \<longrightarrow> j = x)"
    using assms(2) Network by (simp add: visible_def)
  also have "\<dots> \<longleftrightarrow> \<not> has_usb w (ser f)"
  proof
    assume "\<forall>j e. connected w j = Some e \<longrightarrow> ser e = ser f \<longrightarrow> j = x"
    then show "\<not> has_usb w (ser f)" using assms(2) Network by (force simp: has_usb_def)
  next
    assume "\<not> has_usb w (ser f)"
    then show "\<forall>j e. connected w j = Some e \<longrightarrow> ser e = ser f \<longrightarrow> j = x"
      using net unfolding has_usb_def by blast
  qed
  finally show ?thesis using Network by simp
qed

lemma has_usb_remove:
  "has_usb (table_remove i w) s \<longleftrightarrow>
     (\<exists>j e. j \<noteq> i \<and> connected w j = Some e \<and> as_usb e \<noteq> None \<and> ser e = s)"
  by (auto simp: has_usb_def split: if_splits)

lemma has_usb_remove_imp:
  assumes "has_usb (table_remove i w) s"
  shows "has_usb w s"
  using assms [unfolded has_usb_remove] unfolding has_usb_def by blast

lemma visible_connected: "x \<in> visible w \<Longrightarrow> \<exists>f. connected w x = Some f"
  by (auto simp: visible_def)

text \<open>Removing a device of either kind, seen by a client.\<close>

lemma visible_remove_network:
  assumes "table_inv w" and "connected w i = Some d" and "as_usb d = None"
  shows "visible (table_remove i w) = visible w - {i}"
proof (rule set_eqI)
  fix x
  have same: "has_usb (table_remove i w) s = has_usb w s" for s
  proof
    assume "has_usb (table_remove i w) s"
    then show "has_usb w s" by (rule has_usb_remove_imp)
  next
    assume "has_usb w s"
    then obtain j e where e: "connected w j = Some e" "as_usb e \<noteq> None" "ser e = s"
      unfolding has_usb_def by blast
    with assms(2,3) have "j \<noteq> i" by auto
    with e show "has_usb (table_remove i w) s" unfolding has_usb_remove by blast
  qed
  show "x \<in> visible (table_remove i w) \<longleftrightarrow> x \<in> visible w - {i}"
  proof (cases "x = i \<or> connected w x = None")
    case True
    then have "connected (table_remove i w) x = None" by auto
    then have "x \<notin> visible (table_remove i w)" using visible_connected by fastforce
    moreover have "x \<notin> visible w - {i}" using True visible_connected [of x w] by auto
    ultimately show ?thesis by simp
  next
    case False
    then obtain f where f: "connected w x = Some f" "connected (table_remove i w) x = Some f" by auto
    with visible_iff [OF assms(1) f(1)] visible_iff [OF table_inv_remove [OF assms(1)] f(2)] same False
    show ?thesis by simp
  qed
qed

lemma visible_remove_usb:
  assumes "table_inv w" and "connected w i = Some d" and "as_usb d \<noteq> None"
  shows "visible (table_remove i w) = (visible w - {i})
     \<union> {j. \<exists>e. connected w j = Some e \<and> as_network e \<noteq> None \<and> ser e = ser d}"
proof (rule set_eqI)
  fix x
  have usb: "j = i" if "connected w j = Some e" "as_usb e \<noteq> None" "ser e = ser d" for j e
    by (rule unique_usb [OF assms(1) that(1) assms(2) that(2) assms(3) that(3)])
  have same: "has_usb (table_remove i w) s \<longleftrightarrow> has_usb w s \<and> s \<noteq> ser d" for s
    unfolding has_usb_remove
  proof
    assume "\<exists>j e. j \<noteq> i \<and> connected w j = Some e \<and> as_usb e \<noteq> None \<and> ser e = s"
    then show "has_usb w s \<and> s \<noteq> ser d" using usb unfolding has_usb_def by blast
  next
    assume "has_usb w s \<and> s \<noteq> ser d"
    then obtain j e where e: "connected w j = Some e" "as_usb e \<noteq> None" "ser e = s" "s \<noteq> ser d"
      unfolding has_usb_def by blast
    with assms(2) have "j \<noteq> i" by auto
    with e show "\<exists>j e. j \<noteq> i \<and> connected w j = Some e \<and> as_usb e \<noteq> None \<and> ser e = s" by blast
  qed
  show "x \<in> visible (table_remove i w) \<longleftrightarrow> x \<in> (visible w - {i})
     \<union> {j. \<exists>e. connected w j = Some e \<and> as_network e \<noteq> None \<and> ser e = ser d}"
  proof (cases "x = i \<or> connected w x = None")
    case True
    then have "connected (table_remove i w) x = None" by auto
    then have out: "x \<notin> visible (table_remove i w)" using visible_connected by fastforce
    have "as_network e = None" if "connected w x = Some e" for e
      using that True assms(2,3) as_network_usb by auto
    moreover have "x \<notin> visible w - {i}" using True visible_connected [of x w] by auto
    ultimately show ?thesis using out by (simp del: table_ops_fields)
  next
    case False
    then obtain f where f: "connected w x = Some f" "connected (table_remove i w) x = Some f" by auto
    have a: "x \<in> visible w \<longleftrightarrow> as_usb f \<noteq> None \<or> \<not> has_usb w (ser f)"
      by (rule visible_iff [OF assms(1) f(1)])
    have b: "x \<in> visible (table_remove i w) \<longleftrightarrow> as_usb f \<noteq> None \<or> \<not> (has_usb w (ser f) \<and> ser f \<noteq> ser d)"
      using visible_iff [OF table_inv_remove [OF assms(1)] f(2)] same by simp
    have c: "x \<in> (visible w - {i}) \<union> {j. \<exists>e. connected w j = Some e \<and> as_network e \<noteq> None \<and> ser e = ser d}
        \<longleftrightarrow> x \<in> visible w \<or> (as_network f \<noteq> None \<and> ser f = ser d)"
      using False f(1) by simp
    show ?thesis unfolding a b c as_network_usb [of f] by blast
  qed
qed


lemma connected_insert:
  "connected (table_insert i d w) j = Some e \<longleftrightarrow> (j = i \<and> e = d) \<or> (j \<noteq> i \<and> connected w j = Some e)"
  by auto

lemma has_usb_insert:
  "has_usb (table_insert i d w) s \<longleftrightarrow>
     (as_usb d \<noteq> None \<and> ser d = s) \<or>
     (\<exists>j e. j \<noteq> i \<and> connected w j = Some e \<and> as_usb e \<noteq> None \<and> ser e = s)"
  unfolding has_usb_def connected_insert by blast

lemma has_usb_fresh:
  assumes "connected w i = None"
  shows "has_usb w s \<longleftrightarrow> (\<exists>j e. j \<noteq> i \<and> connected w j = Some e \<and> as_usb e \<noteq> None \<and> ser e = s)"
  unfolding has_usb_def using assms by (metis option.distinct(1))

lemma visible_add_network:
  assumes "table_inv w" and "table_inv w'" and "connected w' = (connected w)(i \<mapsto> Network n)"
    and "connected w i = None"
  shows "visible w' =
     (if has_usb w (nd_serial_number n) then visible w else insert i (visible w))"
proof (rule set_eqI)
  fix x
  have "has_usb w' s = has_usb (table_insert i (Network n) w) s" for s
    by (simp add: has_usb_def assms(3))
  then have same: "has_usb w' s = has_usb w s" for s
    unfolding has_usb_insert has_usb_fresh [OF assms(4)] by simp
  show "x \<in> visible w' \<longleftrightarrow>
     x \<in> (if has_usb w (nd_serial_number n) then visible w else insert i (visible w))"
  proof (cases "x = i")
    case True
    have "i \<notin> visible w" using assms(4) visible_connected [of i w] by auto
    moreover have "i \<in> visible w' \<longleftrightarrow> \<not> has_usb w (nd_serial_number n)"
      using visible_iff [OF assms(2), of i "Network n"] same assms(3) by simp
    ultimately show ?thesis using True by simp
  next
    case False
    have "x \<in> visible w' \<longleftrightarrow> x \<in> visible w"
    proof (cases "connected w x")
      case None
      with False have "connected w' x = None" by (simp add: assms(3))
      with None show ?thesis using visible_connected by fastforce
    next
      case (Some f)
      with False have "connected w' x = Some f" by (simp add: assms(3))
      from visible_iff [OF assms(1) Some] visible_iff [OF assms(2) this] same show ?thesis by simp
    qed
    with False show ?thesis by simp
  qed
qed

lemma table_inv_add_network:
  assumes "table_inv w" and "unat (counter w) + 1 < 2 ^ 64"
    and "\<forall>j e. connected w j = Some e \<longrightarrow> as_network e \<noteq> None \<longrightarrow> ser e \<noteq> nd_serial_number n"
    and "nd_id n = counter w"
  shows "connected w (counter w) = None"
    and "table_inv (table_insert (counter w) (Network n) (w\<lparr>counter := counter w + 1\<rparr>))"
proof -
  show fresh: "connected w (counter w) = None"
    using table_inv_entry [OF assms(1), of "counter w"] by (cases "connected w (counter w)") auto
  let ?w = "table_insert (counter w) (Network n) (w\<lparr>counter := counter w + 1\<rparr>)"
  have next_id: "unat (counter w + 1) = unat (counter w) + 1" by (rule unat_next [OF assms(2)])
  have "device_id d = i \<and> readable d \<and> unat i < unat (counter ?w)" if "connected ?w i = Some d" for i d
  proof (cases "i = counter w")
    case True
    with that assms(4) next_id show ?thesis by auto
  next
    case False
    with that have "connected w i = Some d" by simp
    from table_inv_entry [OF assms(1) this] next_id show ?thesis by simp
  qed
  moreover have "i = j" if "connected ?w i = Some d" "connected ?w j = Some e"
    "connection_type d = connection_type e" "ser d = ser e" for i j d e
  proof -
    have net: "connection_type f = ConnNetwork \<longleftrightarrow> as_network f \<noteq> None" for f by (cases f) auto
    have other: "connection_type f \<noteq> ConnNetwork" if "connected w k = Some f" "ser f = nd_serial_number n"
      for f k using assms(3) that net by blast
    from that(1,2) consider "i = counter w" "j = counter w"
      | "d = Network n" "connected w j = Some e" | "e = Network n" "connected w i = Some d"
      | "connected w i = Some d" "connected w j = Some e"
      unfolding connected_insert by auto
    then show ?thesis
      using that(3,4) other [of j e] other [of i d] table_inv_unique [OF assms(1), of i d j e]
      by cases simp_all
  qed
  ultimately show "table_inv ?w" unfolding table_inv_def by blast
qed

section \<open>The operations, seen by a listener\<close>

lemma shutdown_keeps:
  "shutdown ops env walk d = (r, d') \<Longrightarrow> info d' = info d \<and> core_id d' = core_id d"
  by (auto simp: shutdown_def close_all_def close_with_def drop_loops_def split: prod.splits sum.splits)

lemma device_shutdown_keeps:
  assumes "device_shutdown env d = (r, d')"
  shows "device_id d' = device_id d" "ser d' = ser d" "readable d' = readable d"
    "connection_type d' = connection_type d" "as_usb d' = None \<longleftrightarrow> as_usb d = None"
proof -
  have "device_id d' = device_id d \<and> device_serial d' = device_serial d
      \<and> connection_type d' = connection_type d \<and> (as_usb d' = None \<longleftrightarrow> as_usb d = None)"
  proof (cases d)
    case (Usb u)
    with assms obtain u' where "shutdown (env_ops env) (env_writer env) (env_conn_walk env) u = (r, u')"
      and d': "d' = Usb u'" by (auto split: prod.splits)
    from shutdown_keeps [OF this(1)] Usb d' show ?thesis by simp
  next
    case (Network n)
    with assms show ?thesis by (auto simp: network_shutdown_def)
  qed
  then show "device_id d' = device_id d" "ser d' = ser d" "readable d' = readable d"
    "connection_type d' = connection_type d" "as_usb d' = None \<longleftrightarrow> as_usb d = None"
    by (simp_all add: ser_def readable_def)
qed

lemma listed_readable: "env_law env \<Longrightarrow> table_inv w \<Longrightarrow> d \<in> set (devices env w) \<Longrightarrow> readable d"
  using devices_set table_inv_entry by blast

lemma any_usb_search:
  assumes "env_law env" and "table_inv w" and "readable device"
  shows "any_dev (usb_with_serial_of device) (devices env w) = Ok (has_usb w (ser device))"
proof -
  have "any_dev (usb_with_serial_of device) (devices env w)
      = Ok (\<exists>d \<in> set (devices env w). as_usb d \<noteq> None \<and> ser d = ser device)"
    by (rule any_dev_total) (rule with_serial_of(2) [OF assms(3) listed_readable [OF assms(1,2)]])
  moreover have "(\<exists>d \<in> set (devices env w). as_usb d \<noteq> None \<and> ser d = ser device) = has_usb w (ser device)"
    using devices_set [OF assms(1)] unfolding has_usb_def by blast
  ultimately show ?thesis by simp
qed

lemma find_network_search:
  assumes "env_law env" and "table_inv w" and "readable device"
  obtains
    (none) "find_dev (network_with_serial_of device) (devices env w) = Ok None"
      "\<forall>j e. connected w j = Some e \<longrightarrow> as_network e \<noteq> None \<longrightarrow> ser e \<noteq> ser device"
  | (one) n where "find_dev (network_with_serial_of device) (devices env w) = Ok (Some n)"
      "connected w (device_id n) = Some n" "as_network n \<noteq> None" "ser n = ser device"
proof -
  let ?Q = "\<lambda>d. as_network d \<noteq> None \<and> ser d = ser device"
  have eq: "find_dev (network_with_serial_of device) (devices env w) = Ok (find ?Q (devices env w))"
    by (rule find_dev_total) (rule with_serial_of(1) [OF assms(3) listed_readable [OF assms(1,2)]])
  show ?thesis
  proof (cases "find ?Q (devices env w)")
    case None
    then have "\<forall>d \<in> set (devices env w). \<not> ?Q d" by (simp add: find_None_iff)
    then have "\<forall>j e. connected w j = Some e \<longrightarrow> as_network e \<noteq> None \<longrightarrow> ser e \<noteq> ser device"
      using devices_set [OF assms(1)] by blast
    then show ?thesis using none eq None by presburger
  next
    case (Some n)
    then have n: "n \<in> set (devices env w)" "?Q n" by (auto simp: find_Some_iff)
    then obtain i where i: "connected w i = Some n" using devices_set [OF assms(1)] by blast
    with table_inv_entry [OF assms(2) i] show ?thesis using one eq Some n(2) by auto
  qed
qed

text \<open>The listener's knowledge has followed the table, and the table is in order.\<close>

definition tracked :: "world \<Rightarrow> world \<Rightarrow> bool" where
  "tracked w w' \<longleftrightarrow>
     table_inv w' \<and> (\<exists>evs. events w' = events w @ evs \<and> visible w' = view evs (visible w))"

lemma trackedI:
  "table_inv w' \<Longrightarrow> events w' = events w @ evs \<Longrightarrow> visible w' = view evs (visible w) \<Longrightarrow> tracked w w'"
  unfolding tracked_def by blast

lemma tracked_refl: "table_inv w \<Longrightarrow> tracked w w"
  by (rule trackedI [where evs = "[]"]) simp_all

lemma tracked_trans: "tracked u v \<Longrightarrow> tracked v w \<Longrightarrow> tracked u w"
  unfolding tracked_def using view_append by (metis append.assoc)

text \<open>The removal of a network device that is announced unless a USB device hides it.\<close>

lemma remove_network_tracked:
  assumes "table_inv w" and "connected w i = Some d" and "as_usb d = None"
  shows "tracked w (if has_usb (table_remove i w) (ser d) then table_remove i w
     else send_event (Detached i) (table_remove i w))"
proof -
  have "has_usb (table_remove i w) (ser d) \<Longrightarrow> i \<notin> visible w"
    using has_usb_remove_imp visible_iff [OF assms(1,2)] assms(3) by simp
  with visible_remove_network [OF assms] table_inv_remove [OF assms(1)] show ?thesis
    by (intro trackedI [where evs = "if has_usb (table_remove i w) (ser d) then [] else [Detached i]"]) auto
qed

text \<open>Each operation keeps a listener up to date, and none of them panics on such a table.\<close>

lemma add_resolved_tracks:
  assumes "table_inv w" and "env_law env" and "unat (counter w) + 1 < 2 ^ 64"
  shows "\<exists>w'. add_resolved env create rd w = Ok w' \<and> tracked w w'"
proof (cases "\<exists>d \<in> set (devices env w). \<exists>n. as_network d = Some n \<and> nd_serial_number n = rd_udid rd")
  case True
  then show ?thesis using assms(1) by (simp add: add_resolved_def tracked_refl)
next
  case False
  let ?w1 = "w\<lparr>counter := counter w + 1\<rparr>"
  show ?thesis
  proof (cases "create rd")
    case (Inl e)
    have "unat (counter w + 1) = unat (counter w) + 1" by (rule unat_next [OF assms(3)])
    with assms(1) have "table_inv ?w1" by (auto simp: table_inv_def intro: less_SucI)
    then have "tracked w ?w1" by (intro trackedI [where evs = "[]"]) simp_all
    with Inl show ?thesis unfolding add_resolved_def if_not_P [OF False] by (simp add: take_new_id_def)
  next
    case (Inr ip)
    define n where "n = network_new (counter w) ip (Some (rd_scope_id rd)) (rd_mac_address rd)
       (rd_service_name rd) (rd_udid rd)"
    have n: "nd_id n = counter w" "nd_serial_number n = rd_udid rd"
      by (simp_all add: n_def network_new_def)
    have unused: "\<forall>j e. connected w j = Some e \<longrightarrow> as_network e \<noteq> None \<longrightarrow> ser e \<noteq> nd_serial_number n"
    proof (intro allI impI)
      fix j e assume e: "connected w j = Some e" "as_network e \<noteq> None"
      then have "e \<in> set (devices env w)" using devices_set [OF assms(2)] by blast
      with False e(2) n(2) show "ser e \<noteq> nd_serial_number n" by (cases e) auto
    qed
    let ?w2 = "table_insert (counter w) (Network n) ?w1"
    have fresh: "connected w (counter w) = None" and inv: "table_inv ?w2"
      by (rule table_inv_add_network [OF assms(1,3) unused n(1)])+
    have usb: "has_usb ?w2 s = has_usb w s" for s
      unfolding has_usb_insert has_usb_fresh [OF fresh] by simp
    have vis: "visible ?w2 = (if has_usb w (nd_serial_number n) then visible w else insert (counter w) (visible w))"
      by (rule visible_add_network [OF assms(1) inv _ fresh]) simp
    have "any_dev (usb_with_serial_of (Network n)) (devices env ?w2) = Ok (has_usb w (nd_serial_number n))"
      using any_usb_search [OF assms(2) inv readable_network [of n]] usb by simp
    then have res: "add_resolved env create rd w
        = Ok (if has_usb w (nd_serial_number n) then ?w2 else send_event (Attached (counter w)) ?w2)"
      using Inr unfolding add_resolved_def if_not_P [OF False]
      by (simp add: take_new_id_def n_def [symmetric] Let_def)
    have "tracked w (if has_usb w (nd_serial_number n) then ?w2 else send_event (Attached (counter w)) ?w2)"
      by (rule trackedI [where evs = "if has_usb w (nd_serial_number n) then [] else [Attached (counter w)]"])
        (use inv vis in simp_all)
    with res show ?thesis by blast
  qed
qed

lemma service_removed_tracks:
  assumes "table_inv w" and "env_law env"
  shows "\<exists>w'. service_removed env name w = Ok w' \<and> tracked w w'"
proof (cases "find (has_mac (before_at name)) (devices env w)")
  case None
  then show ?thesis using assms(1) by (simp add: service_removed_def tracked_refl)
next
  case (Some d)
  then have d: "d \<in> set (devices env w)" "has_mac (before_at name) d" by (auto simp: find_Some_iff)
  then obtain i where i: "connected w i = Some d" using devices_set [OF assms(2)] by blast
  then have id_d: "device_id d = i" using table_inv_entry [OF assms(1)] by blast
  have net: "as_usb d = None" using d(2) by (cases d) (auto simp: has_mac_def)
  obtain r d' where sh: "device_shutdown env d = (r, d')" by fastforce
  note keep = device_shutdown_keeps [OF sh]
  have inv: "table_inv (table_remove i w)" by (rule table_inv_remove [OF assms(1)])
  have rd: "readable d'" using keep(3) table_inv_entry [OF assms(1) i] by simp
  let ?w' = "if has_usb (table_remove i w) (ser d) then table_remove i w
     else send_event (Detached i) (table_remove i w)"
  have "service_removed env name w = Ok ?w'"
    using Some i id_d sh any_usb_search [OF assms(2) inv rd] keep(2)
    by (simp add: service_removed_def Let_def)
  then show ?thesis using remove_network_tracked [OF assms(1) i net] by blast
qed

text \<open>What removing a device by its identifier sends, once its shutdown has succeeded.\<close>

lemma remove_device_network:
  assumes "table_inv w" and "env_law env" and "connected w i = Some (Network n)"
  shows "\<exists>r w'. remove_device env i w = (Ok r, w') \<and> tracked w w' \<and> i \<notin> visible w'"
proof -
  obtain r d' where sh: "device_shutdown env (Network n) = (Inr (), d')"
    and d': "d' = Network (network_shutdown n)" by simp
  note keep = device_shutdown_keeps [OF sh]
  have inv: "table_inv (table_remove i w)" by (rule table_inv_remove [OF assms(1)])
  have rd: "readable d'" by (simp add: d')
  have id_n: "nd_id n = i" using table_inv_entry [OF assms(1,3)] by simp
  let ?w' = "if has_usb (table_remove i w) (ser d') then table_remove i w
     else send_event (Detached i) (table_remove i w)"
  have "remove_device env i w = (Ok d', ?w')"
    using assms(3) id_n any_usb_search [OF assms(2) inv rd]
    by (simp add: remove_device_def announce_removal_def d' network_shutdown_def Let_def)
  moreover have out: "i \<notin> visible ?w'"
    using visible_connected [of i "table_remove i w"] by auto
  moreover have "tracked w ?w'" using remove_network_tracked [OF assms(1,3)] keep(2) by simp
  ultimately show ?thesis by blast
qed

lemma usb_disconnected_tracks:
  assumes "table_inv w" and "env_law env" and "connected w i = Some d"
    and "fst (device_shutdown env d) = Inr ()"
  shows "\<exists>w'. usb_disconnected env i w = (Ok (), w') \<and> tracked w w'"
proof (cases d)
  case (Network n)
  with remove_device_network [OF assms(1,2)] assms(3) obtain r w1
    where r: "remove_device env i w = (Ok r, w1)" "tracked w w1" "i \<notin> visible w1" by blast
  have "tracked w1 (send_event (Detached i) w1)"
    by (rule trackedI [where evs = "[Detached i]"]) (use r(2,3) tracked_def in auto)
  from tracked_trans [OF r(2) this] r(1) show ?thesis by (simp add: usb_disconnected_def)
next
  case (Usb u)
  then have usb: "as_usb d \<noteq> None" by simp
  obtain d' where sh: "device_shutdown env d = (Inr (), d')" using assms(4) by (cases "device_shutdown env d") auto
  note keep = device_shutdown_keeps [OF sh]
  have inv: "table_inv (table_remove i w)" by (rule table_inv_remove [OF assms(1)])
  have rd: "readable d'" using keep(3) table_inv_entry [OF assms(1,3)] by simp
  have ct: "connection_type d' = ConnUsb" using keep(4) Usb by simp
  note vis = visible_remove_usb [OF assms(1,3) usb]
  show ?thesis
  proof (rule find_network_search [OF assms(2) inv rd])
    assume f: "find_dev (network_with_serial_of d') (devices env (table_remove i w)) = Ok None"
      and no: "\<forall>j e. connected (table_remove i w) j = Some e \<longrightarrow> as_network e \<noteq> None \<longrightarrow> ser e \<noteq> ser d'"
    have "{j. \<exists>e. connected w j = Some e \<and> as_network e \<noteq> None \<and> ser e = ser d} = {}"
    proof (rule ccontr)
      assume "\<not> ?thesis"
      then obtain j e where e: "connected w j = Some e" "as_network e \<noteq> None" "ser e = ser d" by blast
      then have "j \<noteq> i" using assms(3) Usb by auto
      with e(1) have "connected (table_remove i w) j = Some e" by simp
      with no e(2,3) keep(2) show False by metis
    qed
    with vis have v: "visible (table_remove i w) = visible w - {i}" by (simp only: Un_empty_right)
    have "usb_disconnected env i w = (Ok (), send_event (Detached i) (table_remove i w))"
      using assms(3) sh f ct by (simp add: usb_disconnected_def remove_device_def announce_removal_def)
    moreover have "tracked w (send_event (Detached i) (table_remove i w))"
      by (rule trackedI [where evs = "[Detached i]"]) (use inv v in simp_all)
    ultimately show ?thesis by blast
  next
    fix n
    assume f: "find_dev (network_with_serial_of d') (devices env (table_remove i w)) = Ok (Some n)"
      and n: "connected (table_remove i w) (device_id n) = Some n" "as_network n \<noteq> None" "ser n = ser d'"
    from n(1) have n': "connected w (device_id n) = Some n" "device_id n \<noteq> i" by (auto split: if_splits)
    have "{j. \<exists>e. connected w j = Some e \<and> as_network e \<noteq> None \<and> ser e = ser d} = {device_id n}"
      using network_entries [OF assms(1) n'(1) n(2)] n(3) keep(2) by (simp only:)
    with vis have v: "visible (table_remove i w) = (visible w - {i}) \<union> {device_id n}" by (simp only:)
    have "usb_disconnected env i w
        = (Ok (), send_event (Detached i) (send_event (Attached (device_id n)) (table_remove i w)))"
      using assms(3) sh f ct by (simp add: usb_disconnected_def remove_device_def announce_removal_def)
    moreover have "tracked w (send_event (Detached i) (send_event (Attached (device_id n)) (table_remove i w)))"
      by (rule trackedI [where evs = "[Attached (device_id n), Detached i]"]) (use inv v n'(2) in auto)
    ultimately show ?thesis by blast
  qed
qed

section \<open>Connecting a USB device\<close>

lemma retain_other_serials_spec:
  assumes "readable device" and "\<forall>k d. m k = Some d \<longrightarrow> readable d"
  shows "retain_other_serials env device is m =
     Ok (\<lambda>k. if k \<in> set is \<and> map_option ser (m k) = Some (ser device) then None else m k)"
  using assms(2)
proof (induction "is" arbitrary: m)
  case Nil
  show ?case by simp
next
  case (Cons i "is")
  show ?case
  proof (cases "m i")
    case None
    then show ?thesis by (auto simp: Cons.IH [OF Cons.prems] fun_eq_iff)
  next
    case (Some d)
    let ?m = "if ser d = ser device then m(i := None) else m"
    have "\<forall>k d. ?m k = Some d \<longrightarrow> readable d" using Cons.prems by auto
    note IH = Cons.IH [OF this]
    have "same_serial d device = Ok (ser d = ser device)"
      using same_serial_readable Cons.prems Some assms(1) by blast
    then have "retain_other_serials env device (i # is) m = retain_other_serials env device is ?m"
      using Some by simp
    also note IH
    finally show ?thesis using Some by (auto simp: fun_eq_iff)
  qed
qed

text \<open>The table after a USB device of serial number \<open>s\<close> has been entered.\<close>

definition replaced :: "string \<Rightarrow> u64 \<Rightarrow> Device \<Rightarrow> world \<Rightarrow> u64 \<rightharpoonup> Device" where
  "replaced s i device w =
     (\<lambda>k. if map_option ser (connected w k) = Some s then None else connected w k)(i \<mapsto> device)"

lemma replaced_Some:
  "replaced s i device w k = Some e \<longleftrightarrow>
     (k = i \<and> e = device) \<or> (k \<noteq> i \<and> connected w k = Some e \<and> ser e \<noteq> s)"
  by (auto simp: replaced_def)

lemma table_inv_replaced:
  assumes "table_inv w" and "connected w' = replaced (ser device) i device w" and "counter w' = counter w"
    and "readable device" and "device_id device = i" and "unat i < unat (counter w)"
  shows "table_inv w'"
proof -
  have "device_id d = k \<and> readable d \<and> unat k < unat (counter w')" if "connected w' k = Some d" for k d
    using that table_inv_entry [OF assms(1), of k d] assms(3-6) unfolding assms(2) replaced_Some by auto
  moreover have "k = l" if "connected w' k = Some d" "connected w' l = Some e"
    "connection_type d = connection_type e" "ser d = ser e" for k l d e
    using that table_inv_unique [OF assms(1), of k d l e] unfolding assms(2) replaced_Some by auto
  ultimately show ?thesis unfolding table_inv_def by blast
qed

lemma visible_replaced:
  assumes "table_inv w" and "table_inv w'" and "connected w' = replaced (ser device) i device w"
    and "as_usb device \<noteq> None" and "connected w i = None"
  shows "visible w' = insert i (visible w - {j. map_option ser (connected w j) = Some (ser device)})"
proof (rule set_eqI)
  fix x
  have other: "has_usb w' t = has_usb w t" if "t \<noteq> ser device" for t
  proof -
    have "has_usb w' t \<longleftrightarrow> (\<exists>j e. j \<noteq> i \<and> connected w j = Some e \<and> as_usb e \<noteq> None \<and> ser e = t)"
      unfolding has_usb_def assms(3) replaced_Some using that by metis
    then show ?thesis unfolding has_usb_fresh [OF assms(5)] .
  qed
  show "x \<in> visible w' \<longleftrightarrow> x \<in> insert i (visible w - {j. map_option ser (connected w j) = Some (ser device)})"
  proof (cases "connected w' x")
    case None
    then have "x \<noteq> i" and "connected w x = None \<or> map_option ser (connected w x) = Some (ser device)"
      unfolding assms(3) by (auto simp: replaced_def split: if_splits)
    then show ?thesis using visible_connected [of x w] visible_connected [of x w'] None by auto
  next
    case (Some f)
    then have "(x = i \<and> f = device) \<or> (x \<noteq> i \<and> connected w x = Some f \<and> ser f \<noteq> ser device)"
      unfolding assms(3) replaced_Some .
    then show ?thesis
      using visible_iff [OF assms(2) Some] visible_iff [OF assms(1), of x f] assms(4) other [of "ser f"] by auto
  qed
qed

lemma retain_spec_world:
  assumes "table_inv w" and "env_law env" and "readable device"
  shows "retain_other_serials env device (env_walk env (connected w)) (connected w) =
     Ok (\<lambda>k. if map_option ser (connected w k) = Some (ser device) then None else connected w k)"
proof -
  have "\<forall>k d. connected w k = Some d \<longrightarrow> readable d" using table_inv_entry [OF assms(1)] by blast
  from retain_other_serials_spec [OF assms(3) this] assms(2) show ?thesis
    by (auto simp: env_law_def fun_eq_iff)
qed

definition detach_found :: "Device option \<Rightarrow> world \<Rightarrow> world" where
  "detach_found found w =
     (case found of None \<Rightarrow> w | Some ndev \<Rightarrow> send_event (Detached (device_id ndev)) w)"

lemma found_network_detached:
  assumes "table_inv w" and "env_law env" and "readable device"
  shows "\<exists>found evs. find_dev (network_with_serial_of device) (devices env w) = Ok found
     \<and> detach_found found w = w\<lparr>events := events w @ evs\<rparr>
     \<and> view evs (visible w) = visible w -
          {j. \<exists>e. connected w j = Some e \<and> as_network e \<noteq> None \<and> ser e = ser device}"
proof (rule find_network_search [OF assms(2,1,3)])
  assume f: "find_dev (network_with_serial_of device) (devices env w) = Ok None"
    and none: "\<forall>j e. connected w j = Some e \<longrightarrow> as_network e \<noteq> None \<longrightarrow> ser e \<noteq> ser device"
  from none have "view [] (visible w) = visible w -
      {j. \<exists>e. connected w j = Some e \<and> as_network e \<noteq> None \<and> ser e = ser device}" by auto
  with f show ?thesis by (intro exI [of _ None] exI [of _ "[]"]) (simp add: detach_found_def)
next
  fix n
  assume f: "find_dev (network_with_serial_of device) (devices env w) = Ok (Some n)"
    and n: "connected w (device_id n) = Some n" "as_network n \<noteq> None" "ser n = ser device"
  from network_entries [OF assms(1) n(1,2)] n(3) have "view [Detached (device_id n)] (visible w) =
      visible w - {j. \<exists>e. connected w j = Some e \<and> as_network e \<noteq> None \<and> ser e = ser device}"
    by (simp only: view.simps)
  with f show ?thesis
    by (intro exI [of _ "Some n"] exI [of _ "[Detached (device_id n)]"])
      (simp add: detach_found_def send_event_def)
qed

section \<open>Properties\<close>

text \<open>The operations of both watchers, apart from the connection of a USB device.\<close>

inductive watch_step :: "daemon_env \<Rightarrow> world \<Rightarrow> world \<Rightarrow> bool" for env where
  step_network: "unat (counter w) + 1 < 2 ^ 64 \<Longrightarrow>
     network_event env decode derive saved create e w = Ok w' \<Longrightarrow> watch_step env w w'"
| step_heartbeat_lost: "connected w i = Some (Network n) \<Longrightarrow> remove_device env i w = (r, w')
     \<Longrightarrow> watch_step env w w'"
| step_unplugged: "connected w i = Some d \<Longrightarrow> fst (device_shutdown env d) = Inr ()
     \<Longrightarrow> usb_disconnected env i w = (r, w') \<Longrightarrow> watch_step env w w'"
| step_unknown: "connected w i = None \<Longrightarrow> usb_disconnected env i w = (r, w') \<Longrightarrow> watch_step env w w'"

lemma watch_step_tracks:
  assumes "watch_step env w w'" and "table_inv w" and "env_law env"
  shows "tracked w w'"
  using assms(1)
proof cases
  case (step_network decode derive saved create e)
  show ?thesis
  proof (cases e)
    case (ServiceResolved rs)
    with step_network(2) obtain rd where "w' = w \<or> add_resolved env create rd w = Ok w'"
      by (cases "resolve_service decode derive saved rs")
        (auto simp: network_device_add_def split: option.splits)
    with add_resolved_tracks [OF assms(2,3) step_network(1), of create rd] tracked_refl [OF assms(2)]
    show ?thesis by auto
  next
    case (ServiceRemoved name)
    with step_network(2) service_removed_tracks [OF assms(2,3), of name] show ?thesis by simp
  next
    case OtherServiceEvent
    with step_network(2) tracked_refl [OF assms(2)] show ?thesis by simp
  qed
next
  case (step_heartbeat_lost i n r)
  with remove_device_network [OF assms(2,3) step_heartbeat_lost(1)] show ?thesis by auto
next
  case (step_unplugged i d r)
  with usb_disconnected_tracks [OF assms(2,3) step_unplugged(1,2)] show ?thesis by auto
next
  case (step_unknown i r)
  then show ?thesis using assms(2) by (simp add: usb_disconnected_def remove_device_def tracked_refl)
qed

interpretation watchers: machine "\<lambda>w. env_law env \<and> table_inv w \<and> w = w0" "watch_step env"
  "\<lambda>w. env_law env \<and> tracked w0 w" for env w0
proof unfold_locales
  show "env_law env \<and> tracked w0 w" if "env_law env \<and> table_inv w \<and> w = w0" for w
    using that tracked_refl by blast
  show "env_law env \<and> tracked w0 w'" if "env_law env \<and> tracked w0 w" "watch_step env w w'" for w w'
    using that watch_step_tracks tracked_trans unfolding tracked_def by metis
qed

text \<open>
  Listeners follow the table: whatever the network watcher, the heartbeat and the removals of
  the USB watcher do, in any order, a listener that applies the events sent since it looked knows
  exactly the visible devices (one entry for a phone reached both ways, the USB one), and the
  table stays in order: one entry of each kind for a serial number, identifiers never reused. A
  failing shutdown of an unplugged device is excluded.
\<close>
theorem listeners_track:
  assumes "(watch_step env)\<^sup>*\<^sup>* w w'" and "table_inv w" and "env_law env"
  shows "(\<exists>evs. events w' = events w @ evs \<and> visible w' = view evs (visible w)) \<and> table_inv w'"
  using watchers.reach_inv [of env w w w'] assms unfolding tracked_def by blast

definition sample_env :: daemon_env where
  "sample_env = \<lparr>env_os = Linux, env_endian = Little, env_ops = rfc_ops, env_hash = word_of_nat,
     env_writer = open_env 0, env_conn_walk = (\<lambda>_. []),
     env_walk = (\<lambda>m. filter (\<lambda>k. m k \<noteq> None) (map word_of_nat [0..<2 ^ 64]))\<rparr>"

lemma sample_env_law: "env_law sample_env"
proof -
  have "k \<in> word_of_nat ` {0..<2 ^ 64}" for k :: u64
    using unsigned_less [of k] by (intro image_eqI [of _ _ "unat k"]) auto
  then show ?thesis by (auto simp: env_law_def sample_env_def)
qed

definition sample_world :: world where
  "sample_world = \<lparr>connected = Map.empty, events = [], counter = 5\<rparr>"

definition sample_resolved :: ResolvedDevice where
  "sample_resolved = \<lparr>rd_addr = (IPv4 1, None), rd_scope_id = 0, rd_mac_address = ''m'',
     rd_service_name = ''m@s'', rd_udid = ''u''\<rparr>"

lemma sample_world_facts:
  "table_inv sample_world" "devices sample_env sample_world = []" "visible sample_world = {}"
  using devices_set [OF sample_env_law, of _ sample_world]
  by (auto simp: table_inv_def sample_world_def visible_def devices_def List.map_filter_def)

definition sample_added :: world where
  "sample_added = table_insert 5 (Network (network_new 5 (IPv4 1) (Some 0) ''m'' ''m@s'' ''u''))
     (sample_world\<lparr>counter := 6\<rparr>)"

lemma sample_added_facts: "table_inv sample_added" "\<not> has_usb sample_added s"
  by (auto simp: sample_added_def sample_world_def table_inv_def network_new_def has_usb_def
      split: if_splits)

lemma sample_add:
  "add_resolved sample_env (\<lambda>_. Inr (IPv4 1)) sample_resolved sample_world
     = Ok (send_event (Attached 5) sample_added)"
proof -
  let ?d = "Network (network_new 5 (IPv4 1) (Some 0) ''m'' ''m@s'' ''u'')"
  have "any_dev (usb_with_serial_of ?d) (devices sample_env sample_added) = Ok False"
    using any_usb_search [OF sample_env_law sample_added_facts(1) readable_network] sample_added_facts(2)
    by simp
  moreover have "sample_added = table_insert 5 ?d (sample_world\<lparr>counter := 6\<rparr>)" by (rule sample_added_def)
  moreover have "take_new_id (counter sample_world) = (5, 6)"
    by (simp add: take_new_id_def sample_world_def)
  ultimately show ?thesis
    by (simp add: add_resolved_def sample_world_facts(2) sample_resolved_def)
qed

definition sample_service :: ResolvedService where
  "sample_service = \<lparr>rs_addresses = [ScopedV4 1 []], rs_properties = [], rs_fullname = ''m@s''\<rparr>"

lemma sample_resolves:
  "resolve_service Some derive [\<lparr>pf_udid = ''u'', pf_host_id = ''h'', pf_wifi_mac = ''m''\<rparr>] sample_service
     = Ok (Some sample_resolved)"
  by (simp add: resolve_service_def sample_service_def sample_resolved_def choose_address_def
      property_val_def get_udid_from_mac_addr_def Let_def)

theorem listeners_track_witness:
  "visible (send_event (Attached 5) sample_added) = {5} \<and> table_inv (send_event (Attached 5) sample_added)"
proof -
  have n: "unat (counter sample_world) + 1 < 2 ^ 64" by (simp add: sample_world_def)
  have "network_event sample_env Some (\<lambda>_ _. []) [\<lparr>pf_udid = ''u'', pf_host_id = ''h'', pf_wifi_mac = ''m''\<rparr>]
      (\<lambda>_. Inr (IPv4 1)) (ServiceResolved sample_service) sample_world
      = Ok (send_event (Attached 5) sample_added)"
    by (simp add: network_device_add_def sample_resolves sample_add)
  from step_network [OF n this]
  have "(watch_step sample_env)\<^sup>*\<^sup>* sample_world (send_event (Attached 5) sample_added)" by blast
  from listeners_track [OF this sample_world_facts(1) sample_env_law]
  have t: "table_inv (send_event (Attached 5) sample_added)"
    and "\<exists>evs. events (send_event (Attached 5) sample_added) = events sample_world @ evs
       \<and> visible (send_event (Attached 5) sample_added) = view evs (visible sample_world)" by blast+
  then obtain evs where evs: "events (send_event (Attached 5) sample_added) = events sample_world @ evs"
    and v: "visible (send_event (Attached 5) sample_added) = view evs {}"
    unfolding sample_world_facts(3) by blast
  from evs have "evs = [Attached 5]" by (simp add: sample_added_def sample_world_def)
  with v have "visible (send_event (Attached 5) sample_added) = {5}" by simp
  with t show ?thesis by blast
qed

text \<open>
  C30. What listeners are told when a USB device is connected: only that the network entry of the
  same phone is gone. The new device, which is visible from then on, and a stale USB entry it
  replaces are never announced; and the network entry is removed from the table, so it does not
  come back when the cable is pulled.
\<close>
theorem usb_connect_unannounced:
  assumes "table_inv w" and "env_law env" and "readable (Usb usb)" and "core_id usb = i"
    and "connected w i = None" and "unat i < unat (counter w)"
  shows "\<exists>w' evs. usb_connected env usb i w = Ok w' \<and> events w' = events w @ evs
     \<and> connected w' i = Some (Usb (set_disconnected_tx usb)) \<and> table_inv w'
     \<and> (\<forall>j e. connected w' j = Some e \<and> ser e = ser (Usb usb) \<longleftrightarrow>
           j = i \<and> e = Usb (set_disconnected_tx usb))
     \<and> visible w' = insert i (visible w - {j. map_option ser (connected w j) = Some (ser (Usb usb))})
     \<and> view evs (visible w) = visible w -
          {j. \<exists>e. connected w j = Some e \<and> as_network e \<noteq> None \<and> ser e = ser (Usb usb)}
     \<and> i \<notin> view evs (visible w)"
proof -
  define device where "device = Usb (set_disconnected_tx usb)"
  have dev: "readable device" "ser device = ser (Usb usb)" "device_id device = i" "as_usb device \<noteq> None"
    using assms(3,4) by (simp_all add: device_def set_disconnected_tx_def readable_def ser_def)
  obtain found evs where f: "find_dev (network_with_serial_of device) (devices env w) = Ok found"
    and evs: "detach_found found w = w\<lparr>events := events w @ evs\<rparr>"
    and view: "view evs (visible w) = visible w -
      {j. \<exists>e. connected w j = Some e \<and> as_network e \<noteq> None \<and> ser e = ser device}"
    using found_network_detached [OF assms(1,2) dev(1)] by blast
  define w' where "w' = w\<lparr>events := events w @ evs, connected := replaced (ser device) i device w\<rparr>"
  have c: "connected w' = replaced (ser device) i device w" "counter w' = counter w"
    "events w' = events w @ evs" by (simp_all add: w'_def)
  have "usb_connected env usb i w = Ok w'"
    using f retain_spec_world [OF assms(1,2) dev(1)]
    by (simp add: usb_connected_def device_def [symmetric] detach_found_def [symmetric] evs w'_def
        Let_def table_insert_def replaced_def)
  moreover have inv: "table_inv w'" by (rule table_inv_replaced [OF assms(1) c(1,2) dev(1,3) assms(6)])
  moreover note visible_replaced [OF assms(1) inv c(1) dev(4) assms(5)]
  moreover have "connected w' i = Some device" by (simp add: c replaced_def)
  moreover have "\<forall>j e. connected w' j = Some e \<and> ser e = ser device \<longleftrightarrow> j = i \<and> e = device"
    unfolding c replaced_Some by auto
  moreover have "i \<notin> visible w" using visible_connected [of i w] assms(5) by auto
  ultimately show ?thesis using c(3) view unfolding dev(2) device_def [symmetric] by blast
qed

theorem usb_connect_unannounced_witness:
  "\<exists>w' evs. usb_connected sample_env (fresh_device (Nusb sample_nusb) 4 (version_new 2 0 0)) 4 sample_world
       = Ok w' \<and> visible w' = {4} \<and> view evs {} = {} \<and> events w' = evs"
proof -
  have "readable (Usb (fresh_device (Nusb sample_nusb) 4 (version_new 2 0 0)))"
    by (simp add: readable_def ser_def sample_nusb_def fresh_device_def)
  from usb_connect_unannounced [OF sample_world_facts(1) sample_env_law this, of 4]
  obtain w' evs where "usb_connected sample_env (fresh_device (Nusb sample_nusb) 4 (version_new 2 0 0)) 4
      sample_world = Ok w'" "events w' = events sample_world @ evs"
    "visible w' = insert 4 (visible sample_world - {j. map_option ser (connected sample_world j) =
        Some (ser (Usb (fresh_device (Nusb sample_nusb) 4 (version_new 2 0 0))))})"
    "view evs (visible sample_world) = visible sample_world - {j. \<exists>e. connected sample_world j = Some e
        \<and> as_network e \<noteq> None \<and> ser e = ser (Usb (fresh_device (Nusb sample_nusb) 4 (version_new 2 0 0)))}"
    by (auto simp: fresh_device_def sample_world_def)
  then show ?thesis by (simp add: sample_world_facts(3)) (simp add: sample_world_def)
qed

text \<open>
  The USB watcher survives only as long as every reported Apple device can be opened: when
  the first attempt and all attempts of the following three seconds fail for one device, the
  stream of events yields that error and ends, and no later event of any device is seen.
\<close>
theorem usb_watch_stops:
  assumes "\<forall>x \<in> set (fst (watch_usb hash open_usb attempts before)). \<exists>ev. x = Inr ev"
    and "\<not> snd (watch_usb hash open_usb attempts before)"
    and "(vendor_id dinfo :: (RusbmuxError, u16) outcome) = Ok APPLE_VID"
    and "open_usb dinfo i = Inl e"
    and "\<forall>(listed, open_again) \<in> set (attempts i). \<forall>d \<in> set listed.
           opaque_id hash d = opaque_id hash dinfo \<longrightarrow> (\<exists>e'. open_again d i = Inl e')"
  shows "watch_usb hash open_usb attempts (before @ Inr (Connected dinfo i) # later)
     = (fst (watch_usb hash open_usb attempts before) @ [Inl e], False)"
proof -
  have "retry_open hash (opaque_id hash dinfo) i e as = Inl e"
    if "\<forall>(listed, open_again) \<in> set as. \<forall>d \<in> set listed.
           opaque_id hash d = opaque_id hash dinfo \<longrightarrow> (\<exists>e'. open_again d i = Inl e')" for as
    using that
  proof (induction as)
    case (Cons a as)
    obtain listed open_again where a: "a = (listed, open_again)" by fastforce
    show ?case
    proof (cases "find (\<lambda>d. opaque_id hash d = opaque_id hash dinfo) listed")
      case None
      with Cons a show ?thesis by simp
    next
      case (Some d)
      then have "d \<in> set listed" "opaque_id hash d = opaque_id hash dinfo" by (auto simp: find_Some_iff)
      with Cons.prems a obtain e' where "open_again d i = Inl e'" by fastforce
      with Some Cons a show ?thesis by simp
    qed
  qed simp
  with assms(3-5) have last: "watch_usb hash open_usb attempts (Inr (Connected dinfo i) # later) = ([Inl e], False)"
    by (simp add: open_reported_def)
  show ?thesis using assms(1,2)
  proof (induction before)
    case Nil
    show ?case using last by simp
  next
    case (Cons x xs)
    show ?case
    proof (cases x)
      case (Inl err)
      with Cons show ?thesis by simp
    next
      case (Inr ev)
      with Cons show ?thesis by (cases ev) (auto split: outcome.splits sum.splits if_splits)
    qed
  qed
qed

theorem usb_watch_stops_witness:
  "watch_usb word_of_nat (\<lambda>_ _. Inl HotPlugNotSupported) (\<lambda>_. [])
     ([Inr (Disconnected 3)] @ Inr (Connected (Nusb sample_nusb) 4) # [Inr (Disconnected 5)])
   = ([Inr (UsbDisconnected 3), Inl HotPlugNotSupported], False)"
proof -
  have "(vendor_id (Nusb sample_nusb) :: (RusbmuxError, u16) outcome) = Ok APPLE_VID"
    by (simp add: sample_nusb_def APPLE_VID_def)
  from usb_watch_stops [OF _ _ this, of word_of_nat "\<lambda>_ _. Inl HotPlugNotSupported" "\<lambda>_. []"
      "[Inr (Disconnected 3)]" 4 HotPlugNotSupported "[Inr (Disconnected 5)]"]
  show ?thesis by simp
qed

end
