(* ===== verification/Proxy.thy ===== *)
theory Proxy
  imports Watcher
begin

text \<open>
  Connections of clients to devices: \<^verbatim>\<open>src/handler/connect.rs\<close>, \<^verbatim>\<open>src/conn/mod.rs\<close> and
  \<open>Device::connect\<close>. The loop that serves a USB connection waits for three things at once; the
  sequence in which they become ready is an argument, and so are what the client sends and which
  writes to it fail.
\<close>

section \<open>Connections\<close>

text \<open>A USB connection is shared: it is named by its place in the heap of its device.\<close>

datatype DeviceConn = NetworkConn NetworkDeviceConn | UsbConn nat

fun device_connect ::
    "tcp_ops \<Rightarrow> wenv \<Rightarrow> (SocketAddr \<Rightarrow> io_error option) \<Rightarrow> UsbDevicePacket recv_reply \<Rightarrow> u16 \<Rightarrow> Device
       \<Rightarrow> (RusbmuxError + DeviceConn) \<times> Device" where
  "device_connect ops wenv tcp_connect answer port (Usb dev) =
     (case connect ops wenv port answer dev of
        (Inl e, dev') \<Rightarrow> (Inl e, Usb dev')
      | (Inr n, dev') \<Rightarrow> (Inr (UsbConn n), Usb dev'))"
| "device_connect ops wenv tcp_connect answer port (Network dev) =
     (case network_connect tcp_connect port dev of
        Inl e \<Rightarrow> (Inl e, Network dev)
      | Inr c \<Rightarrow> (Inr (NetworkConn c), Network dev))"

text \<open>The accessors of a connection; that of USB is looked up in its device.\<close>

fun conn_connection_type :: "DeviceConn \<Rightarrow> ConnectionType" where
  "conn_connection_type (UsbConn n) = ConnUsb"
| "conn_connection_type (NetworkConn c) = ConnNetwork"

fun conn_as_network :: "DeviceConn \<Rightarrow> NetworkDeviceConn option" where
  "conn_as_network (NetworkConn c) = Some c"
| "conn_as_network (UsbConn n) = None"

fun conn_as_usb :: "UsbDevice \<Rightarrow> DeviceConn \<Rightarrow> UsbDeviceConn option" where
  "conn_as_usb dev (UsbConn n) = heap dev n"
| "conn_as_usb dev (NetworkConn c) = None"

fun conn_dev_id :: "UsbDevice \<Rightarrow> DeviceConn \<Rightarrow> u64 option" where
  "conn_dev_id dev (UsbConn n) = map_option conn_device_id (heap dev n)"
| "conn_dev_id dev (NetworkConn c) = Some (nc_device_id c)"

fun conn_dst_port :: "UsbDevice \<Rightarrow> DeviceConn \<Rightarrow> u16 option" where
  "conn_dst_port dev (UsbConn n) = map_option conn_destination_port (heap dev n)"
| "conn_dst_port dev (NetworkConn c) = Some (nc_destination_port c)"

fun device_conn_close ::
    "tcp_ops \<Rightarrow> wenv \<Rightarrow> DeviceConn \<Rightarrow> UsbDevice \<Rightarrow> (RusbmuxError + unit) \<times> UsbDevice" where
  "device_conn_close ops wenv (NetworkConn c) dev = (Inr (), dev)"
| "device_conn_close ops wenv (UsbConn n) dev =
     (case heap dev n of
        None \<Rightarrow> (Inr (), dev)
      | Some c \<Rightarrow>
          (case conn_close ops wenv c (Some (router dev)) (w_queue dev) of
             (res, c', rt, q) \<Rightarrow>
               (res, dev\<lparr>heap := (heap dev)(n \<mapsto> c'), w_queue := q,
                         router := (case rt of None \<Rightarrow> router dev | Some r \<Rightarrow> r)\<rparr>)))"

definition handler_connect ::
    "tcp_ops \<Rightarrow> wenv \<Rightarrow> (SocketAddr \<Rightarrow> io_error option) \<Rightarrow> UsbDevicePacket recv_reply \<Rightarrow> u64 \<Rightarrow> u16 \<Rightarrow> world
       \<Rightarrow> (RusbmuxError + DeviceConn) \<times> world" where
  "handler_connect ops wenv tcp_connect answer dev_id port w =
     (case connected w dev_id of
        None \<Rightarrow> (Inl (DeviceNotFound dev_id), w)
      | Some device \<Rightarrow>
          (case device_connect ops wenv tcp_connect answer port device of
             (res, device') \<Rightarrow> (res, table_insert dev_id device' w)))"

text \<open>Waiting for the device of a connection to be shut down; \<open>None\<close>: it goes on.\<close>

fun conn_wait_shutdown :: "Device \<Rightarrow> (RusbmuxError + unit) option" where
  "conn_wait_shutdown (Usb d) = usb_conn_wait_shutdown d"
| "conn_wait_shutdown (Network d) = map_option Inr (network_conn_wait_shutdown d)"

section \<open>Serving a USB connection\<close>

record proxy =
  px_conn :: UsbDeviceConn
  px_queue :: wq
  px_router :: "PacketRouter option"
  px_buf :: bytes
  px_reads :: "(io_error + bytes) list"
  px_out :: "bytes list"

text \<open>
  \<open>client_read\<close>: what is left in the buffer comes first; only an empty buffer is filled from the
  client. \<open>reads\<close> are the results of the reads to come (nothing for the end of the stream);
  \<open>None\<close>: the client has nothing to read.
\<close>

definition split_to :: "nat \<Rightarrow> bytes \<Rightarrow> bytes \<times> bytes" where
  "split_to n buf = (take n buf, drop n buf)"

definition client_read ::
    "nat \<Rightarrow> bytes \<Rightarrow> (io_error + bytes) list \<Rightarrow> ((RusbmuxError + bytes) \<times> bytes \<times> (io_error + bytes) list) option" where
  "client_read n buf reads =
     (if buf \<noteq> []
      then (case split_to (min n (length buf)) buf of
              (b, buf') \<Rightarrow> Some (Inr b, buf', reads))
      else case reads of
             [] \<Rightarrow> None
           | Inl e # rs \<Rightarrow> Some (Inl (IO e), buf, rs)
           | Inr chunk # rs \<Rightarrow>
               (let filled = buf @ chunk in
                case split_to (min n (length filled)) filled of
                  (b, buf') \<Rightarrow> Some (Inr b, buf', rs)))"

text \<open>\<open>write_all\<close> of an empty buffer writes nothing. \<open>wr\<close> tells which writes fail.\<close>

definition client_send ::
    "(bytes list \<Rightarrow> bytes \<Rightarrow> io_error option) \<Rightarrow> bytes \<Rightarrow> bytes list \<Rightarrow> (RusbmuxError + unit) \<times> bytes list" where
  "client_send wr pl out =
     (if pl = [] then (Inr (), out)
      else case wr out pl of
             Some e \<Rightarrow> (Inl (IO e), out)
           | None \<Rightarrow> (Inr (), out @ [pl]))"

text \<open>
  The branches of \<open>select!\<close>. The branch that receives from the device takes the packet first and
  may then wait for room for its acknowledgement; when another branch is ready first it is
  dropped, and the packet with it (\<open>DeviceAbandoned\<close>).
\<close>

datatype proxy_event =
    DeviceShutdown
  | DeviceReady "UsbDevicePacket recv_reply"
  | DeviceAbandoned UsbDevicePacket
  | ClientReady

text \<open>The first component is the result once the loop has returned.\<close>

fun proxy_step ::
    "tcp_ops \<Rightarrow> wenv \<Rightarrow> (bytes list \<Rightarrow> bytes \<Rightarrow> io_error option) \<Rightarrow> proxy_event \<Rightarrow> proxy
       \<Rightarrow> (RusbmuxError + unit) option \<times> proxy" where
  "proxy_step ops wenv wr DeviceShutdown px = (Some (Inr ()), px)"
| "proxy_step ops wenv wr (DeviceReady answer) px =
     (case recv ops wenv answer (px_conn px) (px_queue px) of
        (Inl e, c, q) \<Rightarrow> (Some (Inl e), px\<lparr>px_conn := c, px_queue := q\<rparr>)
      | (Inr packet, c, q) \<Rightarrow>
          (let px1 = px\<lparr>px_conn := c, px_queue := q\<rparr> in
           case client_send wr (payload_encode (payload packet)) (px_out px1) of
             (Inl e, out) \<Rightarrow> (Some (Inl e), px1\<lparr>px_out := out\<rparr>)
           | (Inr _, out) \<Rightarrow> (None, px1\<lparr>px_out := out\<rparr>)))"
| "proxy_step ops wenv wr (DeviceAbandoned packet) px =
     (None, px\<lparr>px_conn := note_received packet (px_conn px)\<rparr>)"
| "proxy_step ops wenv wr ClientReady px =
     (if get_sendable_bytes (px_conn px) = 0 then (None, px)
      else case client_read (get_sendable_bytes (px_conn px)) (px_buf px) (px_reads px) of
             None \<Rightarrow> (None, px)
           | Some (Inl e, buf, rs) \<Rightarrow> (Some (Inl e), px\<lparr>px_buf := buf, px_reads := rs\<rparr>)
           | Some (Inr client_packet, buf, rs) \<Rightarrow>
               (let px1 = px\<lparr>px_buf := buf, px_reads := rs\<rparr> in
                if client_packet = []
                then (case conn_close ops wenv (px_conn px1) (px_router px1) (px_queue px1) of
                        (res, c, rt, q) \<Rightarrow>
                          (Some res, px1\<lparr>px_conn := c, px_router := rt, px_queue := q\<rparr>))
                else (case send_bytes ops wenv client_packet (px_conn px1) (px_queue px1) of
                        (Inl e, c, q) \<Rightarrow> (Some (Inl e), px1\<lparr>px_conn := c, px_queue := q\<rparr>)
                      | (Inr _, c, q) \<Rightarrow> (None, px1\<lparr>px_conn := c, px_queue := q\<rparr>))))"

primrec proxy_run ::
    "tcp_ops \<Rightarrow> wenv \<Rightarrow> (bytes list \<Rightarrow> bytes \<Rightarrow> io_error option) \<Rightarrow> proxy_event list \<Rightarrow> proxy
       \<Rightarrow> (RusbmuxError + unit) option \<times> proxy" where
  "proxy_run ops wenv wr [] px = (None, px)"
| "proxy_run ops wenv wr (ev # evs) px =
     (case proxy_step ops wenv wr ev px of
        (None, px1) \<Rightarrow> proxy_run ops wenv wr evs px1
      | (Some r, px1) \<Rightarrow> (Some r, px1))"

text \<open>When the loop returns, the last reference to the connection is dropped.\<close>

definition handle_usb_device_connect ::
    "tcp_ops \<Rightarrow> wenv \<Rightarrow> (bytes list \<Rightarrow> bytes \<Rightarrow> io_error option) \<Rightarrow> proxy_event list \<Rightarrow> proxy
       \<Rightarrow> (RusbmuxError + unit) option \<times> proxy" where
  "handle_usb_device_connect ops wenv wr evs px =
     (case proxy_run ops wenv wr evs px of
        (None, px1) \<Rightarrow> (None, px1)
      | (Some r, px1) \<Rightarrow>
          (case conn_drop ops wenv (px_conn px1) (px_router px1) (px_queue px1) of
             (rt, q) \<Rightarrow> (Some r, px1\<lparr>px_router := rt, px_queue := q\<rparr>)))"

section \<open>Serving a network connection\<close>

text \<open>\<open>None\<close>: the device was shut down first; otherwise the answer of copying in both directions.\<close>

definition handle_network_device_connect :: "(io_error + unit) option \<Rightarrow> RusbmuxError + unit" where
  "handle_network_device_connect copied =
     (case copied of
        None \<Rightarrow> Inr ()
      | Some (Inl e) \<Rightarrow> Inl (IO e)
      | Some (Inr _) \<Rightarrow> Inr ())"

section \<open>Lemmas\<close>

lemma calc_sendable_le: "calc_sendable_bytes s w r \<le> MAX_PACKET_PAYLOAD_SIZE"
  by (simp add: calc_sendable_bytes_def Let_def)

lemmas calc_sendable_bound = calc_sendable_le calc_sendable_le [simplified]

fun read_bytes :: "io_error + bytes \<Rightarrow> bytes" where
  "read_bytes (Inl e) = []"
| "read_bytes (Inr b) = b"

text \<open>Reading takes from the front of buffer and stream, and at most what may be sent.\<close>

lemma client_read_takes:
  assumes "client_read n buf reads = Some (Inr b, buf', reads')"
  shows "\<exists>taken. reads = taken @ reads' \<and> b @ buf' = buf @ concat (map read_bytes taken) \<and> length b \<le> n"
proof (cases "buf = []")
  case False
  with assms show ?thesis by (intro exI [of _ "[]"]) (auto simp: client_read_def split_to_def)
next
  case True
  with assms obtain chunk where "reads = Inr chunk # reads'" "b = take (min n (length chunk)) chunk"
    "buf' = drop (min n (length chunk)) chunk"
    by (auto simp: client_read_def split_to_def Let_def split: list.splits sum.splits)
  with True show ?thesis by (intro exI [of _ "[Inr chunk]"]) simp
qed

lemma client_read_error:
  assumes "client_read n buf reads = Some (Inl e, buf', reads')"
  shows "\<exists>io. reads = Inl io # reads' \<and> buf = [] \<and> buf' = [] \<and> e = IO io"
  using assms by (auto simp: client_read_def split_to_def Let_def split: list.splits sum.splits if_splits)

definition pkt_bytes :: "UsbDevicePacket \<Rightarrow> bytes" where
  "pkt_bytes p = payload_encode (payload p)"

text \<open>What the operations of a connection put on the writer queue.\<close>

lemma send_bytes_queues:
  assumes "tcp_laws ops" and "send_bytes ops wenv v c q = (res, c', q')"
  shows "(res = Inr () \<and> (\<exists>p. q' = q @ [p] \<and> pkt_bytes p = v)) \<or> ((\<exists>e. res = Inl e) \<and> c' = c \<and> q' = q)"
    and "sendable_bytes c \<le> MAX_PACKET_PAYLOAD_SIZE \<Longrightarrow> sendable_bytes c' \<le> MAX_PACKET_PAYLOAD_SIZE"
  using assms data_packet_fields(1) [OF assms(1)]
  by (auto simp: send_bytes_def send_packet_def Let_def pkt_bytes_def update_sendable_bytes_def
      calc_sendable_bound split: send_reply.splits)

lemma conn_ack_queues:
  assumes "tcp_laws ops" and "conn_ack ops wenv c q = (res, q')"
  shows "\<exists>ps. q' = q @ ps \<and> (\<forall>p \<in> set ps. pkt_bytes p = [])"
  using assms(2) control_packet_shape(3) [OF assms(1)]
  by (auto simp: conn_ack_def Let_def pkt_bytes_def split: send_reply.splits)

lemma recv_queues:
  assumes "tcp_laws ops" and "recv ops wenv answer c q = (res, c', q')"
  shows "\<exists>ps. q' = q @ ps \<and> (\<forall>p \<in> set ps. pkt_bytes p = [])"
    and "sendable_bytes c \<le> MAX_PACKET_PAYLOAD_SIZE \<Longrightarrow> sendable_bytes c' \<le> MAX_PACKET_PAYLOAD_SIZE"
    and "res = Inr p \<Longrightarrow> answer = Received p"
  using assms(2) conn_ack_queues [OF assms(1)]
  by (auto simp: recv_def Let_def update_sendable_bytes_def calc_sendable_bound note_received_def
      split: recv_reply.splits prod.splits sum.splits option.splits)

lemma conn_close_queues:
  assumes "tcp_laws ops" and "conn_close ops wenv c rt q = (res, c', rt', q')"
  shows "\<exists>ps. q' = q @ ps \<and> (\<forall>p \<in> set ps. pkt_bytes p = [])"
    and "sendable_bytes c' = sendable_bytes c"
  using assms(2) control_packet_shape(3) [OF assms(1)]
  by (auto simp: conn_close_def send_rst_def rst_packet_def Let_def pkt_bytes_def
      split: send_reply.splits prod.splits sum.splits)

text \<open>
  The account of the bytes from the client: those in the buffer and those read since are the
  payloads queued since, the bytes lost by a failed send, and what is in the buffer now.
\<close>

definition accounts :: "proxy \<Rightarrow> bytes \<Rightarrow> proxy \<Rightarrow> bool" where
  "accounts px lost px' \<longleftrightarrow>
     (\<exists>ps taken. px_queue px' = px_queue px @ ps \<and> px_reads px = taken @ px_reads px'
        \<and> px_buf px @ concat (map read_bytes taken) = concat (map pkt_bytes ps) @ lost @ px_buf px'
        \<and> (\<forall>p \<in> set ps. length (pkt_bytes p) \<le> MAX_PACKET_PAYLOAD_SIZE))"

lemma accountsI:
  "px_queue px' = px_queue px @ ps \<Longrightarrow> px_reads px = taken @ px_reads px' \<Longrightarrow>
   px_buf px @ concat (map read_bytes taken) = concat (map pkt_bytes ps) @ lost @ px_buf px' \<Longrightarrow>
   \<forall>p \<in> set ps. length (pkt_bytes p) \<le> MAX_PACKET_PAYLOAD_SIZE \<Longrightarrow> accounts px lost px'"
  unfolding accounts_def by blast

lemma concat_empty: "\<forall>p \<in> set ps. f p = [] \<Longrightarrow> concat (map f ps) = []"
  by (induction ps) auto

lemma accounts_quiet:
  assumes "\<exists>ps. px_queue px' = px_queue px @ ps \<and> (\<forall>p \<in> set ps. pkt_bytes p = [])"
    and "px_reads px' = px_reads px" and "px_buf px' = px_buf px"
  shows "accounts px [] px'"
proof -
  from assms(1) obtain ps where "px_queue px' = px_queue px @ ps" "\<forall>p \<in> set ps. pkt_bytes p = []" by blast
  with concat_empty [of ps pkt_bytes] assms(2,3) show ?thesis
    by (intro accountsI [where ps = ps and taken = "[]"]) auto
qed

lemma accounts_trans:
  assumes "accounts px [] px1" and "accounts px1 lost px2"
  shows "accounts px lost px2"
proof -
  from assms obtain ps taken ps' taken' where a: "px_queue px1 = px_queue px @ ps" "px_reads px = taken @ px_reads px1"
    "px_buf px @ concat (map read_bytes taken) = concat (map pkt_bytes ps) @ px_buf px1"
    "\<forall>p \<in> set ps. length (pkt_bytes p) \<le> MAX_PACKET_PAYLOAD_SIZE"
    "px_queue px2 = px_queue px1 @ ps'" "px_reads px1 = taken' @ px_reads px2"
    "px_buf px1 @ concat (map read_bytes taken') = concat (map pkt_bytes ps') @ lost @ px_buf px2"
    "\<forall>p \<in> set ps'. length (pkt_bytes p) \<le> MAX_PACKET_PAYLOAD_SIZE"
    unfolding accounts_def by auto
  have "px_buf px @ concat (map read_bytes (taken @ taken')) =
      concat (map pkt_bytes ps) @ px_buf px1 @ concat (map read_bytes taken')"
    using a(3) by simp
  with a show ?thesis
    by (intro accountsI [where ps = "ps @ ps'" and taken = "taken @ taken'"]) auto
qed

lemma client_ready_accounts:
  assumes "tcp_laws ops" and "sendable_bytes (px_conn px) \<le> MAX_PACKET_PAYLOAD_SIZE"
    and "proxy_step ops wenv wr ClientReady px = (r, px')"
  shows "(\<exists>lost. accounts px lost px' \<and> (lost = [] \<or> (\<exists>e. r = Some (Inl e))))
     \<and> sendable_bytes (px_conn px') \<le> MAX_PACKET_PAYLOAD_SIZE \<and> px_out px' = px_out px"
proof (cases "client_read (sendable_bytes (px_conn px)) (px_buf px) (px_reads px)")
  case None
  with assms have "px' = px" by (simp split: if_splits)
  then show ?thesis using assms(2) accounts_quiet [of px px] by auto
next
  case (Some ans)
  obtain rd buf rs where ans: "ans = (rd, buf, rs)" by (metis prod.exhaust)
  show ?thesis
  proof (cases "sendable_bytes (px_conn px) = 0")
    case True
    with assms have "px' = px" by simp
    then show ?thesis using assms(2) accounts_quiet [of px px] by auto
  next
    case False
    show ?thesis
    proof (cases rd)
      case (Inl e)
      with client_read_error Some ans obtain io where "px_reads px = Inl io # rs" "px_buf px = []" "buf = []"
        by blast
      moreover have "px' = px\<lparr>px_buf := buf, px_reads := rs\<rparr>" using assms(3) False Some ans Inl by simp
      ultimately have "accounts px [] px'" by (intro accountsI [where ps = "[]" and taken = "[Inl io]"]) auto
      with \<open>px' = _\<close> assms(2) show ?thesis by auto
    next
      case (Inr b)
      with client_read_takes Some ans obtain taken where t: "px_reads px = taken @ rs"
        "b @ buf = px_buf px @ concat (map read_bytes taken)" "length b \<le> sendable_bytes (px_conn px)"
        by blast
      let ?px1 = "px\<lparr>px_buf := buf, px_reads := rs\<rparr>"
      show ?thesis
      proof (cases "b = []")
        case True
        obtain res c rt q where cl: "conn_close ops wenv (px_conn ?px1) (px_router ?px1) (px_queue ?px1) = (res, c, rt, q)"
          by (metis prod.exhaust)
        then have px': "px' = ?px1\<lparr>px_conn := c, px_router := rt, px_queue := q\<rparr>"
          using assms(3) False Some ans Inr True by simp
        note closed = conn_close_queues [OF assms(1) cl]
        then obtain ps where ps: "q = px_queue px @ ps" "\<forall>p \<in> set ps. pkt_bytes p = []" by auto
        have "accounts px [] px'"
          using t True ps concat_empty [OF ps(2)] by (intro accountsI [where ps = ps and taken = taken]) (auto simp: px')
        then show ?thesis using closed(2) assms(2) px' by auto
      next
        case b: False
        obtain res c q where sd: "send_bytes ops wenv b (px_conn ?px1) (px_queue ?px1) = (res, c, q)"
          by (metis prod.exhaust)
        then have px': "px' = ?px1\<lparr>px_conn := c, px_queue := q\<rparr>" and r: "res = Inr () \<or> r = Some res"
          using assms(3) False Some ans Inr b by (auto simp: Let_def split: sum.splits)
        note sends = send_bytes_queues [OF assms(1) sd]
        have "\<exists>lost. accounts px lost px' \<and> (lost = [] \<or> (\<exists>e. r = Some (Inl e)))"
          using sends(1)
        proof
          assume "res = Inr () \<and> (\<exists>p. q = px_queue ?px1 @ [p] \<and> pkt_bytes p = b)"
          then obtain p where p: "q = px_queue px @ [p]" "pkt_bytes p = b" by auto
          have "accounts px [] px'"
            using t p assms(2) by (intro accountsI [where ps = "[p]" and taken = taken]) (auto simp: px')
          then show ?thesis by blast
        next
          assume f: "(\<exists>e. res = Inl e) \<and> c = px_conn ?px1 \<and> q = px_queue ?px1"
          have "accounts px b px'"
            using t f by (intro accountsI [where ps = "[]" and taken = taken]) (auto simp: px')
          with f r show ?thesis by auto
        qed
        then show ?thesis using sends(2) assms(2) px' by auto
      qed
    qed
  qed
qed

text \<open>What the other branches give to the client.\<close>

fun received :: "proxy_event list \<Rightarrow> UsbDevicePacket list" where
  "received (DeviceReady (Received p) # evs) = p # received evs"
| "received (ev # evs) = received evs"
| "received [] = []"

lemma device_ready_accounts:
  assumes "tcp_laws ops" and "sendable_bytes (px_conn px) \<le> MAX_PACKET_PAYLOAD_SIZE"
    and "proxy_step ops wenv wr (DeviceReady answer) px = (r, px')"
  shows "accounts px [] px' \<and> sendable_bytes (px_conn px') \<le> MAX_PACKET_PAYLOAD_SIZE"
    and "r = None \<Longrightarrow> \<exists>p. answer = Received p \<and> concat (px_out px') = concat (px_out px) @ pkt_bytes p"
    and "\<exists>n. concat (px_out px') = concat (px_out px) @ concat (map pkt_bytes (take n (received [DeviceReady answer])))"
proof -
  obtain res c q where rc: "recv ops wenv answer (px_conn px) (px_queue px) = (res, c, q)" by (metis prod.exhaust)
  note rec = recv_queues [OF assms(1) rc]
  have fields: "px_conn px' = c" "px_queue px' = q" "px_reads px' = px_reads px" "px_buf px' = px_buf px"
    using assms(3) rc by (auto simp: Let_def split: sum.splits prod.splits)
  show "accounts px [] px' \<and> sendable_bytes (px_conn px') \<le> MAX_PACKET_PAYLOAD_SIZE"
    using rec(1,2) assms(2) fields by (auto intro: accounts_quiet)
  have out: "(\<exists>p. answer = Received p \<and> concat (px_out px') = concat (px_out px) @ pkt_bytes p)
      \<or> (px_out px' = px_out px \<and> (\<exists>e. r = Some (Inl e)))"
    using assms(3) rc rec(3)
    by (auto simp: client_send_def pkt_bytes_def Let_def split: sum.splits prod.splits if_splits option.splits)
  then show "\<exists>p. answer = Received p \<and> concat (px_out px') = concat (px_out px) @ pkt_bytes p" if "r = None"
    using that by auto
  from out show "\<exists>n. concat (px_out px') = concat (px_out px) @ concat (map pkt_bytes (take n (received [DeviceReady answer])))"
  proof
    assume "\<exists>p. answer = Received p \<and> concat (px_out px') = concat (px_out px) @ pkt_bytes p"
    then show ?thesis by (intro exI [of _ 1]) auto
  next
    assume "px_out px' = px_out px \<and> (\<exists>e. r = Some (Inl e))"
    then show ?thesis by (intro exI [of _ 0]) auto
  qed
qed

lemma proxy_step_accounts:
  assumes "tcp_laws ops" and "sendable_bytes (px_conn px) \<le> MAX_PACKET_PAYLOAD_SIZE"
    and "proxy_step ops wenv wr ev px = (r, px')"
  shows "(\<exists>lost. accounts px lost px' \<and> (lost = [] \<or> (\<exists>e. r = Some (Inl e))))
     \<and> sendable_bytes (px_conn px') \<le> MAX_PACKET_PAYLOAD_SIZE"
proof (cases ev)
  case DeviceShutdown
  with assms(2,3) accounts_quiet [of px px] show ?thesis by auto
next
  case (DeviceReady answer)
  with device_ready_accounts(1) [OF assms(1,2)] assms(3) show ?thesis by blast
next
  case (DeviceAbandoned packet)
  with assms(3) have px': "px' = px\<lparr>px_conn := note_received packet (px_conn px)\<rparr>" by simp
  moreover have "sendable_bytes (note_received packet (px_conn px)) = sendable_bytes (px_conn px)"
    by (simp add: note_received_def Let_def split: option.splits)
  ultimately show ?thesis using assms(2) accounts_quiet [of px' px] by auto
next
  case ClientReady
  with client_ready_accounts [OF assms(1,2)] assms(3) show ?thesis by blast
qed

lemma proxy_run_accounts:
  assumes "tcp_laws ops" and "sendable_bytes (px_conn px) \<le> MAX_PACKET_PAYLOAD_SIZE"
    and "proxy_run ops wenv wr evs px = (r, px')"
  shows "\<exists>lost. accounts px lost px' \<and> (lost = [] \<or> (\<exists>e. r = Some (Inl e)))"
  using assms(2,3)
proof (induction evs arbitrary: px)
  case Nil
  with accounts_quiet [of px px] show ?case by auto
next
  case (Cons ev evs)
  obtain r1 px1 where st: "proxy_step ops wenv wr ev px = (r1, px1)" by fastforce
  note step = proxy_step_accounts [OF assms(1) Cons.prems(1) st]
  show ?case
  proof (cases r1)
    case None
    with Cons.prems(2) st have run: "proxy_run ops wenv wr evs px1 = (r, px')" by simp
    from step None have "accounts px [] px1" "sendable_bytes (px_conn px1) \<le> MAX_PACKET_PAYLOAD_SIZE" by auto
    with Cons.IH [OF _ run] accounts_trans show ?thesis by blast
  next
    case (Some x)
    with Cons.prems(2) st step show ?thesis by auto
  qed
qed

lemma conn_drop_queues:
  assumes "tcp_laws ops" and "conn_drop ops wenv c rt q = (rt', q')"
  shows "\<exists>ps. q' = q @ ps \<and> (\<forall>p \<in> set ps. pkt_bytes p = [])"
  using assms(2) control_packet_shape(3) [OF assms(1)]
  by (auto simp: conn_drop_def close_blocking_def send_rst_blocking_def rst_packet_def Let_def pkt_bytes_def
      split: try_send_reply.splits prod.splits sum.splits if_splits)

lemma accounts_more:
  assumes "accounts px lost px1" and "\<exists>ps. px_queue px2 = px_queue px1 @ ps \<and> (\<forall>p \<in> set ps. pkt_bytes p = [])"
    and "px_reads px2 = px_reads px1" and "px_buf px2 = px_buf px1"
  shows "accounts px lost px2"
proof -
  from assms(1) obtain ps taken where a: "px_queue px1 = px_queue px @ ps" "px_reads px = taken @ px_reads px1"
    "px_buf px @ concat (map read_bytes taken) = concat (map pkt_bytes ps) @ lost @ px_buf px1"
    "\<forall>p \<in> set ps. length (pkt_bytes p) \<le> MAX_PACKET_PAYLOAD_SIZE"
    unfolding accounts_def by blast
  from assms(2) obtain ps' where "px_queue px2 = px_queue px1 @ ps'" "\<forall>p \<in> set ps'. pkt_bytes p = []" by blast
  with a concat_empty [of ps' pkt_bytes] assms(3,4) show ?thesis
    by (intro accountsI [where ps = "ps @ ps'" and taken = taken]) auto
qed

text \<open>Closing a connection changes no other connection and ends no other registration.\<close>

lemma device_conn_close_others:
  assumes "device_conn_close ops wenv (UsbConn n) dev = (res, dev')" and "heap dev n = Some c"
  shows "m \<noteq> n \<Longrightarrow> heap dev' m = heap dev m"
    and "port \<noteq> conn_source_port c \<Longrightarrow> conns (router dev') port = conns (router dev) port"
    and "\<exists>c'. heap dev' n = Some c' \<and> dropped c'"
  using assms
  by (auto simp: conn_close_def Let_def unregister_def split: prod.splits sum.splits)

lemma proxy_step_delivers:
  assumes "tcp_laws ops" and "sendable_bytes (px_conn px) \<le> MAX_PACKET_PAYLOAD_SIZE"
    and "proxy_step ops wenv wr ev px = (r, px')"
  shows "\<exists>n. concat (px_out px') = concat (px_out px) @ concat (map pkt_bytes (take n (received [ev])))
     \<and> (r = None \<longrightarrow> n = length (received [ev]))"
proof (cases ev)
  case (DeviceReady answer)
  note ready = device_ready_accounts [OF assms(1,2) assms(3) [unfolded DeviceReady]]
  show ?thesis
  proof (cases r)
    case None
    from ready(2) [OF None] obtain p where "answer = Received p"
      "concat (px_out px') = concat (px_out px) @ pkt_bytes p" by blast
    with DeviceReady show ?thesis by (intro exI [of _ 1]) simp
  next
    case (Some x)
    with ready(3) DeviceReady show ?thesis by auto
  qed
next
  case ClientReady
  with client_ready_accounts [OF assms(1,2)] assms(3) show ?thesis by auto
qed (use assms(3) in auto)

section \<open>Properties\<close>

text \<open>
  C7. Nothing a client writes to a USB connection is lost, duplicated or reordered on its way to
  the device: however the events interleave, the bytes read from the client since the start are
  exactly the payloads of the packets queued since, in order, followed by what is still in the
  buffer; only when a send fails (which ends the connection) the chunk it was given is missing.
  No packet is larger than the device takes.
\<close>
theorem proxy_upstream:
  assumes "tcp_laws ops" and "sendable_bytes (px_conn px) \<le> MAX_PACKET_PAYLOAD_SIZE"
    and "handle_usb_device_connect ops wenv wr evs px = (r, px')"
  shows "\<exists>ps taken lost. px_queue px' = px_queue px @ ps \<and> px_reads px = taken @ px_reads px'
     \<and> px_buf px @ concat (map read_bytes taken) = concat (map pkt_bytes ps) @ lost @ px_buf px'
     \<and> (lost = [] \<or> (\<exists>e. r = Some (Inl e)))
     \<and> (\<forall>p \<in> set ps. length (pkt_bytes p) \<le> MAX_PACKET_PAYLOAD_SIZE)"
proof -
  obtain r1 px1 where run: "proxy_run ops wenv wr evs px = (r1, px1)" by fastforce
  from proxy_run_accounts [OF assms(1,2) run] obtain lost
    where acc: "accounts px lost px1" and lost: "lost = [] \<or> (\<exists>e. r1 = Some (Inl e))" by blast
  have "r = r1" and "accounts px lost px'"
  proof -
    show "r = r1" using assms(3) run by (auto simp: handle_usb_device_connect_def split: option.splits prod.splits)
    show "accounts px lost px'"
    proof (cases r1)
      case None
      with assms(3) run acc show ?thesis by (simp add: handle_usb_device_connect_def)
    next
      case (Some x)
      obtain rt q where d: "conn_drop ops wenv (px_conn px1) (px_router px1) (px_queue px1) = (rt, q)" by fastforce
      with Some assms(3) run have "px' = px1\<lparr>px_router := rt, px_queue := q\<rparr>"
        by (auto simp: handle_usb_device_connect_def)
      with accounts_more [OF acc] conn_drop_queues [OF assms(1) d] show ?thesis by simp
    qed
  qed
  with lost show ?thesis unfolding accounts_def by blast
qed

definition sample_proxy :: proxy where
  "sample_proxy = \<lparr>px_conn = sample_conn\<lparr>sendable_bytes := 3\<rparr>, px_queue = [], px_router = None, px_buf = [],
     px_reads = [Inr [1, 2, 3, 4, 5], Inr []], px_out = []\<rparr>"

theorem proxy_upstream_witness:
  "\<exists>r px' ps taken lost. handle_usb_device_connect rfc_ops (open_env 0) (\<lambda>_ _. None) [ClientReady, ClientReady]
       sample_proxy = (r, px') \<and> px_queue px' = ps \<and> [Inr [1, 2, 3, 4, 5], Inr []] = taken @ px_reads px'
     \<and> concat (map read_bytes taken) = concat (map pkt_bytes ps) @ lost @ px_buf px'"
proof -
  obtain r px' where r: "handle_usb_device_connect rfc_ops (open_env 0) (\<lambda>_ _. None) [ClientReady, ClientReady]
      sample_proxy = (r, px')" by fastforce
  have "sendable_bytes (px_conn sample_proxy) \<le> MAX_PACKET_PAYLOAD_SIZE" by (simp add: sample_proxy_def)
  from proxy_upstream [OF rfc_ops_laws this r] r show ?thesis by (auto simp: sample_proxy_def)
qed

text \<open>
  C14. What a device sends reaches the client in order and without duplicates: the bytes written to
  the client are the payloads of the first packets that were received, of all of them while the
  connection lives. A packet whose receiving was abandoned while its acknowledgement waited for
  room in the writer queue is not among them, although its sequence number has been noted.
\<close>
theorem proxy_downstream:
  assumes "tcp_laws ops" and "sendable_bytes (px_conn px) \<le> MAX_PACKET_PAYLOAD_SIZE"
    and "proxy_run ops wenv wr evs px = (r, px')"
  shows "\<exists>n. concat (px_out px') = concat (px_out px) @ concat (map pkt_bytes (take n (received evs)))
     \<and> (r = None \<longrightarrow> n = length (received evs))"
  using assms(2,3)
proof (induction evs arbitrary: px)
  case Nil
  then show ?case by simp
next
  case (Cons ev evs)
  obtain r1 px1 where st: "proxy_step ops wenv wr ev px = (r1, px1)" by fastforce
  have bound: "sendable_bytes (px_conn px1) \<le> MAX_PACKET_PAYLOAD_SIZE"
    using proxy_step_accounts [OF assms(1) Cons.prems(1) st] by blast
  note step = proxy_step_delivers [OF assms(1) Cons.prems(1) st]
  have split: "received (ev # evs) = received [ev] @ received evs"
    by (cases "ev # evs" rule: received.cases) auto
  show ?case
  proof (cases r1)
    case None
    with Cons.prems(2) st have run: "proxy_run ops wenv wr evs px1 = (r, px')" by simp
    from step None have "concat (px_out px1) = concat (px_out px) @ concat (map pkt_bytes (received [ev]))" by auto
    with Cons.IH [OF bound run] obtain n where
      "concat (px_out px') = concat (px_out px) @ concat (map pkt_bytes (received [ev] @ take n (received evs)))"
      "r = None \<longrightarrow> n = length (received evs)" by auto
    then show ?thesis unfolding split by (intro exI [of _ "length (received [ev]) + n"]) auto
  next
    case (Some x)
    with Cons.prems(2) st have "px' = px1" "r = Some x" by auto
    moreover from step obtain n where "concat (px_out px1) =
      concat (px_out px) @ concat (map pkt_bytes (take n (received [ev])))" by blast
    ultimately show ?thesis unfolding split
      by (intro exI [of _ "min n (length (received [ev]))"]) (auto simp: min_def)
  qed
qed

theorem proxy_downstream_witness:
  "\<exists>px'. proxy_run rfc_ops (open_env 0) (\<lambda>_ _. None) [DeviceAbandoned sample_packet, DeviceReady (Received sample_packet)]
       sample_proxy = (None, px') \<and> concat (px_out px') = pkt_bytes sample_packet"
proof -
  obtain r px' where r: "proxy_run rfc_ops (open_env 0) (\<lambda>_ _. None)
      [DeviceAbandoned sample_packet, DeviceReady (Received sample_packet)] sample_proxy = (r, px')" by fastforce
  have "r = None"
    using r by (auto simp: recv_def conn_ack_def open_env_def client_send_def Let_def
        split: if_splits prod.splits)
  moreover have "sendable_bytes (px_conn sample_proxy) \<le> MAX_PACKET_PAYLOAD_SIZE" by (simp add: sample_proxy_def)
  ultimately show ?thesis using proxy_downstream [OF rfc_ops_laws _ r] r by (auto simp: sample_proxy_def)
qed

end
