(* ===== verification/Handlers.thy ===== *)
theory Handlers
  imports Pair_Records Proxy
begin

text \<open>
  The requests of a client: \<^verbatim>\<open>src/handler/mod.rs\<close>, \<^verbatim>\<open>src/handler/device_list.rs\<close>,
  \<^verbatim>\<open>src/handler/listen.rs\<close>, \<^verbatim>\<open>src/handler/listeners_list.rs\<close>, \<open>handle_connect\<close> of
  \<^verbatim>\<open>src/handler/connect.rs\<close> and \<open>cleanup\<close> of \<^verbatim>\<open>src/daemon.rs\<close>. A client is a session with the
  device table, the number of listeners and the bytes it will send. The reading of a request from
  a property list (derived by \<open>serde\<close>) and what happens while a client listens or is connected
  are parameters.
\<close>

section \<open>Clients\<close>

record client = session +
  cl_world :: world
  cl_receivers :: "nat option"
  cl_input :: reader

record requests =
  rq_parse :: "Value \<Rightarrow> string + UsbMuxRequest"
  rq_tcp :: "SocketAddr \<Rightarrow> io_error option"
  rq_answer :: "UsbDevicePacket recv_reply"
  rq_proxy :: "proxy_event list"
  rq_reads :: "(io_error + bytes) list"
  rq_copied :: "(io_error + unit) option"
  rq_listen :: "(DeviceEvent option \<times> world) list"

fun of_sum :: "'e + 'a \<Rightarrow> ('e, 'a) outcome" where
  "of_sum (Inl e) = Err e"
| "of_sum (Inr x) = Ok x"

section \<open>The list of devices\<close>

text \<open>A network device is left out when another entry has its serial number.\<close>

definition shown :: "daemon_env \<Rightarrow> world \<Rightarrow> Device \<Rightarrow> (RusbmuxError, bool) outcome" where
  "shown env w d =
     (case as_network d of
        Some ndev \<Rightarrow>
          map_ok Not (any_dev (\<lambda>dev. map_ok (\<lambda>s. s = nd_serial_number ndev \<and> device_id dev \<noteq> nd_id ndev)
              (device_serial dev)) (devices env w))
      | None \<Rightarrow> Ok True)"

fun attached_list :: "daemon_env \<Rightarrow> world \<Rightarrow> Device list \<Rightarrow> (RusbmuxError, Value list) outcome" where
  "attached_list env w [] = Ok []"
| "attached_list env w (d # ds) =
     and_then (shown env w d) (\<lambda>b.
       if b then and_then (device_attached env d) (\<lambda>v. map_ok (Cons v) (attached_list env w ds))
       else attached_list env w ds)"

definition devices_plist :: "daemon_env \<Rightarrow> world \<Rightarrow> (RusbmuxError, Value) outcome" where
  "devices_plist env w =
     map_ok (\<lambda>vs. Dictionary [(''DeviceList'', Array vs)]) (attached_list env w (devices env w))"

definition handle_device_list ::
    "service \<Rightarrow> daemon_env \<Rightarrow> u32 \<Rightarrow> client \<Rightarrow> (RusbmuxError, unit) outcome \<times> client" where
  "handle_device_list svc env tag s =
     (case devices_plist env (cl_world s) of
        Ok v \<Rightarrow> apfst of_sum (client_write svc (response svc v tag) s)
      | Err e \<Rightarrow> (Err e, s)
      | Panic \<Rightarrow> (Panic, s))"

section \<open>Listening\<close>

text \<open>The announcement of one device.\<close>

definition send_attached ::
    "service \<Rightarrow> daemon_env \<Rightarrow> u32 \<Rightarrow> Device \<Rightarrow> client \<Rightarrow> (RusbmuxError, unit) outcome \<times> client" where
  "send_attached svc env tag d s =
     (case device_attached env d of
        Ok v \<Rightarrow> apfst of_sum (client_write svc (response svc v tag) s)
      | Err e \<Rightarrow> (Err e, s)
      | Panic \<Rightarrow> (Panic, s))"

fun send_shown ::
    "service \<Rightarrow> daemon_env \<Rightarrow> u32 \<Rightarrow> Device list \<Rightarrow> client \<Rightarrow> (RusbmuxError, unit) outcome \<times> client" where
  "send_shown svc env tag [] s = (Ok (), s)"
| "send_shown svc env tag (d # ds) s =
     (case shown env (cl_world s) d of
        Ok b \<Rightarrow>
          (if b
           then (case send_attached svc env tag d s of
                   (Ok _, s1) \<Rightarrow> send_shown svc env tag ds s1
                 | (r, s1) \<Rightarrow> (r, s1))
           else send_shown svc env tag ds s)
      | Err e \<Rightarrow> (Err e, s)
      | Panic \<Rightarrow> (Panic, s))"

definition send_currently_connected ::
    "service \<Rightarrow> daemon_env \<Rightarrow> u32 \<Rightarrow> client \<Rightarrow> (RusbmuxError, unit) outcome \<times> client" where
  "send_currently_connected svc env tag s = send_shown svc env tag (devices env (cl_world s)) s"

text \<open>
  The events a listener receives, each with the table at that time; \<open>None\<close> in the list is an error
  of the channel, which ends the session. The result is \<open>None\<close> while the session waits.
\<close>

fun listen_loop ::
    "service \<Rightarrow> daemon_env \<Rightarrow> u32 \<Rightarrow> (DeviceEvent option \<times> world) list \<Rightarrow> client
       \<Rightarrow> (RusbmuxError, unit) outcome option \<times> client" where
  "listen_loop svc env tag [] s = (None, s)"
| "listen_loop svc env tag ((None, w) # evs) s = (Some (Ok ()), s\<lparr>cl_world := w\<rparr>)"
| "listen_loop svc env tag ((Some (Attached i), w) # evs) s =
     (let s0 = s\<lparr>cl_world := w\<rparr> in
      case connected w i of
        None \<Rightarrow> listen_loop svc env tag evs s0
      | Some device \<Rightarrow>
          (case send_attached svc env tag device s0 of
             (Ok _, s1) \<Rightarrow> listen_loop svc env tag evs s1
           | (r, s1) \<Rightarrow> (Some r, s1)))"
| "listen_loop svc env tag ((Some (Detached i), w) # evs) s =
     (let s0 = s\<lparr>cl_world := w\<rparr> in
      case client_write svc (response svc
             (Dictionary [(''MessageType'', String ''Detached''), (''DeviceID'', int_u i)]) tag) s0 of
        (Inr _, s1) \<Rightarrow> listen_loop svc env tag evs s1
      | (Inl e, s1) \<Rightarrow> (Some (Err e), s1))"

text \<open>The subscription counts as a listener until the session has ended.\<close>

definition handle_listen ::
    "service \<Rightarrow> daemon_env \<Rightarrow> (DeviceEvent option \<times> world) list \<Rightarrow> u32 \<Rightarrow> client
       \<Rightarrow> (RusbmuxError, unit) outcome option \<times> client" where
  "handle_listen svc env evs tag s =
     (case cl_receivers s of
        None \<Rightarrow>
          (case send_result svc BadDeviceOrNoSuchFile tag s of
             (Inl e, s1) \<Rightarrow> (Some (Err e), s1)
           | (Inr _, s1) \<Rightarrow> (Some (Err HotPlugNotSupported), s1))
      | Some n \<Rightarrow>
          (let leave = (\<lambda>s'. s'\<lparr>cl_receivers := Some n\<rparr>);
               s0 = s\<lparr>cl_receivers := Some (Suc n)\<rparr> in
           case send_result svc OK tag s0 of
             (Inl e, s1) \<Rightarrow> (Some (Err e), leave s1)
           | (Inr _, s1) \<Rightarrow>
               (case send_currently_connected svc env tag s1 of
                  (Ok _, s2) \<Rightarrow>
                    (case listen_loop svc env tag evs s2 of
                       (None, s3) \<Rightarrow> (None, s3)
                     | (Some r, s3) \<Rightarrow> (Some r, leave s3))
                | (r, s2) \<Rightarrow> (Some r, leave s2))))"

definition handle_listeners_list ::
    "service \<Rightarrow> u32 \<Rightarrow> client \<Rightarrow> (RusbmuxError, unit) outcome \<times> client" where
  "handle_listeners_list svc tag s =
     (case cl_receivers s of
        None \<Rightarrow> (Err HotPlugNotSupported, s)
      | Some n \<Rightarrow>
          apfst of_sum (client_write svc (response svc
            (Dictionary [(''ListenerList'', Array (replicate n (Dictionary
               [(''Blacklisted'', Boolean False), (''ConnType'', Integer 0),
                (''ID String'', String ''unknown''), (''ProgName'', String ''unknown'')])))]) tag) s))"

section \<open>Connecting\<close>

fun connect_failure_code :: "RusbmuxError \<Rightarrow> ResultCode" where
  "connect_failure_code (DeviceNotFound i) = BadDeviceOrNoSuchFile"
| "connect_failure_code RanOutofSourcePort = BadDeviceOrNoSuchFile"
| "connect_failure_code e = ConnectionRefused"

text \<open>Serving a connection with what belongs to its device, which is put back afterwards.\<close>

definition serve_usb ::
    "service \<Rightarrow> daemon_env \<Rightarrow> requests \<Rightarrow> u64 \<Rightarrow> nat \<Rightarrow> client
       \<Rightarrow> (RusbmuxError, unit) outcome option \<times> client" where
  "serve_usb svc env rq dev_id n s =
     (case connected (cl_world s) dev_id of
        Some (Usb dev) \<Rightarrow>
          (case heap dev n of
             Some c \<Rightarrow>
               (case handle_usb_device_connect (env_ops env) (env_writer env) (svc_write svc) (rq_proxy rq)
                       \<lparr>px_conn = c, px_queue = w_queue dev, px_router = Some (router dev), px_buf = [],
                        px_reads = rq_reads rq, px_out = sent s\<rparr> of
                  (r, px) \<Rightarrow>
                    (map_option of_sum r,
                     s\<lparr>sent := px_out px,
                       cl_world := table_insert dev_id (Usb (dev\<lparr>w_queue := px_queue px,
                         router := (case px_router px of None \<Rightarrow> router dev | Some rt \<Rightarrow> rt),
                         heap := (heap dev)(n := (if r = None then Some (px_conn px) else None))\<rparr>))
                         (cl_world s)\<rparr>))
           | None \<Rightarrow> (Some (Ok ()), s))
      | _ \<Rightarrow> (Some (Ok ()), s))"

definition handle_connect ::
    "service \<Rightarrow> daemon_env \<Rightarrow> requests \<Rightarrow> u64 \<Rightarrow> u16 \<Rightarrow> u32 \<Rightarrow> client
       \<Rightarrow> (RusbmuxError, unit) outcome option \<times> client" where
  "handle_connect svc env rq dev_id port tag s =
     (case handler_connect (env_ops env) (env_writer env) (rq_tcp rq) (rq_answer rq) dev_id port (cl_world s) of
        (Inl e, w) \<Rightarrow>
          (case send_result svc (connect_failure_code e) tag (s\<lparr>cl_world := w\<rparr>) of
             (Inl e', s1) \<Rightarrow> (Some (Err e'), s1)
           | (Inr _, s1) \<Rightarrow> (Some (Err e), s1))
      | (Inr conn, w) \<Rightarrow>
          (case send_result svc OK tag (s\<lparr>cl_world := w\<rparr>) of
             (Inl e', s1) \<Rightarrow> (Some (Err e'), s1)
           | (Inr _, s1) \<Rightarrow>
               (case conn of
                  UsbConn n \<Rightarrow> serve_usb svc env rq dev_id n s1
                | NetworkConn c \<Rightarrow>
                    (Some (of_sum (handle_network_device_connect (rq_copied rq))), s1))))"

section \<open>Messages\<close>

datatype HandlerError =
    Fatal RusbmuxError "PayloadMessageType option"
  | NonFatal RusbmuxError "PayloadMessageType option"

datatype control_flow = ContinueLoop | Break

text \<open>\<open>Busy\<close>: the client is still listening or connected.\<close>

datatype verdict = Done control_flow | Failed HandlerError | Panicked | Busy

definition classify :: "RusbmuxError \<Rightarrow> PayloadMessageType option \<Rightarrow> HandlerError" where
  "classify e request =
     (if request = Some PConnect \<or> request = Some PListen then Fatal e request else NonFatal e request)"

definition conclude ::
    "control_flow \<Rightarrow> PayloadMessageType \<Rightarrow> (RusbmuxError, unit) outcome option \<times> client \<Rightarrow> verdict \<times> client" where
  "conclude flow request res =
     apfst (\<lambda>r. case r of
         None \<Rightarrow> Busy
       | Some (Ok _) \<Rightarrow> Done flow
       | Some (Err e) \<Rightarrow> Failed (classify e (Some request))
       | Some Panic \<Rightarrow> Panicked) res"

text \<open>The error of a request that cannot be read: the missing field, when the text names one.\<close>

definition request_error :: "string \<Rightarrow> RusbmuxError" where
  "request_error err =
     (case find (\<lambda>f. str_contains err (''missing field `'' @ missing_field_name f @ ''`''))
             [PairRecordID, PairRecordData, DeviceID, PortNumber] of
        Some f \<Rightarrow> ValueNotFound f
      | None \<Rightarrow> Parse (ParseError_Plist err))"

fun request_error_code :: "RusbmuxError \<Rightarrow> ResultCode" where
  "request_error_code (ValueNotFound f) = result_code f"
| "request_error_code e = InvalidInput"

fun handle_request ::
    "service \<Rightarrow> daemon_env \<Rightarrow> requests \<Rightarrow> u32 \<Rightarrow> UsbMuxRequest \<Rightarrow> client \<Rightarrow> verdict \<times> client" where
  "handle_request svc env rq tag (ListDevices common) s =
     conclude ContinueLoop PListDevices (apfst Some (handle_device_list svc env tag s))"
| "handle_request svc env rq tag (Listen common) s =
     conclude Break PListen (handle_listen svc env (rq_listen rq) tag s)"
| "handle_request svc env rq tag (ListListeners common) s =
     conclude ContinueLoop PListListeners (apfst Some (handle_listeners_list svc tag s))"
| "handle_request svc env rq tag (ReadPairRecord common i) s =
     conclude ContinueLoop PReadPairRecord (apfst (Some \<circ> of_sum) (handle_read_pair_record svc i tag s))"
| "handle_request svc env rq tag (Connect common dev_id port) s =
     conclude Break PConnect (handle_connect svc env rq dev_id port tag s)"
| "handle_request svc env rq tag (ReadBUID common) s =
     conclude ContinueLoop PReadBUID (apfst (Some \<circ> of_sum) (handle_read_buid svc tag s))"
| "handle_request svc env rq tag (SavePairRecord common i d dev_id) s =
     conclude ContinueLoop PSavePairRecord
       (apfst (Some \<circ> of_sum) (handle_save_pair_record svc i d dev_id tag s))"
| "handle_request svc env rq tag (DeletePairRecord common i) s =
     conclude ContinueLoop PDeletePairRecord (apfst (Some \<circ> of_sum) (handle_delete_pair_record svc i tag s))"

definition handle_message ::
    "service \<Rightarrow> daemon_env \<Rightarrow> requests \<Rightarrow> UsbMuxPacket \<Rightarrow> client \<Rightarrow> verdict \<times> client" where
  "handle_message svc env rq p s =
     (let tag = hdr_tag (um_header p) in
      if hdr_msg_type (um_header p) = MessagePlist
      then (case as_plist (um_payload p) of
              None \<Rightarrow> (Failed (classify (UnexpectedPacket ''expected plist payload'') None), s)
            | Some v \<Rightarrow>
                (case rq_parse rq v of
                   Inl err \<Rightarrow>
                     (let e = request_error err in
                      case send_result svc (request_error_code e) tag s of
                        (Inl e', s1) \<Rightarrow> (Failed (classify e' None), s1)
                      | (Inr _, s1) \<Rightarrow> (Failed (classify e None), s1))
                 | Inr request \<Rightarrow> handle_request svc env rq tag request s))
      else (case send_result svc BadCommand tag s of
              (Inl e, s1) \<Rightarrow> (Failed (classify e None), s1)
            | (Inr _, s1) \<Rightarrow> (Done ContinueLoop, s1)))"

text \<open>How the task of a client ends.\<close>

datatype client_end = Closed client | Crashed client | Serving client

definition client_closed :: "io_error \<Rightarrow> bool" where
  "client_closed e \<longleftrightarrow> kind e = UnexpectedEof \<or> kind e = ConnectionReset \<or> kind e = BrokenPipe"

partial_function (option) handle_client ::
    "service \<Rightarrow> daemon_env \<Rightarrow> requests \<Rightarrow> client \<Rightarrow> client_end option" where
  "handle_client svc env rq s =
     (case usbmux_from_reader (svc_endian svc) (svc_plist svc) (cl_input s) of
        (Inl e, r) \<Rightarrow>
          (if (case e of ParseError_IO io \<Rightarrow> client_closed io | _ \<Rightarrow> False)
           then Some (Closed (s\<lparr>cl_input := r\<rparr>))
           else handle_client svc env rq (s\<lparr>cl_input := r\<rparr>))
      | (Inr p, r) \<Rightarrow>
          (case handle_message svc env rq p (s\<lparr>cl_input := r\<rparr>) of
             (v, s2) \<Rightarrow>
               (case v of
                  Done flow \<Rightarrow> (if flow = Break then Some (Closed s2) else handle_client svc env rq s2)
                | Failed err \<Rightarrow>
                    (case err of
                       Fatal e request \<Rightarrow> Some (Closed s2)
                     | NonFatal e request \<Rightarrow>
                         (if is_disconnect e then Some (Closed s2) else handle_client svc env rq s2))
                | Panicked \<Rightarrow> Some (Crashed s2)
                | Busy \<Rightarrow> Some (Serving s2))))"

section \<open>Shutting the daemon down\<close>

text \<open>Every device of the table is shut down; an error is logged and the walk goes on.\<close>

primrec cleanup_walk :: "daemon_env \<Rightarrow> u64 list \<Rightarrow> world \<Rightarrow> world" where
  "cleanup_walk env [] w = w"
| "cleanup_walk env (i # is) w =
     cleanup_walk env is
       (case connected w i of
          None \<Rightarrow> w
        | Some d \<Rightarrow> table_insert i (snd (device_shutdown env d)) w)"

definition cleanup :: "daemon_env \<Rightarrow> world \<Rightarrow> world" where
  "cleanup env w = cleanup_walk env (env_walk env (connected w)) w"

section \<open>Lemmas\<close>

lemma client_write_input [simp]:
  "cl_input (snd (client_write svc b s)) = cl_input s"
  "cl_input (snd (send_result svc code tag s)) = cl_input s"
  by (simp_all add: send_result_def client_write_def split: option.splits)

lemma client_write_world [simp]:
  "cl_world (snd (client_write svc b s)) = cl_world s"
  "cl_world (snd (send_result svc code tag s)) = cl_world s"
  by (simp_all add: send_result_def client_write_def split: option.splits)

lemma answer_failure_input [simp]: "cl_input (snd (answer_failure svc codes e tag s)) = cl_input s"
  by (auto simp: answer_failure_def send_result_def client_write_def split: option.splits)

lemma record_handlers_input [simp]:
  "cl_input (snd (handle_read_pair_record svc i tag s)) = cl_input s"
  "cl_input (snd (handle_save_pair_record svc i d dev tag s)) = cl_input s"
  "cl_input (snd (handle_delete_pair_record svc i tag s)) = cl_input s"
  "cl_input (snd (handle_read_buid svc tag s)) = cl_input s"
  by (auto simp: handle_read_pair_record_def read_pair_record_def handle_save_pair_record_def
      save_pair_record_def handle_delete_pair_record_def delete_pair_record_def handle_read_buid_def
      answer_buid_def fs_write_def fs_remove_def answer_failure_def send_result_def client_write_def
      split: option.splits sum.splits)

lemma send_attached_input [simp]: "cl_input (snd (send_attached svc env tag d s)) = cl_input s"
  by (simp add: send_attached_def split: outcome.splits)

lemma send_shown_input [simp]: "cl_input (snd (send_shown svc env tag ds s)) = cl_input s"
proof (induction ds arbitrary: s)
  case (Cons d ds)
  obtain r s1 where sa: "send_attached svc env tag d s = (r, s1)" by fastforce
  with send_attached_input [of svc env tag d s] have "cl_input s1 = cl_input s" by simp
  with Cons.IH [of s1] Cons.IH [of s] sa show ?case by (simp split: outcome.splits)
qed simp

lemma listen_loop_input [simp]: "cl_input (snd (listen_loop svc env tag evs s)) = cl_input s"
proof (induction evs arbitrary: s)
  case (Cons a evs)
  obtain ev w where a: "a = (ev, w)" by fastforce
  let ?s = "s\<lparr>cl_world := w\<rparr>"
  show ?case
  proof (cases ev)
    case None
    with a show ?thesis by simp
  next
    case (Some e)
    show ?thesis
    proof (cases e)
      case (Attached i)
      show ?thesis
      proof (cases "connected w i")
        case None
        with a Some Attached Cons.IH [of ?s] show ?thesis by simp
      next
        case d: (Some d)
        obtain r s1 where sa: "send_attached svc env tag d ?s = (r, s1)" by fastforce
        with send_attached_input [of svc env tag d ?s] have "cl_input s1 = cl_input s" by simp
        with a Some Attached d sa Cons.IH [of s1] show ?thesis by (cases r) simp_all
      qed
    next
      case (Detached i)
      let ?b = "response svc (Dictionary [(''MessageType'', String ''Detached''), (''DeviceID'', int_u i)]) tag"
      obtain r s1 where cw: "client_write svc ?b ?s = (r, s1)" by fastforce
      with client_write_input(1) [of svc ?b ?s] have "cl_input s1 = cl_input s" by simp
      with a Some Detached cw Cons.IH [of s1] show ?thesis by (cases r) simp_all
    qed
  qed
qed simp

lemma handle_listen_input [simp]: "cl_input (snd (handle_listen svc env evs tag s)) = cl_input s"
proof (cases "cl_receivers s")
  case None
  then show ?thesis
    by (auto simp: handle_listen_def send_result_def client_write_def split: option.splits)
next
  case (Some n)
  let ?s = "s\<lparr>cl_receivers := Some (Suc n)\<rparr>"
  obtain r1 s1 where r1: "send_result svc OK tag ?s = (r1, s1)" by fastforce
  obtain r2 s2 where r2: "send_currently_connected svc env tag s1 = (r2, s2)" by fastforce
  obtain r3 s3 where r3: "listen_loop svc env tag evs s2 = (r3, s3)" by fastforce
  have "cl_input s1 = cl_input s" using r1 client_write_input(2) [of svc OK tag ?s] by simp
  moreover have "cl_input s2 = cl_input s1"
    using r2 send_shown_input [of svc env tag "devices env (cl_world s1)" s1]
    by (simp add: send_currently_connected_def)
  moreover have "cl_input s3 = cl_input s2" using r3 listen_loop_input [of svc env tag evs s2] by simp
  ultimately show ?thesis
    using Some r1 r2 r3 by (cases r1; cases r2; cases r3) (auto simp: handle_listen_def Let_def)
qed

lemma serve_usb_input [simp]: "cl_input (snd (serve_usb svc env rq i n s)) = cl_input s"
  by (auto simp: serve_usb_def split: option.splits Device.splits prod.splits)

lemma handle_connect_input [simp]: "cl_input (snd (handle_connect svc env rq i port tag s)) = cl_input s"
proof -
  obtain r w where c: "handler_connect (env_ops env) (env_writer env) (rq_tcp rq) (rq_answer rq) i port
      (cl_world s) = (r, w)" by fastforce
  let ?s = "s\<lparr>cl_world := w\<rparr>"
  have "cl_input s1 = cl_input s" if "send_result svc code tag ?s = (r1, s1)" for code r1 s1
    using that client_write_input(2) [of svc code tag ?s] by simp
  with c show ?thesis
    by (auto simp: handle_connect_def split: sum.splits prod.splits DeviceConn.splits)
qed

lemma handle_message_input: "cl_input (snd (handle_message svc env rq p s)) = cl_input s"
proof -
  have lists: "cl_input (snd (handle_device_list svc env tag s)) = cl_input s"
    "cl_input (snd (handle_listeners_list svc tag s)) = cl_input s" for tag
    by (auto simp: handle_device_list_def handle_listeners_list_def split: outcome.splits option.splits)
  have req: "cl_input (snd (handle_request svc env rq tag request s)) = cl_input s" for tag request
    by (cases request) (simp_all add: conclude_def lists)
  have "cl_input s1 = cl_input s" if "send_result svc code tag s = (r1, s1)" for code tag r1 s1
    using that client_write_input(2) [of svc code tag s] by simp
  then show ?thesis
    by (auto simp: handle_message_def Let_def req split: option.splits sum.splits prod.splits)
qed

text \<open>Reading a packet takes bytes off the stream, or fails with the error at its end.\<close>

lemma usbmux_from_reader_progress:
  assumes "usbmux_from_reader en from_plist r = (res, r')"
  shows "at_end r' = at_end r
     \<and> (length (avail r') < length (avail r) \<or> res = Inl (ParseError_IO (at_end r)))"
proof -
  obtain h r1 where h: "usbmux_header_from_reader en r = (h, r1)" by fastforce
  have 1: "at_end r1 = at_end r \<and> (length (avail r1) + 16 = length (avail r) \<or> h = Inl (ParseError_IO (at_end r)))"
    using h by (auto simp: usbmux_header_from_reader_def read_exact_def USBMUX_SIZE_def Let_def
        split: if_splits sum.splits prod.splits)
  show ?thesis
  proof (cases h)
    case (Inl e)
    with assms h 1 show ?thesis by (auto simp: usbmux_from_reader_def)
  next
    case (Inr hd)
    with 1 have "length (avail r1) + 16 = length (avail r)" by auto
    with assms h Inr 1 show ?thesis
      by (auto simp: usbmux_from_reader_def read_exact_def split: if_splits sum.splits prod.splits)
  qed
qed

lemma usbmux_from_reader_empty:
  "avail r = [] \<Longrightarrow> usbmux_from_reader en from_plist r = (Inl (ParseError_IO (at_end r)), r)"
  by (simp add: usbmux_from_reader_def usbmux_header_from_reader_def read_exact_def USBMUX_SIZE_def)

lemma handle_client_stuck:
  assumes "handle_client svc env rq s = Some e"
  shows "\<not> (\<not> client_closed (at_end (cl_input s)) \<and> avail (cl_input s) = [])"
proof (rule handle_client.raw_induct
    [where P = "\<lambda>svc env rq s e. \<not> (\<not> client_closed (at_end (cl_input s)) \<and> avail (cl_input s) = [])", OF _ assms])
  fix f :: "service \<Rightarrow> daemon_env \<Rightarrow> requests \<Rightarrow> client \<Rightarrow> client_end option" and svc env rq s e
  assume IH: "\<And>svc env rq s e. f svc env rq s = Some e \<Longrightarrow>
      \<not> (\<not> client_closed (at_end (cl_input s)) \<and> avail (cl_input s) = [])"
    and eq: "(case usbmux_from_reader (svc_endian svc) (svc_plist svc) (cl_input s) of
        (Inl e, r) \<Rightarrow>
          (if (case e of ParseError_IO io \<Rightarrow> client_closed io | _ \<Rightarrow> False)
           then Some (Closed (s\<lparr>cl_input := r\<rparr>))
           else f svc env rq (s\<lparr>cl_input := r\<rparr>))
      | (Inr p, r) \<Rightarrow>
          (case handle_message svc env rq p (s\<lparr>cl_input := r\<rparr>) of
             (v, s2) \<Rightarrow>
               (case v of
                  Done flow \<Rightarrow> (if flow = Break then Some (Closed s2) else f svc env rq s2)
                | Failed err \<Rightarrow>
                    (case err of
                       Fatal e request \<Rightarrow> Some (Closed s2)
                     | NonFatal e request \<Rightarrow> (if is_disconnect e then Some (Closed s2) else f svc env rq s2))
                | Panicked \<Rightarrow> Some (Crashed s2)
                | Busy \<Rightarrow> Some (Serving s2)))) = Some e"
  show "\<not> (\<not> client_closed (at_end (cl_input s)) \<and> avail (cl_input s) = [])"
  proof
    assume st: "\<not> client_closed (at_end (cl_input s)) \<and> avail (cl_input s) = []"
    with eq have "f svc env rq (s\<lparr>cl_input := cl_input s\<rparr>) = Some e"
      by (simp add: usbmux_from_reader_empty)
    with IH [of svc env rq "s\<lparr>cl_input := cl_input s\<rparr>" e] st show False by simp
  qed
qed

section \<open>Properties\<close>


definition sample_requests :: requests where
  "sample_requests = \<lparr>rq_parse = (\<lambda>_. Inr (ListListeners \<lparr>bundle_id = None, client_version_string = None,
       conn_type = None, process_id = None, prog_name = None, libusbmux_version = None\<rparr>)),
     rq_tcp = (\<lambda>_. None), rq_answer = RecvClosed ''closed'', rq_proxy = [], rq_reads = [], rq_copied = None,
     rq_listen = []\<rparr>"

definition sample_client :: "io_kind \<Rightarrow> client" where
  "sample_client k = \<lparr>files = Map.empty, sent = [], cl_world = sample_world, cl_receivers = Some 0,
     cl_input = \<lparr>avail = [], at_end = IoError k ''end''\<rparr>\<rparr>"


section \<open>Answers\<close>

text \<open>Everything written between two states is a response with this tag.\<close>

definition answered :: "service \<Rightarrow> u32 \<Rightarrow> bytes list \<Rightarrow> bytes list \<Rightarrow> bool" where
  "answered svc tag out out' \<longleftrightarrow> (\<exists>vs. out' = out @ map (\<lambda>v. response svc v tag) vs)"

lemma answered_refl [simp, intro]: "answered svc tag out out"
  unfolding answered_def by (intro exI [of _ "[]"]) simp

lemma answered_trans [trans]:
  "answered svc tag a b \<Longrightarrow> answered svc tag b c \<Longrightarrow> answered svc tag a c"
  unfolding answered_def by (metis append.assoc map_append)

lemma answered_write [simp]: "answered svc tag (sent s) (sent (snd (client_write svc (response svc v tag) s)))"
proof (cases "svc_write svc (sent s) (response svc v tag)")
  case None
  then show ?thesis unfolding answered_def by (intro exI [of _ "[v]"]) (simp add: client_write_def)
qed (simp add: client_write_def)

lemma answered_result [simp]: "answered svc tag (sent s) (sent (snd (send_result svc code tag s)))"
  unfolding send_result_def by (rule answered_write)

lemma answered_failure [simp]: "answered svc tag (sent s) (sent (snd (answer_failure svc codes e tag s)))"
proof (cases "codes e")
  case (Some c)
  obtain r s1 where "send_result svc c tag s = (r, s1)" by fastforce
  with answered_result [of svc tag s c] Some show ?thesis
    by (cases r) (simp_all add: answer_failure_def)
qed (simp add: answer_failure_def)

lemma answered_records:
  "answered svc tag (sent s) (sent (snd (handle_read_pair_record svc i tag s)))"
  "answered svc tag (sent s) (sent (snd (handle_delete_pair_record svc i tag s)))"
  "answered svc tag (sent s) (sent (snd (handle_save_pair_record svc i d dev tag s)))"
  "answered svc tag (sent s) (sent (snd (handle_read_buid svc tag s)))"
proof -
  have fw: "sent s1 = sent t" if "fs_write svc p b t = (r, s1)" for p b r s1 and t :: "'x session_scheme"
    using that by (auto simp: fs_write_def split: option.splits)
  have "answered svc tag (sent s) (sent (snd (read_pair_record svc i tag s)))"
    by (simp add: read_pair_record_def split: sum.splits)
  moreover obtain r1 s1 where r1: "read_pair_record svc i tag s = (r1, s1)" by fastforce
  ultimately have a1: "answered svc tag (sent s) (sent s1)" by simp
  from a1 r1 show "answered svc tag (sent s) (sent (snd (handle_read_pair_record svc i tag s)))"
    by (cases r1) (auto simp: handle_read_pair_record_def intro: answered_trans [OF a1])
  obtain r2 s2 where r2: "delete_pair_record svc i s = (r2, s2)" by fastforce
  then have s2: "sent s2 = sent s"
    by (auto simp: delete_pair_record_def fs_remove_def split: if_splits option.splits)
  with r2 answered_result [of svc tag s2] answered_failure [of svc tag s2]
  show "answered svc tag (sent s) (sent (snd (handle_delete_pair_record svc i tag s)))"
    by (cases r2) (simp_all add: handle_delete_pair_record_def)
  obtain r3 s3 where r3: "save_pair_record svc i d dev tag s = (r3, s3)" by fastforce
  have a3: "answered svc tag (sent s) (sent s3)"
  proof -
    obtain r t where w: "fs_write svc (record_path svc i) (svc_xml svc (Data d)) s = (r, t)" by fastforce
    note t = fw [OF w]
    have "answered svc tag (sent s) (sent (snd (save_pair_record svc i d dev tag s)))"
      using w answered_write [of svc tag t] by (simp add: save_pair_record_def t split: sum.splits option.splits)
    with r3 show ?thesis by simp
  qed
  with r3 show "answered svc tag (sent s) (sent (snd (handle_save_pair_record svc i d dev tag s)))"
    by (cases r3) (auto simp: handle_save_pair_record_def intro: answered_trans [OF a3])
  have ab: "answered svc tag (sent t) (sent (snd (answer_buid svc tag t)))" for t :: "'a session_scheme"
    by (simp add: answer_buid_def split: sum.splits)
  show "answered svc tag (sent s) (sent (snd (handle_read_buid svc tag s)))"
  proof (cases "files s (config_path svc) = None")
    case True
    obtain r t where w: "fs_write svc (config_path svc)
        (svc_xml svc (Dictionary [(''SystemBUID'', String (map to_upper (svc_uuid svc)))])) s = (r, t)" by fastforce
    with True ab [of t] answered_result [of svc tag t] fw [OF w] show ?thesis
      by (cases r) (simp_all add: handle_read_buid_def)
  next
    case False
    with ab [of s] show ?thesis by (auto simp: handle_read_buid_def)
  qed
qed

lemma answered_attached [simp]: "answered svc tag (sent s) (sent (snd (send_attached svc env tag d s)))"
  by (simp add: send_attached_def split: outcome.splits)

lemma answered_shown: "answered svc tag (sent s) (sent (snd (send_shown svc env tag ds s)))"
proof (induction ds arbitrary: s)
  case (Cons d ds)
  obtain r s1 where sa: "send_attached svc env tag d s = (r, s1)" by fastforce
  with answered_attached [of svc tag s env d] have "answered svc tag (sent s) (sent s1)" by simp
  with answered_trans [OF this Cons.IH [of s1]] Cons.IH [of s] sa show ?case by (simp split: outcome.splits)
qed simp

lemma answered_listen_loop: "answered svc tag (sent s) (sent (snd (listen_loop svc env tag evs s)))"
proof (induction evs arbitrary: s)
  case (Cons a evs)
  obtain ev w where a: "a = (ev, w)" by fastforce
  let ?s = "s\<lparr>cl_world := w\<rparr>"
  show ?case
  proof (cases ev)
    case None
    with a show ?thesis by simp
  next
    case (Some e)
    show ?thesis
    proof (cases e)
      case (Attached i)
      show ?thesis
      proof (cases "connected w i")
        case None
        with a Some Attached Cons.IH [of ?s] show ?thesis by simp
      next
        case d: (Some d)
        obtain r s1 where sa: "send_attached svc env tag d ?s = (r, s1)" by fastforce
        with answered_attached [of svc tag ?s env d] have "answered svc tag (sent s) (sent s1)" by simp
        with a Some Attached d sa answered_trans [OF this Cons.IH [of s1]] show ?thesis by (cases r) simp_all
      qed
    next
      case (Detached i)
      let ?v = "Dictionary [(''MessageType'', String ''Detached''), (''DeviceID'', int_u i)]"
      obtain r s1 where cw: "client_write svc (response svc ?v tag) ?s = (r, s1)" by fastforce
      with answered_write [of svc tag ?s ?v] have "answered svc tag (sent s) (sent s1)" by simp
      with a Some Detached cw answered_trans [OF this Cons.IH [of s1]] show ?thesis by (cases r) simp_all
    qed
  qed
qed simp

lemma answered_listen: "answered svc tag (sent s) (sent (snd (handle_listen svc env evs tag s)))"
proof (cases "cl_receivers s")
  case None
  obtain r s1 where "send_result svc BadDeviceOrNoSuchFile tag s = (r, s1)" by fastforce
  with answered_result [of svc tag s BadDeviceOrNoSuchFile] None show ?thesis
    by (cases r) (simp_all add: handle_listen_def)
next
  case (Some n)
  let ?s = "s\<lparr>cl_receivers := Some (Suc n)\<rparr>"
  obtain r1 s1 where r1: "send_result svc OK tag ?s = (r1, s1)" by fastforce
  obtain r2 s2 where r2: "send_currently_connected svc env tag s1 = (r2, s2)" by fastforce
  obtain r3 s3 where r3: "listen_loop svc env tag evs s2 = (r3, s3)" by fastforce
  have a1: "answered svc tag (sent s) (sent s1)" using r1 answered_result [of svc tag ?s OK] by simp
  have "answered svc tag (sent s1) (sent s2)"
    using r2 answered_shown [of svc tag s1 env "devices env (cl_world s1)"] by (simp add: send_currently_connected_def)
  with a1 have a2: "answered svc tag (sent s) (sent s2)" by (rule answered_trans)
  have "answered svc tag (sent s2) (sent s3)" using r3 answered_listen_loop [of svc tag s2 env evs] by simp
  with a2 have "answered svc tag (sent s) (sent s3)" by (rule answered_trans)
  with Some r1 r2 r3 a1 a2 show ?thesis
    by (cases r1; cases r2; cases r3) (auto simp: handle_listen_def Let_def)
qed

fun is_connect :: "UsbMuxRequest \<Rightarrow> bool" where
  "is_connect (Connect common i port) = True"
| "is_connect request = False"

fun is_record_request :: "UsbMuxRequest \<Rightarrow> bool" where
  "is_record_request (ReadPairRecord common i) = True"
| "is_record_request (SavePairRecord common i d dev_id) = True"
| "is_record_request (DeletePairRecord common i) = True"
| "is_record_request request = False"

lemma answered_request:
  assumes "\<not> is_connect request"
  shows "answered svc tag (sent s) (sent (snd (handle_request svc env rq tag request s)))"
proof -
  have "answered svc tag (sent s) (sent (snd (handle_device_list svc env tag s)))"
    "answered svc tag (sent s) (sent (snd (handle_listeners_list svc tag s)))"
    by (auto simp: handle_device_list_def handle_listeners_list_def split: outcome.splits option.splits)
  with assms show ?thesis
    by (cases request) (simp_all add: conclude_def answered_records answered_listen)
qed

text \<open>On a healthy service a request about a pair record always gets an answer.\<close>

lemma record_request_answered:
  assumes "healthy svc" and "is_record_request request"
  shows "sent (snd (handle_request svc env rq tag request s)) \<noteq> sent s"
  using assms
  by (cases request)
    (auto simp: conclude_def handle_read_pair_record_def read_pair_record_def handle_save_pair_record_def
      save_pair_record_def handle_delete_pair_record_def delete_pair_record_def answer_failure_def
      split: option.splits)


definition sample_message :: UsbMuxPacket where
  "sample_message = \<lparr>um_header = \<lparr>hdr_len = 16, hdr_version = Binary, hdr_msg_type = MsgConnect, hdr_tag = 9\<rparr>,
     um_payload = Raw []\<rparr>"


end
