(* ===== verification/Listening.thy ===== *)
theory Listening
  imports Handlers
begin

text \<open>
  What clients are told about devices: the device list, the announcements at the start of a
  listening session and the events forwarded afterwards, against the visible devices of the table.
\<close>

section \<open>The devices shown\<close>

lemma shown_visible:
  assumes "table_inv w" and "env_law env" and "connected w i = Some d"
  shows "shown env w d = Ok (i \<in> visible w)"
proof (cases "as_network d")
  case None
  with assms(3) show ?thesis by (simp add: shown_def visible_def)
next
  case (Some n)
  then have d: "d = Network n" by (cases d) auto
  have id_d: "nd_id n = i" using table_inv_entry [OF assms(1,3)] d by simp
  let ?P = "\<lambda>dev. map_ok (\<lambda>s. s = nd_serial_number n \<and> device_id dev \<noteq> nd_id n) (device_serial dev)"
  have "any_dev ?P (devices env w) = Ok (\<exists>dev \<in> set (devices env w). ser dev = ser d \<and> device_id dev \<noteq> i)"
    by (rule any_dev_total) (use listed_readable [OF assms(2,1)] d id_d in \<open>auto simp: readable_def\<close>)
  moreover have "(\<exists>dev \<in> set (devices env w). ser dev = ser d \<and> device_id dev \<noteq> i) \<longleftrightarrow> i \<notin> visible w"
  proof -
    have "i \<in> visible w \<longleftrightarrow> (\<forall>j e. connected w j = Some e \<longrightarrow> ser e = ser d \<longrightarrow> j = i)"
      using assms(3) Some by (simp add: visible_def)
    moreover have "(\<exists>dev \<in> set (devices env w). ser dev = ser d \<and> device_id dev \<noteq> i) \<longleftrightarrow>
        (\<exists>j e. connected w j = Some e \<and> ser e = ser d \<and> j \<noteq> i)"
      using devices_set [OF assms(2)] table_inv_entry [OF assms(1)] by metis
    ultimately show ?thesis by blast
  qed
  ultimately show ?thesis using Some by (simp add: shown_def)
qed

text \<open>The devices a client is shown, in the order of the walk.\<close>

definition shown_devices :: "daemon_env \<Rightarrow> world \<Rightarrow> Device list" where
  "shown_devices env w = filter (\<lambda>d. device_id d \<in> visible w) (devices env w)"

lemma shown_listed:
  assumes "table_inv w" and "env_law env" and "d \<in> set (devices env w)"
  shows "shown env w d = Ok (device_id d \<in> visible w)"
proof -
  from assms(3) obtain i where "connected w i = Some d" using devices_set [OF assms(2)] by blast
  with shown_visible [OF assms(1,2)] table_inv_entry [OF assms(1)] show ?thesis by metis
qed

lemma set_shown_devices:
  assumes "table_inv w" and "env_law env"
  shows "set (shown_devices env w) = {d. \<exists>i \<in> visible w. connected w i = Some d}"
  using devices_set [OF assms(2)] table_inv_entry [OF assms(1)]
  by (fastforce simp: shown_devices_def)

lemma attached_list_filter:
  assumes "\<forall>d \<in> set ds. shown env w d = Ok (Q d) \<and> device_attached env d = Ok (att d)"
  shows "attached_list env w ds = Ok (map att (filter Q ds))"
  using assms by (induction ds) auto

lemma send_shown_filter:
  assumes "healthy svc" and "\<forall>d \<in> set ds. shown env (cl_world s) d = Ok (Q d) \<and> device_attached env d = Ok (att d)"
  shows "send_shown svc env tag ds s =
     (Ok (), s\<lparr>sent := sent s @ map (\<lambda>d. response svc (att d) tag) (filter Q ds)\<rparr>)"
  using assms(2)
proof (induction ds arbitrary: s)
  case (Cons d ds)
  let ?s1 = "s\<lparr>sent := sent s @ [response svc (att d) tag]\<rparr>"
  have "send_attached svc env tag d s = (Ok (), ?s1)" using Cons.prems assms(1) by (simp add: send_attached_def)
  with Cons.IH [of s] Cons.IH [of ?s1] Cons.prems show ?case by auto
qed simp

section \<open>Properties\<close>

text \<open>
  Clients are shown exactly the visible devices: on a table in order, the device list has one
  entry for every visible device and no other, and the same announcements, in the same order, are
  what a listener gets when it starts; so with the events sent afterwards it always knows the
  visible devices. Nothing panics on the way.
\<close>
theorem listing_shows_visible:
  assumes "table_inv w" and "env_law env" and "healthy svc" and "cl_world s = w"
    and "\<forall>i d. connected w i = Some d \<longrightarrow> device_attached env d = Ok (att d)"
  shows "set (shown_devices env w) = {d. \<exists>i \<in> visible w. connected w i = Some d}
     \<and> devices_plist env w = Ok (Dictionary [(''DeviceList'', Array (map att (shown_devices env w)))])
     \<and> send_currently_connected svc env tag s =
         (Ok (), s\<lparr>sent := sent s @ map (\<lambda>d. response svc (att d) tag) (shown_devices env w)\<rparr>)"
proof -
  have all: "\<forall>d \<in> set (devices env w). shown env w d = Ok (device_id d \<in> visible w) \<and> device_attached env d = Ok (att d)"
    using shown_listed [OF assms(1,2)] devices_set [OF assms(2)] assms(5) by blast
  have "attached_list env w (devices env w) = Ok (map att (shown_devices env w))"
    unfolding shown_devices_def by (rule attached_list_filter [OF all])
  moreover have "send_shown svc env tag (devices env w) s =
      (Ok (), s\<lparr>sent := sent s @ map (\<lambda>d. response svc (att d) tag) (shown_devices env w)\<rparr>)"
    unfolding shown_devices_def using all assms(4) by (intro send_shown_filter [OF assms(3)]) simp
  ultimately show ?thesis
    using set_shown_devices [OF assms(1,2)] assms(4) by (simp add: devices_plist_def send_currently_connected_def)
qed

theorem listing_shows_visible_witness:
  "set (shown_devices sample_env sample_added) =
     {Network (network_new 5 (IPv4 1) (Some 0) ''m'' ''m@s'' ''u'')}
   \<and> (\<exists>vs. devices_plist sample_env sample_added = Ok (Dictionary [(''DeviceList'', Array vs)]))"
proof -
  let ?n = "network_new 5 (IPv4 1) (Some 0) ''m'' ''m@s'' ''u''"
  let ?s = "(sample_client UnexpectedEof)\<lparr>cl_world := sample_added\<rparr>"
  have one: "connected sample_added i = Some d \<longleftrightarrow> i = 5 \<and> d = Network ?n" for i d
    by (auto simp: sample_added_def sample_world_def)
  have "5 \<in> visible sample_added"
    using visible_iff [OF sample_added_facts(1), of 5 "Network ?n"] one sample_added_facts(2) by simp
  moreover have "\<forall>i d. connected sample_added i = Some d \<longrightarrow>
      device_attached sample_env d = Ok (network_create_device_attached (env_os sample_env) (env_endian sample_env) ?n)"
    using one by simp
  note listing_shows_visible [OF sample_added_facts(1) sample_env_law sample_svc_healthy _ this, of ?s 1]
  ultimately show ?thesis using one by auto
qed

section \<open>What a listener knows\<close>

text \<open>The event a message to a listener tells.\<close>

definition msg_event :: "Value \<Rightarrow> DeviceEvent option" where
  "msg_event v =
     (case as_dictionary v of
        None \<Rightarrow> None
      | Some d \<Rightarrow>
          (case (map_of d ''MessageType'', map_of d ''DeviceID'') of
             (Some (String t), Some (Integer i)) \<Rightarrow>
               (if t = ''Attached'' then Some (Attached (word_of_int i))
                else if t = ''Detached'' then Some (Detached (word_of_int i)) else None)
           | _ \<Rightarrow> None))"

lemma msg_event_attached:
  assumes "device_attached env d = Ok v"
  shows "msg_event v = Some (Attached (device_id d))"
proof (cases d)
  case (Usb u)
  with assms show ?thesis
    by (cases "serial_number (info u) :: (RusbmuxError, bytes option) outcome";
        cases "product_id (info u) :: (RusbmuxError, u16) outcome")
      (auto simp: usb_create_device_attached_def Let_def msg_event_def int_u_def)
next
  case (Network n)
  with assms show ?thesis by (auto simp: network_create_device_attached_def msg_event_def int_u_def)
qed

lemma msg_event_detached:
  "msg_event (Dictionary [(''MessageType'', String ''Detached''), (''DeviceID'', int_u i)]) = Some (Detached i)"
  by (simp add: msg_event_def int_u_def)

lemma view_attached: "view (map Attached is) V = V \<union> set is"
  by (induction "is" arbitrary: V) auto

text \<open>An event that can still be told when it is taken from the channel.\<close>

definition tellable :: "daemon_env \<Rightarrow> DeviceEvent option \<times> world \<Rightarrow> bool" where
  "tellable env = (\<lambda>(ev, u). \<forall>i. ev = Some (Attached i) \<longrightarrow>
     (\<exists>d v. connected u i = Some d \<and> device_id d = i \<and> device_attached env d = Ok v))"

lemma listen_loop_tells:
  assumes "healthy svc" and "map fst evs = map Some es" and "\<forall>x \<in> set evs. tellable env x"
  shows "\<exists>vs s'. listen_loop svc env tag evs s = (None, s')
     \<and> sent s' = sent s @ map (\<lambda>v. response svc v tag) vs \<and> List.map_filter msg_event vs = es
     \<and> cl_receivers s' = cl_receivers s"
  using assms(2,3)
proof (induction evs arbitrary: es s)
  case Nil
  then show ?case by (intro exI [of _ "[]"] exI [of _ s]) (simp add: List.map_filter_def)
next
  case (Cons x evs)
  then obtain e u es' where x: "x = (Some e, u)" and es: "es = e # es'" "map fst evs = map Some es'"
    by (cases x; cases es) auto
  let ?s = "s\<lparr>cl_world := u\<rparr>"
  obtain v where v: "msg_event v = Some e"
    and step: "listen_loop svc env tag (x # evs) s = listen_loop svc env tag evs (?s\<lparr>sent := sent s @ [response svc v tag]\<rparr>)"
  proof (cases e)
    case (Attached i)
    with Cons.prems(2) x obtain d v where d: "connected u i = Some d" "device_id d = i" "device_attached env d = Ok v"
      by (auto simp: tellable_def)
    with assms(1) have "send_attached svc env tag d ?s = (Ok (), ?s\<lparr>sent := sent s @ [response svc v tag]\<rparr>)"
      by (simp add: send_attached_def)
    with that [of v] msg_event_attached [OF d(3)] d Attached x show thesis by simp
  next
    case (Detached i)
    with that msg_event_detached [of i] x assms(1) show thesis by simp
  qed
  let ?s1 = "?s\<lparr>sent := sent s @ [response svc v tag]\<rparr>"
  from Cons.IH [OF es(2), of ?s1] Cons.prems(2) obtain vs s' where
    "listen_loop svc env tag evs ?s1 = (None, s')" "sent s' = sent ?s1 @ map (\<lambda>v. response svc v tag) vs"
    "List.map_filter msg_event vs = es'" "cl_receivers s' = cl_receivers ?s1" by auto
  with step v es show ?case
    by (intro exI [of _ "v # vs"] exI [of _ s']) (simp add: List.map_filter_simps)
qed



text \<open>Shutting down reaches every device, whether or not an earlier one failed.\<close>

lemma cleanup_walk_connected:
  "distinct is \<Longrightarrow> connected (cleanup_walk env is w) k =
     (if k \<in> set is then map_option (\<lambda>d. snd (device_shutdown env d)) (connected w k) else connected w k)"
  by (induction "is" arbitrary: w) (auto split: option.splits)

lemma cleanup_shuts_down_all:
  assumes "env_law env" and "\<forall>m. distinct (env_walk env m)"
  shows "connected (cleanup env w) k = map_option (\<lambda>d. snd (device_shutdown env d)) (connected w k)"
  using assms cleanup_walk_connected [of "env_walk env (connected w)" env w k]
  by (cases "connected w k") (auto simp: cleanup_def env_law_def dom_def)

end
