(* ===== verification/Rusb_Io.thy ===== *)
theory Rusb_Io
  imports Usb_Device
begin

text \<open>
  Reading and writing through libusb: the transfers, the reader and the writer of
  \<^verbatim>\<open>src/usb_backend/rusb.rs\<close>, and the endpoints of either backend of
  \<^verbatim>\<open>src/usb_backend/mod.rs\<close>. What libusb answers when a transfer is allocated and submitted,
  what the receiver of a transfer answers when it is polled and which blocking writes fail are
  arguments. \<open>wr_out\<close> records the transfers that were handed to libusb.
\<close>

section \<open>Transfers\<close>

record BulkResult =
  br_status :: int
  br_data :: bytes

definition io_error_other :: "string \<Rightarrow> io_error" where
  "io_error_other m = IoError (OtherKind ''other'') m"

definition int_str :: "int \<Rightarrow> string" where
  "int_str i = (if i < 0 then ''-'' @ nat_str (nat (- i)) else nat_str (nat i))"

definition libusb_status_str :: "int \<Rightarrow> string" where
  "libusb_status_str st =
     (if st = -1 then ''LIBUSB_ERROR_IO''
      else if st = -2 then ''LIBUSB_ERROR_INVALID_PARAM''
      else if st = -3 then ''LIBUSB_ERROR_ACCESS''
      else if st = -4 then ''LIBUSB_ERROR_NO_DEVICE''
      else if st = -5 then ''LIBUSB_ERROR_NOT_FOUND''
      else if st = -6 then ''LIBUSB_ERROR_BUSY''
      else if st = -7 then ''LIBUSB_ERROR_TIMEOUT''
      else if st = -8 then ''LIBUSB_ERROR_OVERFLOW''
      else if st = -9 then ''LIBUSB_ERROR_PIPE''
      else if st = -10 then ''LIBUSB_ERROR_INTERRUPTED''
      else if st = -11 then ''LIBUSB_ERROR_NO_MEM''
      else if st = -12 then ''LIBUSB_ERROR_NOT_SUPPORTED''
      else ''LIBUSB_ERROR_UNKNOWN('' @ int_str st @ '')'')"

text \<open>The text of the only error a submission gives.\<close>

definition unexpected_str :: "string \<Rightarrow> string" where
  "unexpected_str m = error_str (UnexpectedPacket m)"

text \<open>
  \<open>alloc_and_submit\<close>: \<open>None\<close> when no transfer could be allocated, otherwise the code of the
  submission.
\<close>

definition alloc_and_submit :: "int option \<Rightarrow> string + unit" where
  "alloc_and_submit sub =
     (case sub of
        None \<Rightarrow> Inl ''libusb_alloc_transfer failed''
      | Some ret \<Rightarrow>
          (if ret \<noteq> 0 then Inl (''libusb_submit_transfer error: '' @ int_str ret) else Inr ()))"

text \<open>The answer of a poll of the receiver of a transfer; \<open>RxClosed\<close>: its sender is gone.\<close>

datatype rx_reply = RxPending | RxReady BulkResult | RxClosed

datatype 'a poll = Pending | Ready 'a

subsection \<open>The life of a transfer\<close>

text \<open>
  The callback runs on the event thread, the handle is dropped by the task that owns it; both run
  in small steps. libusb reports at most as many bytes as the buffer has. The flag \<open>cancel_stale\<close> is set when a transfer is cancelled that was already freed.
\<close>

datatype callback_pc = CbIdle | CbMarked | CbSent | CbDone
datatype drop_pc = Held | Checked | Dropped

record transfer =
  xf_buffer :: bytes
  xf_completed :: bool
  xf_result :: "BulkResult list"
  xf_frees :: nat
  xf_callback :: callback_pc
  xf_drop :: drop_pc
  cancel_stale :: bool

definition submitted :: "bytes \<Rightarrow> transfer" where
  "submitted b = \<lparr>xf_buffer = b, xf_completed = False, xf_result = [], xf_frees = 0,
     xf_callback = CbIdle, xf_drop = Held, cancel_stale = False\<rparr>"

definition callback_mark :: "transfer \<Rightarrow> transfer" where
  "callback_mark t = t\<lparr>xf_completed := True, xf_callback := CbMarked\<rparr>"

definition callback_send :: "int \<Rightarrow> int \<Rightarrow> transfer \<Rightarrow> transfer" where
  "callback_send st actual_length t =
     t\<lparr>xf_result := xf_result t @ [\<lparr>br_status = st, br_data = take (nat (max actual_length 0)) (xf_buffer t)\<rparr>],
       xf_callback := CbSent\<rparr>"

definition callback_free :: "transfer \<Rightarrow> transfer" where
  "callback_free t = t\<lparr>xf_frees := Suc (xf_frees t), xf_callback := CbDone\<rparr>"

definition drop_check :: "transfer \<Rightarrow> transfer" where
  "drop_check t = t\<lparr>xf_drop := (if xf_completed t then Dropped else Checked)\<rparr>"

definition drop_cancel :: "transfer \<Rightarrow> transfer" where
  "drop_cancel t = t\<lparr>xf_drop := Dropped, cancel_stale := (0 < xf_frees t)\<rparr>"

inductive transfer_step :: "transfer \<Rightarrow> transfer \<Rightarrow> bool" where
  mark: "xf_callback t = CbIdle \<Longrightarrow> transfer_step t (callback_mark t)"
| send: "xf_callback t = CbMarked \<Longrightarrow> actual_length \<le> int (length (xf_buffer t)) \<Longrightarrow>
     transfer_step t (callback_send st actual_length t)"
| free: "xf_callback t = CbSent \<Longrightarrow> transfer_step t (callback_free t)"
| check: "xf_drop t = Held \<Longrightarrow> transfer_step t (drop_check t)"
| cancel: "xf_drop t = Checked \<Longrightarrow> transfer_step t (drop_cancel t)"

section \<open>The reader\<close>

record RusbAsyncReader =
  rd_endpoint :: u8
  rd_buffer :: bytes
  rd_pos :: nat
  rd_pending :: bool

definition rusb_reader_new :: "u8 \<Rightarrow> RusbAsyncReader" where
  "rusb_reader_new ep = \<lparr>rd_endpoint = ep, rd_buffer = [], rd_pos = 0, rd_pending = False\<rparr>"

text \<open>The bytes put into a buffer with room for \<open>n\<close>, and what is kept of the chunk.\<close>

definition chunk_to_buf :: "bytes \<Rightarrow> nat \<Rightarrow> RusbAsyncReader \<Rightarrow> bytes \<times> RusbAsyncReader" where
  "chunk_to_buf chunk n r =
     (let to_copy = min (length chunk) n in
      (take to_copy chunk,
       if to_copy < length chunk then r\<lparr>rd_buffer := chunk, rd_pos := to_copy\<rparr>
       else r\<lparr>rd_buffer := [], rd_pos := 0\<rparr>))"

text \<open>
  \<open>sub\<close> answers a submission, \<open>reply\<close> a poll of the receiver. The status is looked at only when
  the transfer was already in flight. The second component is what the caller's buffer gets.
\<close>

definition poll_read ::
    "int option \<Rightarrow> rx_reply \<Rightarrow> nat \<Rightarrow> RusbAsyncReader \<Rightarrow> (io_error + unit) poll \<times> bytes \<times> RusbAsyncReader" where
  "poll_read sub reply n r =
     (if rd_pos r < length (rd_buffer r)
      then (let available = length (rd_buffer r) - rd_pos r;
                to_copy = min available n;
                p = rd_pos r + to_copy in
            (Ready (Inr ()), take to_copy (drop (rd_pos r) (rd_buffer r)),
             if p = length (rd_buffer r) then r\<lparr>rd_buffer := [], rd_pos := 0\<rparr> else r\<lparr>rd_pos := p\<rparr>))
      else if rd_pending r
      then (case reply of
              RxReady result \<Rightarrow>
                (if br_status result \<noteq> 0
                 then (Ready (Inl (io_error_other (''libusb read: '' @ libusb_status_str (br_status result)))), [],
                       r\<lparr>rd_pending := False\<rparr>)
                 else (case chunk_to_buf (br_data result) n r of
                         (out, r1) \<Rightarrow> (Ready (Inr ()), out, r1\<lparr>rd_pending := False\<rparr>)))
            | RxClosed \<Rightarrow> (Ready (Inl (io_error_other ''read transfer cancelled'')), [], r\<lparr>rd_pending := False\<rparr>)
            | RxPending \<Rightarrow> (Pending, [], r))
      else (case alloc_and_submit sub of
              Inl e \<Rightarrow> (Ready (Inl (io_error_other (unexpected_str e))), [], r)
            | Inr _ \<Rightarrow>
                (case reply of
                   RxReady result \<Rightarrow>
                     (case chunk_to_buf (br_data result) n r of
                        (out, r1) \<Rightarrow> (Ready (Inr ()), out, r1\<lparr>rd_pending := False\<rparr>))
                 | RxClosed \<Rightarrow> (Ready (Inl (io_error_other ''read transfer cancelled'')), [], r\<lparr>rd_pending := False\<rparr>)
                 | RxPending \<Rightarrow> (Pending, [], r\<lparr>rd_pending := True\<rparr>))))"

section \<open>The writer\<close>

record RusbAsyncWriter =
  wr_endpoint :: u8
  wr_max_packet_size :: nat
  wr_buffer :: bytes
  wr_current_len :: nat
  wr_pending :: bool
  wr_out :: "bytes list"

definition rusb_writer_new :: "u8 \<Rightarrow> u16 \<Rightarrow> RusbAsyncWriter" where
  "rusb_writer_new ep m = \<lparr>wr_endpoint = ep, wr_max_packet_size = unat m, wr_buffer = [], wr_current_len = 0,
     wr_pending = False, wr_out = []\<rparr>"

text \<open>A blocking write; \<open>bulk\<close> tells which of them fail.\<close>

definition write_bulk ::
    "(bytes list \<Rightarrow> bytes \<Rightarrow> string option) \<Rightarrow> bytes \<Rightarrow> RusbAsyncWriter \<Rightarrow> (RusbmuxError + unit) \<times> RusbAsyncWriter" where
  "write_bulk bulk data w =
     (case bulk (wr_out w) data of
        Some e \<Rightarrow> (Inl (RusbError e), w)
      | None \<Rightarrow> (Inr (), w\<lparr>wr_out := wr_out w @ [data]\<rparr>))"

definition sync_flush_and_zlp ::
    "(bytes list \<Rightarrow> bytes \<Rightarrow> string option) \<Rightarrow> RusbAsyncWriter \<Rightarrow> (RusbmuxError + unit) \<times> RusbAsyncWriter" where
  "sync_flush_and_zlp bulk w =
     try_then
       (if wr_buffer w \<noteq> []
        then write_bulk bulk (wr_buffer w)
               (w\<lparr>wr_buffer := [], wr_current_len := wr_current_len w + length (wr_buffer w)\<rparr>)
        else (Inr (), w))
       (\<lambda>_ w1. try_then
          (if wr_current_len w1 > 0 \<and> wr_max_packet_size w1 dvd wr_current_len w1
           then write_bulk bulk [] w1 else (Inr (), w1))
          (\<lambda>_ w2. (Inr (), w2\<lparr>wr_current_len := 0\<rparr>)))"

definition rusb_submit_end ::
    "(bytes list \<Rightarrow> bytes \<Rightarrow> string option) \<Rightarrow> RusbAsyncWriter \<Rightarrow> (RusbmuxError + unit) \<times> RusbAsyncWriter" where
  "rusb_submit_end bulk w = sync_flush_and_zlp bulk w"

text \<open>A transfer that has completed while a write waited is not cleared, and the write goes on waiting.\<close>

definition poll_write ::
    "int option \<Rightarrow> rx_reply \<Rightarrow> bytes \<Rightarrow> RusbAsyncWriter \<Rightarrow> (io_error + nat) poll \<times> RusbAsyncWriter" where
  "poll_write sub reply buf w =
     (if wr_pending w
      then (case reply of
              RxReady result \<Rightarrow>
                (if br_status result \<noteq> 0 then (Ready (Inl (io_error_other ''transfer failed'')), w)
                 else (Pending, w))
            | RxClosed \<Rightarrow> (Ready (Inl (io_error_other ''write transfer cancelled'')), w\<lparr>wr_pending := False\<rparr>)
            | RxPending \<Rightarrow> (Pending, w))
      else if buf = [] then (Ready (Inr 0), w)
      else (let filled = wr_buffer w @ buf in
            if length filled \<ge> MAX_PACKET_SIZE * 2
            then (let w1 = w\<lparr>wr_buffer := []\<rparr> in
                  case alloc_and_submit sub of
                    Inr _ \<Rightarrow>
                      (Pending, w1\<lparr>wr_current_len := wr_current_len w1 + length buf, wr_pending := True,
                                   wr_out := wr_out w1 @ [filled]\<rparr>)
                  | Inl e \<Rightarrow> (Ready (Inl (io_error_other (unexpected_str e))), w1))
            else (Ready (Inr (length buf)), w\<lparr>wr_buffer := filled\<rparr>)))"

text \<open>The end of a flush: the answer of the transfer in flight.\<close>

definition flush_reply :: "rx_reply \<Rightarrow> RusbAsyncWriter \<Rightarrow> (io_error + unit) poll \<times> RusbAsyncWriter" where
  "flush_reply reply w =
     (case reply of
        RxReady result \<Rightarrow>
          (if br_status result \<noteq> 0
           then (Ready (Inl (io_error_other (''libusb write: '' @ libusb_status_str (br_status result)))),
                 w\<lparr>wr_pending := False\<rparr>)
           else (Ready (Inr ()), w\<lparr>wr_pending := False\<rparr>))
      | RxClosed \<Rightarrow> (Ready (Inl (io_error_other ''write transfer cancelled'')), w\<lparr>wr_pending := False\<rparr>)
      | RxPending \<Rightarrow> (Pending, w))"

definition poll_flush ::
    "int option \<Rightarrow> rx_reply \<Rightarrow> RusbAsyncWriter \<Rightarrow> (io_error + unit) poll \<times> RusbAsyncWriter" where
  "poll_flush sub reply w =
     (if wr_pending w then flush_reply reply w
      else if wr_buffer w = [] then (Ready (Inr ()), w)
      else (let data = wr_buffer w; w1 = w\<lparr>wr_buffer := []\<rparr> in
            case alloc_and_submit sub of
              Inl e \<Rightarrow> (Ready (Inl (io_error_other (unexpected_str e))), w1)
            | Inr _ \<Rightarrow>
                flush_reply reply
                  (w1\<lparr>wr_current_len := wr_current_len w1 + length data, wr_pending := True,
                      wr_out := wr_out w1 @ [data]\<rparr>)))"

definition poll_shutdown ::
    "int option \<Rightarrow> rx_reply \<Rightarrow> RusbAsyncWriter \<Rightarrow> (io_error + unit) poll \<times> RusbAsyncWriter" where
  "poll_shutdown sub reply w = poll_flush sub reply w"

section \<open>Endpoints of either backend\<close>

text \<open>A device of \<open>nusb\<close> and its endpoints belong to that crate; they are known by their addresses.\<close>

datatype AnyDeviceHandle = NusbHandle nusb_device | RusbHandle u8 u8 u16
datatype AnyEndpointReader = NusbReader u8 | RusbReader RusbAsyncReader
datatype AnyEndpointWriter = NusbWriter u8 | RusbWriter RusbAsyncWriter

text \<open>What opening a device gives in the crates; for \<open>rusb\<close> with the answer to reading its descriptor.\<close>

record openers =
  op_nusb :: "nusb_info \<Rightarrow> string + nusb_device"
  op_rusb :: "rusb_device \<Rightarrow> string + rusb_handle"
  op_descriptor :: "rusb_device \<Rightarrow> string + unit"

fun any_open ::
    "target_os \<Rightarrow> openers \<Rightarrow> AnyDeviceInfo \<Rightarrow> (RusbmuxError + AnyDeviceHandle) \<times> usb_action list" where
  "any_open os ops (Nusb i) =
     (case op_nusb ops i of Inl e \<Rightarrow> (Inl (USB e), []) | Inr dev \<Rightarrow> (Inr (NusbHandle dev), []))"
| "any_open os ops (Rusb dev) =
     (case op_rusb ops dev of
        Inl e \<Rightarrow> (Inl (RusbError e), [])
      | Inr h \<Rightarrow>
          (case rusb_device_endpoints os (op_descriptor ops dev) h of
             (Inl e, acts) \<Rightarrow> (Inl e, acts)
           | (Inr (end_in, end_out, m), acts) \<Rightarrow> (Inr (RusbHandle end_in end_out m), acts)))"

fun any_endpoint ::
    "AnyDeviceHandle \<Rightarrow> (RusbmuxError + AnyEndpointReader \<times> AnyEndpointWriter) \<times> usb_action list" where
  "any_endpoint (NusbHandle dev) =
     (case nusb_device_endpoints dev of
        (Inl e, acts) \<Rightarrow> (Inl e, acts)
      | (Inr (end_in, end_out), acts) \<Rightarrow> (Inr (NusbReader end_in, NusbWriter end_out), acts))"
| "any_endpoint (RusbHandle end_in end_out m) =
     (Inr (RusbReader (rusb_reader_new end_in), RusbWriter (rusb_writer_new end_out m)), [])"

text \<open>
  The calls on an endpoint go to its backend; \<open>nusb\<close> is the answer of that crate. An error of
  \<open>submit_end\<close> is dropped.
\<close>

fun any_poll_read ::
    "((io_error + unit) poll \<times> bytes) \<Rightarrow> int option \<Rightarrow> rx_reply \<Rightarrow> nat \<Rightarrow> AnyEndpointReader
       \<Rightarrow> (io_error + unit) poll \<times> bytes \<times> AnyEndpointReader" where
  "any_poll_read nusb sub reply n (NusbReader a) = (fst nusb, snd nusb, NusbReader a)"
| "any_poll_read nusb sub reply n (RusbReader r) =
     (case poll_read sub reply n r of (p, out, r1) \<Rightarrow> (p, out, RusbReader r1))"

fun any_poll_write ::
    "(io_error + nat) poll \<Rightarrow> int option \<Rightarrow> rx_reply \<Rightarrow> bytes \<Rightarrow> AnyEndpointWriter
       \<Rightarrow> (io_error + nat) poll \<times> AnyEndpointWriter" where
  "any_poll_write nusb sub reply buf (NusbWriter a) = (nusb, NusbWriter a)"
| "any_poll_write nusb sub reply buf (RusbWriter w) = apsnd RusbWriter (poll_write sub reply buf w)"

fun any_poll_flush ::
    "(io_error + unit) poll \<Rightarrow> int option \<Rightarrow> rx_reply \<Rightarrow> AnyEndpointWriter
       \<Rightarrow> (io_error + unit) poll \<times> AnyEndpointWriter" where
  "any_poll_flush nusb sub reply (NusbWriter a) = (nusb, NusbWriter a)"
| "any_poll_flush nusb sub reply (RusbWriter w) = apsnd RusbWriter (poll_flush sub reply w)"

fun any_poll_shutdown ::
    "(io_error + unit) poll \<Rightarrow> int option \<Rightarrow> rx_reply \<Rightarrow> AnyEndpointWriter
       \<Rightarrow> (io_error + unit) poll \<times> AnyEndpointWriter" where
  "any_poll_shutdown nusb sub reply (NusbWriter a) = (nusb, NusbWriter a)"
| "any_poll_shutdown nusb sub reply (RusbWriter w) = apsnd RusbWriter (poll_shutdown sub reply w)"

fun any_submit_end :: "(bytes list \<Rightarrow> bytes \<Rightarrow> string option) \<Rightarrow> AnyEndpointWriter \<Rightarrow> AnyEndpointWriter" where
  "any_submit_end bulk (NusbWriter a) = NusbWriter a"
| "any_submit_end bulk (RusbWriter w) = RusbWriter (snd (rusb_submit_end bulk w))"

section \<open>Lemmas\<close>

text \<open>What the reader has and has not handed out, and when its fields fit together.\<close>

definition undelivered :: "RusbAsyncReader \<Rightarrow> bytes" where
  "undelivered r = drop (rd_pos r) (rd_buffer r)"

definition reader_wf :: "RusbAsyncReader \<Rightarrow> bool" where
  "reader_wf r \<longleftrightarrow> rd_pos r < length (rd_buffer r) \<or> rd_buffer r = [] \<and> rd_pos r = 0"

text \<open>The data a poll takes from a transfer.\<close>

definition arrived :: "int option \<Rightarrow> rx_reply \<Rightarrow> RusbAsyncReader \<Rightarrow> bytes" where
  "arrived sub reply r =
     (case reply of
        RxReady result \<Rightarrow>
          (if undelivered r \<noteq> [] \<or> (if rd_pending r then br_status result \<noteq> 0 else alloc_and_submit sub \<noteq> Inr ())
           then [] else br_data result)
      | _ \<Rightarrow> [])"

lemma undelivered_Nil: "undelivered r = [] \<longleftrightarrow> \<not> rd_pos r < length (rd_buffer r)"
  by (auto simp: undelivered_def)

lemma drop_split: "drop k xs = take n (drop k xs) @ drop (k + n) xs"
  by (metis append_take_drop_id drop_drop add.commute)

lemma pending_irrelevant [simp]:
  "undelivered (r\<lparr>rd_pending := b\<rparr>) = undelivered r"
  "reader_wf (r\<lparr>rd_pending := b\<rparr>) = reader_wf r"
  by (simp_all add: undelivered_def reader_wf_def)

lemma chunk_to_buf_splits:
  "chunk_to_buf c n r = (out, r') \<Longrightarrow>
     c = out @ undelivered r' \<and> reader_wf r' \<and> length out \<le> n \<and> (out = [] \<longrightarrow> n = 0 \<or> c = [])
       \<and> rd_endpoint r' = rd_endpoint r"
  by (auto simp: chunk_to_buf_def Let_def undelivered_def reader_wf_def split: if_splits)

lemma poll_read_step:
  assumes "poll_read sub reply n r = (p, out, r')" and "reader_wf r"
  shows "undelivered r @ arrived sub reply r = out @ undelivered r'"
    and "reader_wf r'" and "length out \<le> n"
    and "0 < n \<Longrightarrow> undelivered r @ arrived sub reply r \<noteq> [] \<Longrightarrow> p = Ready (Inr ()) \<and> out \<noteq> []"
    and "rd_endpoint r' = rd_endpoint r"
proof -
  have "undelivered r @ arrived sub reply r = out @ undelivered r' \<and> reader_wf r' \<and> length out \<le> n
     \<and> (0 < n \<and> undelivered r @ arrived sub reply r \<noteq> [] \<longrightarrow> p = Ready (Inr ()) \<and> out \<noteq> [])
     \<and> rd_endpoint r' = rd_endpoint r"
  proof (cases "rd_pos r < length (rd_buffer r)")
    case True
    then have "arrived sub reply r = []" by (simp add: arrived_def undelivered_def split: rx_reply.splits)
    with True assms show ?thesis
      by (auto simp: poll_read_def undelivered_def reader_wf_def Let_def min_def split: if_splits intro: drop_split)
  next
    case False
    then have none: "undelivered r = []" by (simp add: undelivered_def)
    with False assms show ?thesis
      by (cases reply; cases "rd_pending r"; cases "alloc_and_submit sub")
        (auto simp: poll_read_def arrived_def split: if_splits prod.splits dest!: chunk_to_buf_splits)
  qed
  then show "undelivered r @ arrived sub reply r = out @ undelivered r'"
    and "reader_wf r'" and "length out \<le> n"
    and "0 < n \<Longrightarrow> undelivered r @ arrived sub reply r \<noteq> [] \<Longrightarrow> p = Ready (Inr ()) \<and> out \<noteq> []"
    and "rd_endpoint r' = rd_endpoint r" by blast+
qed

text \<open>A sequence of polls, each with room for some bytes, and what the transfers brought meanwhile.\<close>

fun poll_reads :: "(int option \<times> rx_reply \<times> nat) list \<Rightarrow> RusbAsyncReader \<Rightarrow> bytes list \<times> RusbAsyncReader" where
  "poll_reads [] r = ([], r)"
| "poll_reads ((sub, reply, n) # ps) r =
     (case poll_read sub reply n r of (_, out, r1) \<Rightarrow> apfst (Cons out) (poll_reads ps r1))"

fun arrivals :: "(int option \<times> rx_reply \<times> nat) list \<Rightarrow> RusbAsyncReader \<Rightarrow> bytes" where
  "arrivals [] r = []"
| "arrivals ((sub, reply, n) # ps) r =
     arrived sub reply r @ arrivals ps (snd (snd (poll_read sub reply n r)))"

lemma poll_reads_stream:
  assumes "reader_wf r" and "poll_reads ps r = (outs, r')"
  shows "undelivered r @ arrivals ps r = concat outs @ undelivered r' \<and> reader_wf r'
     \<and> list_all2 (\<lambda>(sub, reply, n) out. length out \<le> n) ps outs \<and> rd_endpoint r' = rd_endpoint r"
  using assms
proof (induction ps r arbitrary: outs rule: poll_reads.induct)
  case (2 sub reply n ps r)
  obtain p out r1 where st: "poll_read sub reply n r = (p, out, r1)" by (metis prod_cases3)
  note step = poll_read_step [OF st 2(2)]
  obtain outs1 where rest: "poll_reads ps r1 = (outs1, r')" and outs: "outs = out # outs1"
    using 2(3) st by (auto simp: apfst_def map_prod_def split: prod.splits)
  have "undelivered r @ arrived sub reply r @ arrivals ps r1 = out @ undelivered r1 @ arrivals ps r1"
    using step(1) by (metis append_assoc)
  with 2(1) [OF st [symmetric] refl step(2) rest] step(3,5) st outs show ?case by simp
qed simp

section \<open>Transfers of the writer loop\<close>

text \<open>A call of the writer task on an endpoint of \<open>rusb\<close>, and a sequence of them.\<close>

fun rusb_act ::
    "int option \<Rightarrow> rx_reply \<Rightarrow> (bytes list \<Rightarrow> bytes \<Rightarrow> string option) \<Rightarrow> out_action \<Rightarrow> RusbAsyncWriter
       \<Rightarrow> bool \<times> RusbAsyncWriter" where
  "rusb_act sub reply bulk (Write b) w =
     (case poll_write sub reply b w of (p, w1) \<Rightarrow> (p = Ready (Inr (length b)), w1))"
| "rusb_act sub reply bulk Flush w =
     (case poll_flush sub reply w of (p, w1) \<Rightarrow> (p = Ready (Inr ()), w1))"
| "rusb_act sub reply bulk SubmitEnd w = (True, snd (rusb_submit_end bulk w))"

fun rusb_acts ::
    "int option \<Rightarrow> rx_reply \<Rightarrow> (bytes list \<Rightarrow> bytes \<Rightarrow> string option) \<Rightarrow> out_action list \<Rightarrow> RusbAsyncWriter
       \<Rightarrow> bool \<times> RusbAsyncWriter" where
  "rusb_acts sub reply bulk [] w = (True, w)"
| "rusb_acts sub reply bulk (a # as) w =
     (case rusb_act sub reply bulk a w of
        (True, w1) \<Rightarrow> rusb_acts sub reply bulk as w1
      | (False, w1) \<Rightarrow> (False, w1))"

text \<open>The transfers one packet should become: itself, and an empty one when it fills its last USB packet.\<close>

definition packet_transfers :: "nat \<Rightarrow> bytes \<Rightarrow> bytes list" where
  "packet_transfers m b = (if m dvd length b then [b, []] else [b])"

definition writer_idle :: "RusbAsyncWriter \<Rightarrow> bool" where
  "writer_idle w \<longleftrightarrow> wr_buffer w = [] \<and> wr_current_len w = 0 \<and> \<not> wr_pending w"

lemma rusb_acts_append:
  "rusb_acts sub reply bulk as w = (True, w1) \<Longrightarrow>
     rusb_acts sub reply bulk (as @ bs) w = rusb_acts sub reply bulk bs w1"
  by (induction as arbitrary: w) (auto split: prod.splits bool.splits)

lemma rusb_writes_buffer:
  assumes "\<not> wr_pending w" and "length (wr_buffer w) + length (concat bs) < MAX_PACKET_SIZE * 2"
  shows "rusb_acts sub reply bulk (map Write bs) w = (True, w\<lparr>wr_buffer := wr_buffer w @ concat bs\<rparr>)"
  using assms
proof (induction bs arbitrary: w)
  case (Cons b bs)
  let ?w1 = "w\<lparr>wr_buffer := wr_buffer w @ b\<rparr>"
  have "poll_write sub reply b w = (Ready (Inr (length b)), ?w1)"
    using Cons.prems by (cases "b = []") (simp_all add: poll_write_def Let_def)
  with Cons.IH [of ?w1] Cons.prems show ?case by simp
qed simp

lemma submit_end_transfers:
  assumes "wr_buffer w = b" and "b \<noteq> []" and "wr_current_len w = 0" and "\<forall>h d. bulk h d = None"
  shows "snd (rusb_submit_end bulk w) =
     w\<lparr>wr_buffer := [], wr_current_len := 0, wr_out := wr_out w @ packet_transfers (wr_max_packet_size w) b\<rparr>"
  using assms
  by (simp add: rusb_submit_end_def sync_flush_and_zlp_def write_bulk_def packet_transfers_def)

lemma rusb_packet_transfers:
  assumes "writer_idle w" and "concat bs \<noteq> []" and "length (concat bs) < MAX_PACKET_SIZE * 2"
    and "\<forall>h d. bulk h d = None"
  shows "rusb_acts sub reply bulk (map Write bs @ [SubmitEnd]) w =
     (True, w\<lparr>wr_out := wr_out w @ packet_transfers (wr_max_packet_size w) (concat bs)\<rparr>)"
proof -
  have w: "wr_buffer w = []" "wr_current_len w = 0" "\<not> wr_pending w" using assms(1) by (simp_all add: writer_idle_def)
  let ?w1 = "w\<lparr>wr_buffer := concat bs\<rparr>"
  have "rusb_acts sub reply bulk (map Write bs) w = (True, ?w1)"
    using rusb_writes_buffer [of w bs sub reply bulk] w assms(3) by simp
  from rusb_acts_append [OF this, of "[SubmitEnd]"]
    submit_end_transfers [of ?w1 "concat bs" bulk] w assms(2,4)
  show ?thesis by simp
qed

text \<open>The writer task writes a packet in pieces and ends each with a submission.\<close>

lemma write_all_shape:
  assumes "\<forall>l a. env l a = None"
  shows "\<exists>bs. write_all env b log = (Inr (), log @ map Write bs)"
  using assms by (auto simp: write_all_def do_out_def intro: exI [of _ "[]"] exI [of _ "[b]"])

lemma write_headers_shape:
  assumes "\<forall>l a. env l a = None" and "write_headers ops env p log = (Ok u, log')"
  shows "\<exists>bs. log' = log @ map Write bs"
proof -
  have "\<exists>bs. log'' = log @ map Write bs" if "write_all env b log = (Inr v, log'')" for b log'' v
    using write_all_shape [OF assms(1), of b log] that by auto
  with assms(2) show ?thesis
    by (auto simp: write_headers_def Let_def split: UsbDevicePacketHeader.splits option.splits if_splits
        prod.splits sum.splits)
qed

lemma written_writes [simp]: "written (map Write bs @ [SubmitEnd]) = concat bs"
  by (induction bs) auto

lemma write_packet_shape:
  assumes "tcp_laws ops" and "wf_packet p" and "no_options p" and "\<forall>l a. env l a = None"
    and "stamp p d = (p', d')"
  obtains bs where "write_packet ops env p d log = (True, d', log @ map Write bs @ [SubmitEnd])"
    "concat bs = encode ops p'"
proof -
  obtain l where l: "write_packet ops env p d log = (True, d', log @ l)" "written l = encode ops p'"
    using write_packet_ok [OF assms] by blast
  note st = stamp_wf [OF assms(5,2,3)]
  obtain l1 where h: "write_headers ops env p' log = (Ok (), log @ l1)"
    using write_headers_ok [OF assms(1) st(1,2) assms(4)] by blast
  from write_headers_shape [OF assms(4) h] obtain b1 where b1: "l1 = map Write b1" by auto
  obtain b2 where "write_all env (payload_encode (payload p')) (log @ l1) = (Inr (), (log @ l1) @ map Write b2)"
    using write_all_shape [OF assms(4)] by blast
  with h b1 assms(4,5) have w: "write_packet ops env p d log = (True, d', log @ map Write (b1 @ b2) @ [SubmitEnd])"
    by (simp add: write_packet_def do_out_def)
  with l have "concat (b1 @ b2) = encode ops p'" by (metis (no_types) Pair_inject same_append_eq written_writes)
  with w that show ?thesis by blast
qed

lemma packet_size_pos [simp]: "0 < packet_size p"
  by (cases "header p") (simp_all add: packet_size_def)

lemma rusb_writer_loop:
  assumes "tcp_laws ops" and "\<forall>l a. env l a = None" and "\<forall>h b. bulk h b = None"
    and "list_all (\<lambda>p. wf_packet p \<and> no_options p \<and> packet_size p < MAX_PACKET_SIZE * 2) ps" and "writer_idle w"
  shows "\<exists>d' l. writer_loop ops env ps d log = (True, d', log @ l)
     \<and> rusb_acts sub reply bulk l w = (True, w\<lparr>wr_out := wr_out w @
         concat (map (\<lambda>p. packet_transfers (wr_max_packet_size w) (encode ops p)) (stamped (send_seq d) (recv_seq d) ps))\<rparr>)"
  using assms(4,5)
proof (induction ps arbitrary: d log w)
  case (Cons p ps)
  obtain p' d1 where st: "stamp p d = (p', d1)" by fastforce
  have p: "wf_packet p" "no_options p" "packet_size p < MAX_PACKET_SIZE * 2" using Cons.prems by auto
  obtain bs where bs: "write_packet ops env p d log = (True, d1, log @ map Write bs @ [SubmitEnd])"
    "concat bs = encode ops p'"
    using write_packet_shape [OF assms(1) p(1,2) assms(2) st] by blast
  have "packet_size p' = packet_size p" using st
    by (auto simp: stamp_def take_send_seq_def packet_size_def split: UsbDevicePacketHeader.splits)
  with p bs(2) stamp_wf(1) [OF st p(1,2)] have len: "0 < length (concat bs)" "length (concat bs) < MAX_PACKET_SIZE * 2"
    by (simp_all add: length_encode [OF assms(1)] wf_packet_def)
  let ?w1 = "w\<lparr>wr_out := wr_out w @ packet_transfers (wr_max_packet_size w) (encode ops p')\<rparr>"
  have one: "rusb_acts sub reply bulk (map Write bs @ [SubmitEnd]) w = (True, ?w1)"
    using rusb_packet_transfers [OF Cons.prems(2) _ len(2) assms(3)] len(1) bs(2) by simp
  have "writer_idle ?w1" using Cons.prems(2) by (simp add: writer_idle_def)
  with Cons.IH [of ?w1 d1 "log @ map Write bs @ [SubmitEnd]"] Cons.prems(1) obtain d' l where
    "writer_loop ops env ps d1 (log @ map Write bs @ [SubmitEnd]) = (True, d', (log @ map Write bs @ [SubmitEnd]) @ l)"
    "rusb_acts sub reply bulk l ?w1 = (True, ?w1\<lparr>wr_out := wr_out ?w1 @
         concat (map (\<lambda>p. packet_transfers (wr_max_packet_size w) (encode ops p)) (stamped (send_seq d1) (recv_seq d1) ps))\<rparr>)"
    by auto
  with bs(1) rusb_acts_append [OF one, of l] show ?case
    by (intro exI [of _ d'] exI [of _ "map Write bs @ [SubmitEnd] @ l"])
      (simp add: stamped_Cons [OF st] del: stamped.simps)
qed simp

section \<open>The invariant of a transfer\<close>

definition transfer_inv :: "bytes \<Rightarrow> transfer \<Rightarrow> bool" where
  "transfer_inv b t \<longleftrightarrow> xf_buffer t = b
     \<and> xf_frees t = (if xf_callback t = CbDone then 1 else 0)
     \<and> (xf_completed t \<longleftrightarrow> xf_callback t \<noteq> CbIdle)
     \<and> (if xf_callback t = CbIdle \<or> xf_callback t = CbMarked then xf_result t = []
        else \<exists>st n. n \<le> length b \<and> xf_result t = [\<lparr>br_status = st, br_data = take n b\<rparr>])"

lemma sent_prefix: "n \<le> int (length b) \<Longrightarrow> \<exists>m \<le> length b. take (nat (max n 0)) b = take m b"
  by (intro exI [of _ "nat (max n 0)"]) auto

lemma transfer_step_inv: "transfer_inv b t \<Longrightarrow> transfer_step t t' \<Longrightarrow> transfer_inv b t'"
  by (erule transfer_step.cases)
    (auto simp: transfer_inv_def callback_mark_def callback_send_def callback_free_def drop_check_def
      drop_cancel_def intro: sent_prefix split: if_splits)

interpretation transfers: machine "\<lambda>t. t = submitted b" transfer_step "transfer_inv b" for b
  by unfold_locales (simp add: transfer_inv_def submitted_def, rule transfer_step_inv)

lemmas transfer_step_defs =
  callback_mark_def callback_send_def callback_free_def drop_check_def drop_cancel_def submitted_def

text \<open>The check, the whole callback, then the cancellation.\<close>

lemma cancel_race: "\<exists>t. transfer_step\<^sup>*\<^sup>* (submitted b) t \<and> cancel_stale t"
proof -
  let ?t1 = "drop_check (submitted b)"
  let ?t2 = "callback_mark ?t1"
  let ?t3 = "callback_send 0 0 ?t2"
  let ?t4 = "callback_free ?t3"
  have "transfer_step (submitted b) ?t1" by (intro transfer_step.check) (simp add: submitted_def)
  moreover have "transfer_step ?t1 ?t2" by (intro transfer_step.mark) (simp add: transfer_step_defs)
  moreover have "transfer_step ?t2 ?t3" by (intro transfer_step.send) (simp_all add: transfer_step_defs)
  moreover have "transfer_step ?t3 ?t4" by (intro transfer_step.free) (simp add: transfer_step_defs)
  moreover have "transfer_step ?t4 (drop_cancel ?t4)" by (intro transfer_step.cancel) (simp add: transfer_step_defs)
  ultimately have "transfer_step\<^sup>*\<^sup>* (submitted b) (drop_cancel ?t4)"
    by (meson converse_rtranclp_into_rtranclp r_into_rtranclp)
  then show ?thesis by (intro exI [of _ "drop_cancel ?t4"]) (simp add: transfer_step_defs)
qed

section \<open>Waiting writes\<close>

text \<open>
  A write that fills the buffer up to the threshold hands it over and waits; while the transfer is
  noted as in flight no poll of a write succeeds or changes anything, whatever the receiver
  answers, unless its sender is gone. Only a flush clears the note.
\<close>

lemma full_write_waits:
  assumes "\<not> wr_pending w" and "buf \<noteq> []" and "MAX_PACKET_SIZE * 2 \<le> length (wr_buffer w @ buf)"
  shows "\<exists>w1. poll_write (Some 0) reply buf w = (Pending, w1) \<and> wr_out w1 = wr_out w @ [wr_buffer w @ buf]
     \<and> (\<forall>sub reply' b. reply' \<noteq> RxClosed \<longrightarrow>
          snd (poll_write sub reply' b w1) = w1 \<and> (\<forall>n. fst (poll_write sub reply' b w1) \<noteq> Ready (Inr n)))"
  using assms by (auto simp: poll_write_def alloc_and_submit_def split: rx_reply.splits)

section \<open>Properties\<close>

text \<open>
  C32. The reader delivers the stream: over any sequence of polls with any room in the caller's
  buffer, what callers got, followed by what is still buffered, is exactly the data of the
  transfers that were taken, in order; no poll overfills its buffer, and while bytes are buffered
  a poll with room delivers some of them at once and asks for no transfer.
\<close>
theorem rusb_reader_stream:
  assumes "poll_reads ps (rusb_reader_new ep) = (outs, r)"
  shows "arrivals ps (rusb_reader_new ep) = concat outs @ undelivered r
     \<and> list_all2 (\<lambda>(sub, reply, n) out. length out \<le> n) ps outs
     \<and> (\<forall>sub reply n. 0 < n \<and> undelivered r \<noteq> [] \<longrightarrow>
          (\<exists>out r'. poll_read sub reply n r = (Ready (Inr ()), out, r') \<and> out \<noteq> []
             \<and> undelivered r = out @ undelivered r' \<and> rd_pending r' = rd_pending r))"
proof -
  have "reader_wf (rusb_reader_new ep)" and "undelivered (rusb_reader_new ep) = []"
    by (simp_all add: rusb_reader_new_def reader_wf_def undelivered_def)
  with poll_reads_stream [OF _ assms] have run: "arrivals ps (rusb_reader_new ep) = concat outs @ undelivered r"
    "list_all2 (\<lambda>(sub, reply, n) out. length out \<le> n) ps outs" and wf: "reader_wf r" by auto
  have "\<exists>out r'. poll_read sub reply n r = (Ready (Inr ()), out, r') \<and> out \<noteq> []
      \<and> undelivered r = out @ undelivered r' \<and> rd_pending r' = rd_pending r"
    if n: "0 < n" "undelivered r \<noteq> []" for sub reply n
  proof -
    obtain p out r' where st: "poll_read sub reply n r = (p, out, r')" by (metis prod_cases3)
    have "arrived sub reply r = []" using n(2) by (simp add: arrived_def split: rx_reply.splits)
    moreover have "rd_pending r' = rd_pending r"
      using st n(2) by (auto simp: poll_read_def undelivered_Nil Let_def split: if_splits)
    ultimately show ?thesis using poll_read_step(1,4) [OF st wf] n st by auto
  qed
  with run show ?thesis by blast
qed

theorem rusb_reader_stream_witness:
  "\<exists>outs r. poll_reads [(Some 0, RxPending, 2), (None, RxReady \<lparr>br_status = 0, br_data = [1, 2, 3]\<rparr>, 2), (None, RxPending, 5)]
        (rusb_reader_new 0x85) = (outs, r)
     \<and> concat outs @ undelivered r = [1, 2, 3] \<and> outs = [[], [1, 2], [3]]"
proof -
  let ?ps = "[(Some 0, RxPending, 2), (None, RxReady \<lparr>br_status = 0, br_data = [1, 2, 3]\<rparr>, 2), (None, RxPending, 5)]"
  obtain outs r where st: "poll_reads ?ps (rusb_reader_new 0x85) = (outs, r)" by fastforce
  have "arrivals ?ps (rusb_reader_new 0x85) = [1, 2, 3]"
    by (simp add: arrived_def undelivered_def rusb_reader_new_def poll_read_def alloc_and_submit_def chunk_to_buf_def Let_def)
  with rusb_reader_stream [OF st] have "concat outs @ undelivered r = [1, 2, 3]" by simp
  moreover have "outs = [[], [1, 2], [3]]" using st
    by (simp add: rusb_reader_new_def poll_read_def alloc_and_submit_def chunk_to_buf_def Let_def)
  ultimately show ?thesis using st by blast
qed

text \<open>
  C13. One packet is one USB transfer: the calls the writer task makes for a queue of packets, on a
  writer of \<open>rusb\<close> that was idle, all complete at once, and libusb is handed the encoding of each
  packet as one transfer, in order, followed by an empty one exactly when the packet ends on the
  boundary of a USB packet, where the device could not see its end; the writer is idle again.
\<close>
theorem rusb_one_transfer_per_packet:
  assumes "tcp_laws ops" and "\<forall>l a. env l a = None" and "\<forall>h b. bulk h b = None"
    and "list_all (\<lambda>p. wf_packet p \<and> no_options p \<and> packet_size p < MAX_PACKET_SIZE * 2) ps" and "writer_idle w"
    and "writer_loop ops env ps d [] = (ok, d', log)" and "rusb_acts sub reply bulk log w = (ok', w')"
  shows "ok \<and> ok' \<and> writer_idle w'
     \<and> wr_out w' = wr_out w @ concat (map (\<lambda>p. if wr_max_packet_size w dvd packet_size p
         then [encode ops p, []] else [encode ops p]) (stamped (send_seq d) (recv_seq d) ps))"
proof -
  let ?ps = "stamped (send_seq d) (recv_seq d) ps"
  from rusb_writer_loop [OF assms(1-5), of d "[]" sub reply] assms(6,7)
  have w: "ok" "ok'" "w' = w\<lparr>wr_out := wr_out w @ concat (map (\<lambda>p. packet_transfers (wr_max_packet_size w) (encode ops p)) ?ps)\<rparr>"
    by auto
  have "list_all (\<lambda>p. wf_packet p \<and> no_options p) ?ps"
    using assms(4) by (intro stamped_wf) (auto simp: list_all_iff)
  then have "map (\<lambda>p. packet_transfers (wr_max_packet_size w) (encode ops p)) ?ps =
      map (\<lambda>p. if wr_max_packet_size w dvd packet_size p then [encode ops p, []] else [encode ops p]) ?ps"
    by (auto simp: list_all_iff packet_transfers_def length_encode [OF assms(1)] wf_packet_def)
  with w assms(5) show ?thesis by (simp add: writer_idle_def)
qed

theorem rusb_one_transfer_per_packet_witness:
  "\<exists>log d' w'. writer_loop rfc_ops (\<lambda>_ _. None) [sample_packet] sample_device [] = (True, d', log)
     \<and> rusb_acts (Some 0) RxPending (\<lambda>_ _. None) log (rusb_writer_new 4 512) = (True, w')
     \<and> wr_out w' = map (encode rfc_ops) (stamped (send_seq sample_device) (recv_seq sample_device) [sample_packet])"
proof -
  obtain ok d' log where l: "writer_loop rfc_ops (\<lambda>_ _. None) [sample_packet] sample_device [] = (ok, d', log)"
    by (metis prod_cases3)
  obtain ok' w' where a: "rusb_acts (Some 0) RxPending (\<lambda>_ _. None) log (rusb_writer_new 4 512) = (ok', w')" by fastforce
  let ?ps = "stamped (send_seq sample_device) (recv_seq sample_device) [sample_packet]"
  have n: "packet_size sample_packet = 39" and m: "map packet_size ?ps = [39]"
    by (simp_all add: sample_packet_def packet_new_def v2_new_def packet_size_def options_len_def sample_options)
  have idle: "writer_idle (rusb_writer_new 4 512)" by (simp add: writer_idle_def rusb_writer_new_def)
  have "list_all (\<lambda>p. wf_packet p \<and> no_options p \<and> packet_size p < MAX_PACKET_SIZE * 2) [sample_packet]"
    by (simp add: wf_sample_packet n MAX_PACKET_SIZE_def)
  from rusb_one_transfer_per_packet [OF rfc_ops_laws _ _ this idle l a]
  have r: "ok" "ok'" "wr_out w' = concat (map (\<lambda>p. if 512 dvd packet_size p then [encode rfc_ops p, []]
      else [encode rfc_ops p]) ?ps)"
    by (simp_all add: rusb_writer_new_def del: stamped.simps)
  obtain p where "?ps = [p]" "packet_size p = 39" using m by (cases ?ps) auto
  with r l a show ?thesis by simp
qed

text \<open>
  C33. A transfer is answered and freed once: however the callback on the event thread and the end
  of the task that waits for it interleave, its memory is freed at most once and not before its
  result was sent, and the result holds a prefix of its buffer. But the end of the task may see
  the transfer as running, and cancel it after the callback has freed it.
\<close>
theorem transfer_freed_once:
  assumes "transfer_step\<^sup>*\<^sup>* (submitted b) t"
  shows "xf_frees t \<le> 1
     \<and> (xf_frees t = 1 \<longrightarrow> (\<exists>st n. n \<le> length b \<and> xf_result t = [\<lparr>br_status = st, br_data = take n b\<rparr>]))
     \<and> length (xf_result t) \<le> 1
     \<and> (\<exists>t'. transfer_step\<^sup>*\<^sup>* (submitted b) t' \<and> cancel_stale t')"
proof -
  have "transfer_inv b t" using transfers.reach_inv [of _ b] assms by blast
  then have "xf_frees t \<le> 1" "length (xf_result t) \<le> 1"
    "xf_frees t = 1 \<longrightarrow> (\<exists>st n. n \<le> length b \<and> xf_result t = [\<lparr>br_status = st, br_data = take n b\<rparr>])"
    by (auto simp: transfer_inv_def split: if_splits)
  with cancel_race show ?thesis by blast
qed

theorem transfer_freed_once_witness:
  "xf_frees (callback_mark (submitted [1, 2])) \<le> 1 \<and> (\<exists>t. transfer_step\<^sup>*\<^sup>* (submitted [1, 2]) t \<and> cancel_stale t)"
proof -
  have "transfer_step\<^sup>*\<^sup>* (submitted [1, 2]) (callback_mark (submitted [1, 2]))"
    by (intro r_into_rtranclp transfer_step.mark) (simp add: submitted_def)
  from transfer_freed_once [OF this] show ?thesis by blast
qed


definition sample_handle :: rusb_handle where
  "sample_handle = \<lparr>config_descriptors = [Inr (4, [[sample_alt]])], r_active_configuration = Some 4,
     set_active_error = (\<lambda>_. None), r_claim_error = (\<lambda>_. None)\<rparr>"

definition sample_openers :: openers where
  "sample_openers = \<lparr>op_nusb = (\<lambda>_. Inl ''none''), op_rusb = (\<lambda>_. Inr sample_handle), op_descriptor = (\<lambda>_. Inr ())\<rparr>"


end
