(* ===== verification/Daemon.thy ===== *)
theory Daemon
  imports Listening
begin

text \<open>
  Starting and stopping the daemon: \<^verbatim>\<open>src/daemon.rs\<close>. What the system answers to each step of the
  start is an argument; so are the connections it accepts, the signals it delivers and the device
  table at the time the daemon is told to stop.
\<close>

section \<open>Startup\<close>

fun LISTENER_PATH :: "target_os \<Rightarrow> string" where
  "LISTENER_PATH Windows = ''127.0.0.1:27015''"
| "LISTENER_PATH os = ''/var/run/usbmuxd''"

text \<open>
  The answers of \<open>launchd\<close> (a code and the number of sockets) and of the two calls that make a
  listener of its socket.
\<close>

record launchd =
  la_ret :: int
  la_count :: nat
  la_nonblocking :: "io_error option"
  la_from_std :: "io_error option"

definition launchd_listener :: "launchd \<Rightarrow> RusbmuxError + bool" where
  "launchd_listener la =
     (if la_ret la \<noteq> 0 \<or> la_count la = 0 then Inr False
      else case la_nonblocking la of
             Some e \<Rightarrow> Inl (IO e)
           | None \<Rightarrow> (case la_from_std la of Some e \<Rightarrow> Inl (IO e) | None \<Rightarrow> Inr True))"

datatype daemon_signal = SigTerm | CtrlShutdown | CtrlBreak | CtrlClose | CtrlLogoff

text \<open>\<open>None\<close>: the call succeeds.\<close>

record startup =
  st_os :: target_os
  st_exists :: bool
  st_remove :: "io_error option"
  st_launchd :: launchd
  st_bind :: "io_error option"
  st_reuseaddr :: "io_error option"
  st_nosigpipe :: "io_error option"
  st_permissions :: "io_error option"
  st_signal :: "daemon_signal \<Rightarrow> bool"

datatype daemon_action =
    RemoveSocket string
  | BindSocket string
  | LaunchdSocket
  | LockdownDir
  | ReuseAddr
  | Nosigpipe
  | SetPermissions string
  | SpawnUsbWatcher
  | SpawnNetworkWatcher

definition get_listener :: "startup \<Rightarrow> (RusbmuxError + unit) \<times> daemon_action list" where
  "get_listener st =
     (let bind = (case st_bind st of
                    Some e \<Rightarrow> (Inl (IO e), [])
                  | None \<Rightarrow> (Inr (), [BindSocket (LISTENER_PATH (st_os st))]))
      in if st_os st = MacOS
         then (case launchd_listener (st_launchd st) of
                 Inl e \<Rightarrow> (Inl e, [])
               | Inr True \<Rightarrow> (Inr (), [LaunchdSocket])
               | Inr False \<Rightarrow> bind)
         else bind)"

text \<open>A step whose error is only logged.\<close>

definition attempt :: "daemon_action \<Rightarrow> 'e option \<Rightarrow> daemon_action list" where
  "attempt a err = (case err of None \<Rightarrow> [a] | Some _ \<Rightarrow> [])"

section \<open>Stopping\<close>

text \<open>
  \<open>wait_shutdown\<close> returns when one of the signals it waits for arrives, but also at once when one of
  them could not be registered.
\<close>

fun awaited :: "target_os \<Rightarrow> daemon_signal list" where
  "awaited Windows = [CtrlShutdown, CtrlBreak, CtrlClose, CtrlLogoff]"
| "awaited os = [SigTerm]"

definition wait_shutdown :: "target_os \<Rightarrow> (daemon_signal \<Rightarrow> bool) \<Rightarrow> daemon_signal list \<Rightarrow> bool" where
  "wait_shutdown os registered arrived \<longleftrightarrow>
     \<not> list_all registered (awaited os) \<or> list_ex (\<lambda>sg. sg \<in> set (awaited os)) arrived"

text \<open>Each accepted connection gets a task; a failed accept is only logged.\<close>

fun start_accepting :: "(io_error + 'c) list \<Rightarrow> 'c list" where
  "start_accepting [] = []"
| "start_accepting (Inr socket # rest) = socket # start_accepting rest"
| "start_accepting (Inl e # rest) = start_accepting rest"

section \<open>The daemon\<close>

text \<open>Everything up to the point where the daemon serves its clients.\<close>

definition prepare :: "service \<Rightarrow> startup \<Rightarrow> (RusbmuxError + unit) \<times> daemon_action list" where
  "prepare svc st =
     (let path = LISTENER_PATH (st_os st);
          unix = (st_os st \<noteq> Windows);
          removed = (if unix \<and> st_exists st then attempt (RemoveSocket path) (st_remove st) else [])
      in case get_listener st of
           (Inl e, acts) \<Rightarrow> (Inl e, removed @ acts)
         | (Inr _, acts) \<Rightarrow>
             (Inr (), removed @ acts
                @ (case create_lockdown_dir svc of Inl e \<Rightarrow> [] | Inr _ \<Rightarrow> [LockdownDir])
                @ (if unix then attempt ReuseAddr (st_reuseaddr st) else [])
                @ (if st_os st = MacOS then attempt Nosigpipe (st_nosigpipe st) else [])
                @ (if unix then attempt (SetPermissions path) (st_permissions st) else [])
                @ [SpawnUsbWatcher, SpawnNetworkWatcher]))"

text \<open>
  \<open>ctrl_c\<close> tells whether that future is ready, which it also is when the handler could not be set
  up. Accepting never ends by itself. \<open>None\<close>: the daemon is serving; \<open>w\<close> is the table when it stops.
\<close>

definition daemon_run ::
    "service \<Rightarrow> daemon_env \<Rightarrow> startup \<Rightarrow> bool \<Rightarrow> daemon_signal list \<Rightarrow> world
       \<Rightarrow> (RusbmuxError + unit) option \<times> daemon_action list \<times> world" where
  "daemon_run svc env st ctrl_c arrived w =
     (case prepare svc st of
        (Inl e, acts) \<Rightarrow> (Some (Inl e), acts, w)
      | (Inr _, acts) \<Rightarrow>
          (if ctrl_c \<or> wait_shutdown (st_os st) (st_signal st) arrived
           then (Some (Inr ()), acts, cleanup env w)
           else (None, acts, w)))"

section \<open>Lemmas\<close>

lemma get_listener_acts:
  "get_listener st = (res, acts) \<Longrightarrow> set acts \<inter> {SpawnUsbWatcher, SpawnNetworkWatcher} = {}
     \<and> (res = Inr () \<longrightarrow> acts = [LaunchdSocket] \<or> acts = [BindSocket (LISTENER_PATH (st_os st))])"
  by (auto simp: get_listener_def Let_def split: if_splits option.splits sum.splits bool.splits)

lemma start_accepting_all: "start_accepting xs = List.map_filter (\<lambda>x. case x of Inl _ \<Rightarrow> None | Inr c \<Rightarrow> Some c) xs"
  by (induction xs rule: start_accepting.induct) (simp_all add: List.map_filter_simps)

lemma wait_shutdown_iff:
  "wait_shutdown os reg sgs \<longleftrightarrow> (\<exists>sg \<in> set (awaited os). sg \<in> set sgs \<or> \<not> reg sg)"
  by (auto simp: wait_shutdown_def list_all_iff list_ex_iff)

abbreviation no_spawn :: "daemon_action list \<Rightarrow> bool" where
  "no_spawn acts \<equiv> set acts \<inter> {SpawnUsbWatcher, SpawnNetworkWatcher} = {}"

lemma attempt_no_spawn: "no_spawn [a] \<Longrightarrow> no_spawn (attempt a err)"
  by (simp add: attempt_def split: option.split)

lemma prepare_fails:
  assumes "get_listener st = (Inl e, l)"
  shows "\<exists>acts. prepare svc st = (Inl e, acts) \<and> no_spawn acts"
  using get_listener_acts [OF assms] attempt_no_spawn [of "RemoveSocket (LISTENER_PATH (st_os st))" "st_remove st"]
  by (auto simp: prepare_def Let_def assms)

lemma prepare_succeeds:
  assumes "get_listener st = (Inr u, l)"
  shows "\<exists>pre sock mid. prepare svc st = (Inr (), pre @ sock # mid @ [SpawnUsbWatcher, SpawnNetworkWatcher])
     \<and> (sock = LaunchdSocket \<or> sock = BindSocket (LISTENER_PATH (st_os st))) \<and> no_spawn (pre @ mid)"
proof -
  let ?path = "LISTENER_PATH (st_os st)"
  let ?pre = "if st_os st \<noteq> Windows \<and> st_exists st then attempt (RemoveSocket ?path) (st_remove st) else []"
  let ?mid = "(case create_lockdown_dir svc of Inl e \<Rightarrow> [] | Inr _ \<Rightarrow> [LockdownDir])
    @ (if st_os st \<noteq> Windows then attempt ReuseAddr (st_reuseaddr st) else [])
    @ (if st_os st = MacOS then attempt Nosigpipe (st_nosigpipe st) else [])
    @ (if st_os st \<noteq> Windows then attempt (SetPermissions ?path) (st_permissions st) else [])"
  from get_listener_acts [OF assms] obtain sock where sock: "l = [sock]"
    "sock = LaunchdSocket \<or> sock = BindSocket ?path" by auto
  have "no_spawn (?pre @ ?mid)"
    using attempt_no_spawn [of "RemoveSocket ?path" "st_remove st"] attempt_no_spawn [of ReuseAddr "st_reuseaddr st"]
      attempt_no_spawn [of Nosigpipe "st_nosigpipe st"] attempt_no_spawn [of "SetPermissions ?path" "st_permissions st"]
    by (auto split: sum.splits if_splits)
  moreover have "prepare svc st = (Inr (), ?pre @ sock # ?mid @ [SpawnUsbWatcher, SpawnNetworkWatcher])"
    by (simp add: prepare_def Let_def assms sock(1))
  ultimately show ?thesis using sock(2) by blast
qed

section \<open>Properties\<close>

text \<open>
  C39. The daemon starts unless it has no socket: it fails exactly when no listener could be made,
  with that error, and then nothing was spawned; every other step of the start may fail without
  stopping it, and both watchers are spawned last, once each, behind the socket. When it is told
  to stop, every device of the table is shut down, also behind one whose shutdown fails. A signal
  that cannot be registered counts as one that has arrived.
\<close>
theorem daemon_starts_and_stops:
  assumes "env_law env" and "\<forall>m. distinct (env_walk env m)"
    and "daemon_run svc env st ctrl_c sgs w = (res, acts, w')"
  shows "(\<forall>e. res = Some (Inl e) \<longleftrightarrow> fst (get_listener st) = Inl e)
     \<and> (\<forall>e. res = Some (Inl e) \<longrightarrow> w' = w \<and> set acts \<inter> {SpawnUsbWatcher, SpawnNetworkWatcher} = {})
     \<and> ((\<exists>u. fst (get_listener st) = Inr u) \<longrightarrow>
          (\<exists>pre sock mid. acts = pre @ sock # mid @ [SpawnUsbWatcher, SpawnNetworkWatcher]
             \<and> (sock = LaunchdSocket \<or> sock = BindSocket (LISTENER_PATH (st_os st)))
             \<and> set (pre @ mid) \<inter> {SpawnUsbWatcher, SpawnNetworkWatcher} = {})
          \<and> (res = Some (Inr ()) \<longleftrightarrow> ctrl_c \<or> (\<exists>sg \<in> set (awaited (st_os st)). sg \<in> set sgs \<or> \<not> st_signal st sg)))
     \<and> (res = Some (Inr ()) \<longrightarrow>
          connected w' = map_option (\<lambda>d. snd (device_shutdown env d)) \<circ> connected w)"
proof (cases "fst (get_listener st)")
  case (Inl e)
  with prepare_fails obtain pacts where "prepare svc st = (Inl e, pacts)" "no_spawn pacts" by (metis prod.collapse)
  with Inl assms(3) show ?thesis by (auto simp: daemon_run_def)
next
  case (Inr u)
  with prepare_succeeds obtain pre sock mid where
    p: "prepare svc st = (Inr (), pre @ sock # mid @ [SpawnUsbWatcher, SpawnNetworkWatcher])"
    and s: "sock = LaunchdSocket \<or> sock = BindSocket (LISTENER_PATH (st_os st))" "no_spawn (pre @ mid)"
    by (metis prod.collapse)
  have a: "acts = pre @ sock # mid @ [SpawnUsbWatcher, SpawnNetworkWatcher]"
    and ends: "res = Some (Inr ()) \<longleftrightarrow> ctrl_c \<or> wait_shutdown (st_os st) (st_signal st) sgs"
    and ok: "\<forall>e. res \<noteq> Some (Inl e)" and w: "res = Some (Inr ()) \<longrightarrow> w' = cleanup env w"
    using assms(3) p by (auto simp: daemon_run_def split: if_splits)
  have "connected (cleanup env w) = map_option (\<lambda>d. snd (device_shutdown env d)) \<circ> connected w"
    using cleanup_shuts_down_all [OF assms(1,2)] by (simp add: fun_eq_iff)
  moreover have "\<exists>pre sock mid. acts = pre @ sock # mid @ [SpawnUsbWatcher, SpawnNetworkWatcher]
      \<and> (sock = LaunchdSocket \<or> sock = BindSocket (LISTENER_PATH (st_os st))) \<and> no_spawn (pre @ mid)"
    using a s by blast
  ultimately show ?thesis using Inr ends ok w by (simp add: wait_shutdown_iff)
qed

definition sample_startup :: startup where
  "sample_startup = \<lparr>st_os = Linux, st_exists = True, st_remove = None,
     st_launchd = \<lparr>la_ret = 0, la_count = 0, la_nonblocking = None, la_from_std = None\<rparr>, st_bind = None,
     st_reuseaddr = None, st_nosigpipe = None, st_permissions = Some (IoError PermissionDenied ''denied''),
     st_signal = (\<lambda>_. True)\<rparr>"

lemma distinct_words: "n \<le> 2 ^ LENGTH('a) \<Longrightarrow> distinct (map (word_of_nat :: nat \<Rightarrow> 'a::len word) [0..<n])"
  unfolding distinct_map
  by (intro conjI distinct_upt inj_on_inverseI [where g = unat]) (simp add: unsigned_of_nat take_bit_nat_eq_self)

theorem daemon_starts_and_stops_witness:
  "\<exists>acts w'. daemon_run sample_svc sample_env sample_startup False [SigTerm] sample_added = (Some (Inr ()), acts, w')
     \<and> acts = [RemoveSocket ''/var/run/usbmuxd'', BindSocket ''/var/run/usbmuxd'', LockdownDir, ReuseAddr,
          SpawnUsbWatcher, SpawnNetworkWatcher]
     \<and> connected w' = map_option (\<lambda>d. snd (device_shutdown sample_env d)) \<circ> connected sample_added"
proof -
  obtain res acts w' where r: "daemon_run sample_svc sample_env sample_startup False [SigTerm] sample_added = (res, acts, w')"
    by (metis prod_cases3)
  have a: "acts = [RemoveSocket ''/var/run/usbmuxd'', BindSocket ''/var/run/usbmuxd'', LockdownDir, ReuseAddr,
      SpawnUsbWatcher, SpawnNetworkWatcher]" and res: "res = Some (Inr ())"
    using r by (auto simp: daemon_run_def prepare_def get_listener_def sample_startup_def attempt_def Let_def
        wait_shutdown_def create_lockdown_dir_def sample_svc_def)
  have "distinct (env_walk sample_env m)" for m
    unfolding sample_env_def daemon_env.simps by (intro distinct_filter distinct_words) simp
  then have "\<forall>m. distinct (env_walk sample_env m)" by blast
  from daemon_starts_and_stops [OF sample_env_law this r] a res r show ?thesis by simp
qed

end
