(* ===== verification/Driver_Setup.thy ===== *)
theory Driver_Setup
  imports Prelude
begin

text \<open>
  The driver tool for Windows: \<^verbatim>\<open>uninstall.rs\<close> and \<^verbatim>\<open>main.rs\<close> of
  \<^verbatim>\<open>windows/rusbmux-usb-win-driver\<close>. The tool runs \<open>pnputil\<close> and reads its output; what each run of
  it answers may depend on all the runs before, and is a parameter, and so are the answers of the
  installer library. The output is the decoded text, with white space of the ASCII kind.
\<close>

section \<open>Text\<close>

definition is_ws :: "char \<Rightarrow> bool" where
  "is_ws c \<longleftrightarrow> (let n = (of_char c :: nat) in 9 \<le> n \<and> n \<le> 13 \<or> n = 32)"

definition trim :: "string \<Rightarrow> string" where
  "trim s = rev (dropWhile is_ws (rev (dropWhile is_ws s)))"

definition chomp :: "string \<Rightarrow> string" where
  "chomp l = (if l \<noteq> [] \<and> last l = CHR 0x0D then butlast l else l)"

text \<open>
  \<open>str::lines\<close>: the text between line feeds, without the carriage return before the line feed; a
  line feed at the end does not start another line.
\<close>

fun lines_from :: "string \<Rightarrow> string \<Rightarrow> string list" where
  "lines_from acc [] = (if acc = [] then [] else [rev acc])"
| "lines_from acc (c # cs) =
     (if c = CHR 0x0A then chomp (rev acc) # lines_from [] cs else lines_from (c # acc) cs)"

definition str_lines :: "string \<Rightarrow> string list" where
  "str_lines s = lines_from [] s"

fun strip_prefix :: "string \<Rightarrow> string \<Rightarrow> string option" where
  "strip_prefix [] s = Some s"
| "strip_prefix (c # cs) [] = None"
| "strip_prefix (c # cs) (d # ds) = (if c = d then strip_prefix cs ds else None)"

section \<open>The devices pnputil lists\<close>

record pnp_block =
  instance_id :: "string option"
  device_desc :: "string option"
  manufacturer :: "string option"
  driver_name :: "string option"

definition empty_block :: pnp_block where
  "empty_block = \<lparr>instance_id = None, device_desc = None, manufacturer = None, driver_name = None\<rparr>"

definition read_field :: "string \<Rightarrow> pnp_block \<Rightarrow> pnp_block" where
  "read_field trimmed b =
     (case strip_prefix ''Instance ID:'' trimmed of
        Some v \<Rightarrow> b\<lparr>instance_id := Some (trim v)\<rparr>
      | None \<Rightarrow>
     (case strip_prefix ''Device Description:'' trimmed of
        Some v \<Rightarrow> b\<lparr>device_desc := Some (trim v)\<rparr>
      | None \<Rightarrow>
     (case strip_prefix ''Manufacturer Name:'' trimmed of
        Some v \<Rightarrow> b\<lparr>manufacturer := Some (trim v)\<rparr>
      | None \<Rightarrow>
     (case strip_prefix ''Driver Name:'' trimmed of
        Some v \<Rightarrow> b\<lparr>driver_name := Some (trim v)\<rparr>
      | None \<Rightarrow> b))))"

text \<open>The lines up to a blank one, which is taken too, or up to the end.\<close>

fun read_block :: "string list \<Rightarrow> pnp_block \<Rightarrow> pnp_block \<times> string list" where
  "read_block [] b = (b, [])"
| "read_block (l # ls) b = (if trim l = [] then (b, ls) else read_block ls (read_field (trim l) b))"

fun skip_blank :: "string list \<Rightarrow> string list" where
  "skip_blank [] = []"
| "skip_blank (l # ls) = (if trim l = [] then skip_blank ls else l # ls)"

definition is_apple :: "pnp_block \<Rightarrow> bool" where
  "is_apple b \<longleftrightarrow>
     (case instance_id b of None \<Rightarrow> False | Some i \<Rightarrow> str_contains i ''VID_05AC'')
     \<or> (case device_desc b of None \<Rightarrow> False
        | Some d \<Rightarrow> str_contains d ''iPhone'' \<or> str_contains d ''iPad'' \<or> str_contains d ''iPod'' \<or> str_contains d ''Apple'')
     \<or> (case manufacturer b of None \<Rightarrow> False | Some m \<Rightarrow> str_contains m ''Apple'')"

text \<open>The driver of a block, when it is one to remove.\<close>

definition block_entity :: "pnp_block \<Rightarrow> string option" where
  "block_entity b =
     (case (driver_name b, manufacturer b) of
        (Some drv, Some prov) \<Rightarrow>
          (if is_apple b \<and> \<not> str_contains prov ''Microsoft'' \<and> \<not> str_contains drv ''wpdmtp'' then Some drv else None)
      | _ \<Rightarrow> None)"

lemma length_read_block: "length (snd (read_block ls b)) \<le> length ls"
  by (induction ls b rule: read_block.induct) auto

lemma length_skip_blank: "length (skip_blank ls) \<le> length ls"
  by (induction ls) auto

lemma skip_blank_head: "skip_blank ls = l # ls' \<Longrightarrow> trim l \<noteq> []"
  by (induction ls) (auto split: if_splits)

lemma parse_progress:
  assumes "skip_blank ls = l # ls'" and "read_block (l # ls') b = (b', rest)"
  shows "length rest < length ls"
proof -
  have "rest = snd (read_block ls' (read_field (trim l) b))" using skip_blank_head [OF assms(1)] assms(2) by simp
  then have "length rest \<le> length ls'" using length_read_block by simp
  with length_skip_blank [of ls] assms(1) show ?thesis by simp
qed

function parse_entities :: "string list \<Rightarrow> string list" where
  "parse_entities ls =
     (case skip_blank ls of
        [] \<Rightarrow> []
      | l # ls' \<Rightarrow>
          (case read_block (l # ls') empty_block of
             (b, rest) \<Rightarrow>
               (case block_entity b of
                  None \<Rightarrow> parse_entities rest
                | Some drv \<Rightarrow> drv # parse_entities rest)))"
  by pat_completeness auto
termination
  by (relation "measure length") (auto dest: parse_progress [OF _ sym] simp del: read_block.simps)

declare parse_entities.simps [simp del]

section \<open>Removing drivers\<close>

datatype pnp_call = EnumDevices | DeleteDriver string | ScanDevices

text \<open>
  What a run of \<open>pnputil\<close> answers: whether it could be started, and its output, its error output
  and whether it ended with success. It may depend on the runs before.
\<close>

record pnp_output =
  pnp_stdout :: string
  pnp_stderr :: string
  pnp_success :: bool

type_synonym pnputil = "pnp_call list \<Rightarrow> pnp_call \<Rightarrow> pnp_output option"

definition find_apple_devices :: "pnputil \<Rightarrow> pnp_call list \<Rightarrow> (int + string list) \<times> pnp_call list" where
  "find_apple_devices run log =
     (case run log EnumDevices of
        None \<Rightarrow> (Inl 67, log @ [EnumDevices])
      | Some out \<Rightarrow> (Inr (parse_entities (str_lines (pnp_stdout out))), log @ [EnumDevices]))"

definition remove_driver :: "pnputil \<Rightarrow> string \<Rightarrow> pnp_call list \<Rightarrow> (int + unit) \<times> pnp_call list" where
  "remove_driver run inf_name log =
     (case run log (DeleteDriver inf_name) of
        None \<Rightarrow> (Inl 677, log @ [DeleteDriver inf_name])
      | Some out \<Rightarrow>
          (if pnp_stderr out \<noteq> [] then (Inl 677, log @ [DeleteDriver inf_name])
           else (Inr (), log @ [DeleteDriver inf_name])))"

definition rescan :: "pnputil \<Rightarrow> pnp_call list \<Rightarrow> (int + unit) \<times> pnp_call list" where
  "rescan run log =
     (case run log ScanDevices of
        None \<Rightarrow> (Inl 667, log @ [ScanDevices])
      | Some out \<Rightarrow> (if \<not> pnp_success out then Inl 667 else Inr (), log @ [ScanDevices]))"

fun remove_drivers :: "pnputil \<Rightarrow> string list \<Rightarrow> pnp_call list \<Rightarrow> (int + unit) \<times> pnp_call list" where
  "remove_drivers run [] log = (Inr (), log)"
| "remove_drivers run (d # ds) log = try_then (remove_driver run d log) (\<lambda>_. remove_drivers run ds)"

primrec uninstall_rounds :: "pnputil \<Rightarrow> nat \<Rightarrow> pnp_call list \<Rightarrow> (int + unit) \<times> pnp_call list" where
  "uninstall_rounds run 0 log = (Inr (), log)"
| "uninstall_rounds run (Suc n) log =
     try_then (find_apple_devices run log) (\<lambda>devices log1.
       if devices = [] then (Inr (), log1)
       else try_then (remove_drivers run devices log1) (\<lambda>_ log2.
              try_then (rescan run log2) (\<lambda>_. uninstall_rounds run n)))"

definition uninstall_any_apple_driver :: "pnputil \<Rightarrow> u8 \<Rightarrow> pnp_call list \<Rightarrow> (int + unit) \<times> pnp_call list" where
  "uninstall_any_apple_driver run rescans log = uninstall_rounds run (unat rescans) log"

section \<open>Installing the driver\<close>

definition APPLE_PID_FIRST :: u16 where "APPLE_PID_FIRST = 0x1290"
definition APPLE_PID_LAST :: u16 where "APPLE_PID_LAST = 0x12af"

record Args =
  arg_clean :: bool
  arg_wait :: bool
  arg_install :: bool
  arg_rescans :: u8

record wdi_device =
  wdi_vid :: u16
  wdi_pid :: u16
  wdi_composite :: bool

text \<open>What the tool did: runs of \<open>pnputil\<close>, the device a driver was installed for, waiting for the user.\<close>

record setup_trace =
  tr_calls :: "pnp_call list"
  tr_installed :: "wdi_device list"
  tr_waited :: bool

definition wanted_device :: "wdi_device \<Rightarrow> bool" where
  "wanted_device dev \<longleftrightarrow> wdi_vid dev = 0x5ac \<and> APPLE_PID_FIRST \<le> wdi_pid dev \<and> wdi_pid dev \<le> APPLE_PID_LAST
     \<and> \<not> wdi_composite dev"

text \<open>The exit code. \<open>listed\<close> is what the installer library lists, \<open>install\<close> whether installing succeeds.\<close>

definition setup_main ::
    "pnputil \<Rightarrow> (wdi_device list) option \<Rightarrow> (wdi_device \<Rightarrow> bool) \<Rightarrow> Args \<Rightarrow> int \<times> setup_trace" where
  "setup_main run listed install args =
     (let (cleaned, calls) = (if arg_clean args then uninstall_any_apple_driver run (arg_rescans args) [] else (Inr (), []));
          tr = \<lparr>tr_calls = calls, tr_installed = [], tr_waited = False\<rparr>;
          leave = (\<lambda>code tr'. (code, tr'\<lparr>tr_waited := arg_wait args\<rparr>))
      in case cleaned of
           Inl code \<Rightarrow> (code, tr)
         | Inr _ \<Rightarrow>
             if \<not> arg_install args then (0, tr)
             else (case listed of
                     None \<Rightarrow> leave (-667) tr
                   | Some devices \<Rightarrow>
                       (case find wanted_device devices of
                          None \<Rightarrow> leave (-677) tr
                        | Some device \<Rightarrow>
                            if install device then leave 0 (tr\<lparr>tr_installed := [device]\<rparr>)
                            else leave (-67) tr)))"

section \<open>Lemmas\<close>

text \<open>
  The reference: a line is blank or not, the blocks are the runs of lines that are not blank, and a
  field of a block is the value of the last line that starts with its name.
\<close>

function blocks :: "string list \<Rightarrow> string list list" where
  "blocks [] = []"
| "blocks (l # ls) =
     (if trim l = [] then blocks ls
      else (l # takeWhile (\<lambda>x. trim x \<noteq> []) ls) # blocks (dropWhile (\<lambda>x. trim x \<noteq> []) ls))"
  by pat_completeness auto
termination
  by (relation "measure length") (auto simp: length_dropWhile_le le_imp_less_Suc)

definition field_of :: "string \<Rightarrow> string list \<Rightarrow> string option" where
  "field_of key ls =
     (let ms = filter (\<lambda>l. strip_prefix key (trim l) \<noteq> None) ls in
      if ms = [] then None else map_option trim (strip_prefix key (trim (last ms))))"

definition block_of :: "string list \<Rightarrow> pnp_block" where
  "block_of ls = \<lparr>instance_id = field_of ''Instance ID:'' ls, device_desc = field_of ''Device Description:'' ls,
     manufacturer = field_of ''Manufacturer Name:'' ls, driver_name = field_of ''Driver Name:'' ls\<rparr>"

lemma strip_prefix_iff: "strip_prefix k t = Some v \<longleftrightarrow> t = k @ v"
  by (induction k t rule: strip_prefix.induct) auto

lemma field_of_snoc:
  "field_of key (ls @ [l]) =
     (case strip_prefix key (trim l) of None \<Rightarrow> field_of key ls | Some v \<Rightarrow> Some (trim v))"
  by (simp add: field_of_def Let_def split: option.splits)

lemma block_of_snoc: "block_of (ls @ [l]) = read_field (trim l) (block_of ls)"
proof (cases "strip_prefix ''Instance ID:'' (trim l)"; cases "strip_prefix ''Device Description:'' (trim l)";
    cases "strip_prefix ''Manufacturer Name:'' (trim l)"; cases "strip_prefix ''Driver Name:'' (trim l)")
qed (auto simp: block_of_def field_of_snoc read_field_def dest!: iffD1 [OF strip_prefix_iff])

lemma block_of_foldl: "foldl (\<lambda>b l. read_field (trim l) b) empty_block ls = block_of ls"
  by (induction ls rule: rev_induct) (simp_all add: block_of_snoc, simp add: block_of_def field_of_def empty_block_def)

lemma read_block_eq:
  "read_block ls b = (foldl (\<lambda>b l. read_field (trim l) b) b (takeWhile (\<lambda>x. trim x \<noteq> []) ls),
     tl (dropWhile (\<lambda>x. trim x \<noteq> []) ls))"
  by (induction ls b rule: read_block.induct) auto

lemma blocks_skip: "blocks (skip_blank ls) = blocks ls"
  by (induction ls) auto

lemma blocks_tl_drop:
  "blocks (tl (dropWhile (\<lambda>x. trim x \<noteq> []) ls)) = blocks (dropWhile (\<lambda>x. trim x \<noteq> []) ls)"
  by (induction ls) auto

lemma parse_entities_blocks: "parse_entities ls = List.map_filter (\<lambda>blk. block_entity (block_of blk)) (blocks ls)"
proof (induction ls rule: parse_entities.induct)
  case (1 ls)
  show ?case
  proof (cases "skip_blank ls")
    case Nil
    then have "blocks ls = []" using blocks_skip [of ls] by simp
    with Nil show ?thesis by (simp add: parse_entities.simps [of ls] List.map_filter_def)
  next
    case (Cons l ls')
    let ?run = "takeWhile (\<lambda>x. trim x \<noteq> []) (l # ls')" and ?rest = "tl (dropWhile (\<lambda>x. trim x \<noteq> []) (l # ls'))"
    have l: "trim l \<noteq> []" by (rule skip_blank_head [OF Cons])
    have rb: "read_block (l # ls') empty_block = (block_of ?run, ?rest)"
      by (simp only: read_block_eq block_of_foldl)
    have bl: "blocks ls = ?run # blocks ?rest"
      using l blocks_skip [of ls] blocks_tl_drop [of "l # ls'"] by (simp add: Cons)
    have IH: "parse_entities ?rest = List.map_filter (\<lambda>blk. block_entity (block_of blk)) (blocks ?rest)"
      using 1 [OF Cons rb [symmetric]] by (cases "block_entity (block_of ?run)") auto
    show ?thesis
      using Cons rb IH bl l by (simp add: parse_entities.simps [of ls] List.map_filter_simps split: option.splits del: read_block.simps)
  qed
qed

text \<open>A deletion is justified by an enumeration before it that lists the driver in an unwanted block.\<close>

definition named_in :: "pnputil \<Rightarrow> pnp_call list \<Rightarrow> string \<Rightarrow> bool" where
  "named_in run log drv \<longleftrightarrow>
     (\<exists>p q out blk. log = p @ EnumDevices # q \<and> run p EnumDevices = Some out
        \<and> blk \<in> set (blocks (str_lines (pnp_stdout out))) \<and> block_entity (block_of blk) = Some drv)"

definition justified :: "pnputil \<Rightarrow> pnp_call list \<Rightarrow> bool" where
  "justified run log \<longleftrightarrow> (\<forall>pre drv post. log = pre @ DeleteDriver drv # post \<longrightarrow> named_in run pre drv)"

abbreviation enums :: "pnp_call list \<Rightarrow> nat" where
  "enums log \<equiv> length (filter (\<lambda>c. c = EnumDevices) log)"

lemma named_in_append: "named_in run log drv \<Longrightarrow> named_in run (log @ cs) drv"
  unfolding named_in_def by (metis append.assoc append_Cons)

lemma justified_snoc:
  "justified run (log @ [c]) \<longleftrightarrow> justified run log \<and> (\<forall>drv. c = DeleteDriver drv \<longrightarrow> named_in run log drv)"
proof
  assume j: "justified run (log @ [c])"
  have "named_in run pre drv" if "log = pre @ DeleteDriver drv # post" for pre drv post
    using j that by (auto simp: justified_def)
  with j show "justified run log \<and> (\<forall>drv. c = DeleteDriver drv \<longrightarrow> named_in run log drv)"
    by (auto simp: justified_def)
next
  assume "justified run log \<and> (\<forall>drv. c = DeleteDriver drv \<longrightarrow> named_in run log drv)"
  then show "justified run (log @ [c])"
    by (auto simp: justified_def append_eq_append_conv2 append_eq_Cons_conv Cons_eq_append_conv)
qed

lemma justified_Nil [simp]: "justified run []"
  by (simp add: justified_def)

lemma remove_drivers_log:
  "\<exists>l. snd (remove_drivers run ds log) = log @ map DeleteDriver l \<and> set l \<subseteq> set ds"
proof (induction ds arbitrary: log)
  case (Cons d ds)
  have "snd (remove_driver run d log) = log @ [DeleteDriver d]"
    by (simp add: remove_driver_def split: option.split)
  then obtain res where r: "remove_driver run d log = (res, log @ [DeleteDriver d])" by (metis prod.collapse)
  show ?case
  proof (cases res)
    case (Inl e)
    with r show ?thesis by (intro exI [of _ "[d]"]) simp
  next
    case (Inr u)
    from Cons.IH [of "log @ [DeleteDriver d]"] obtain l where
      "snd (remove_drivers run ds (log @ [DeleteDriver d])) = (log @ [DeleteDriver d]) @ map DeleteDriver l" "set l \<subseteq> set ds" by blast
    with r Inr show ?thesis by (intro exI [of _ "d # l"]) auto
  qed
qed simp

lemma justified_deletes:
  "justified run log \<Longrightarrow> \<forall>drv \<in> set l. named_in run log drv \<Longrightarrow> justified run (log @ map DeleteDriver l)"
proof (induction l rule: rev_induct)
  case (snoc x l)
  then have "justified run ((log @ map DeleteDriver l) @ [DeleteDriver x])"
    by (subst justified_snoc) (auto intro: named_in_append)
  then show ?case by simp
qed simp

lemma found_named:
  assumes "find_apple_devices run log = (Inr ds, log1)" and "drv \<in> set ds"
  shows "named_in run log1 drv"
  using assms
  by (fastforce simp: find_apple_devices_def named_in_def parse_entities_blocks List.map_filter_def split: option.splits)

lemma uninstall_rounds_log:
  assumes "justified run log" and "uninstall_rounds run n log = (res, log')"
  shows "justified run log' \<and> enums log' \<le> enums log + n
     \<and> (res = Inr () \<longrightarrow> enums log' = enums log + n
          \<or> (\<exists>p out. log' = p @ [EnumDevices] \<and> run p EnumDevices = Some out \<and> parse_entities (str_lines (pnp_stdout out)) = []))"
  using assms
proof (induction n arbitrary: log)
  case (Suc n)
  obtain found log1 where f: "find_apple_devices run log = (found, log1)" by fastforce
  then have log1: "log1 = log @ [EnumDevices]" by (auto simp: find_apple_devices_def split: option.splits)
  have j1: "justified run log1" using Suc.prems(1) log1 by (simp add: justified_snoc)
  show ?case
  proof (cases found)
    case (Inl e)
    with Suc.prems(2) f j1 log1 show ?thesis by auto
  next
    case (Inr ds)
    show ?thesis
    proof (cases "ds = []")
      case True
      with Inr Suc.prems(2) f have "res = Inr ()" "log' = log1" by auto
      with f Inr True j1 log1 show ?thesis by (auto simp: find_apple_devices_def split: option.splits)
    next
      case False
      obtain r2 log2 where d: "remove_drivers run ds log1 = (r2, log2)" by fastforce
      with remove_drivers_log [of run ds log1] obtain l where l: "log2 = log1 @ map DeleteDriver l" "set l \<subseteq> set ds" by auto
      have j2: "justified run log2" "enums log2 = Suc (enums log)"
        using justified_deletes [OF j1, of l] found_named [of run log ds log1] f Inr l log1 by (auto simp: filter_map)
      obtain r3 log3 where s: "rescan run log2 = (r3, log3)" by fastforce
      then have "log3 = log2 @ [ScanDevices]" by (auto simp: rescan_def split: option.splits)
      with j2 have j3: "justified run log3" "enums log3 = Suc (enums log)" by (simp_all add: justified_snoc)
      show ?thesis
        using Suc.prems(2) f Inr False d s j2 j3 Suc.IH [OF j3(1), of] by (cases r2; cases r3) auto
    qed
  qed
qed simp

section \<open>Properties\<close>

text \<open>
  The parser of the device list reads blocks: what it returns is what the reference reads,
  the drivers of the unwanted blocks in order, where a block is a run of lines that are not blank
  and a field is the value of the last line of the block that starts with its name; no line is
  read twice or skipped, whatever blank lines surround the blocks.
\<close>
theorem find_apple_devices_blocks:
  "fst (find_apple_devices run log) =
     (case run log EnumDevices of
        None \<Rightarrow> Inl 67
      | Some out \<Rightarrow> Inr (List.map_filter (\<lambda>blk. block_entity (block_of blk)) (blocks (str_lines (pnp_stdout out)))))"
  by (simp add: find_apple_devices_def parse_entities_blocks split: option.split)

text \<open>
  C40. The drivers of Windows are spared: every driver that is deleted was listed before, in a block
  that belongs to an Apple device, with a manufacturer other than Microsoft and not as the driver
  for portable devices. There are at most as many rounds as asked for, and when the tool reports
  success either the last listing had nothing to remove or all rounds were used.
\<close>
theorem uninstall_spares_windows:
  assumes "uninstall_any_apple_driver run rescans [] = (res, log)"
  shows "(\<forall>pre drv post. log = pre @ DeleteDriver drv # post \<longrightarrow>
       (\<exists>p q out blk prov. pre = p @ EnumDevices # q \<and> run p EnumDevices = Some out
          \<and> blk \<in> set (blocks (str_lines (pnp_stdout out))) \<and> is_apple (block_of blk)
          \<and> field_of ''Driver Name:'' blk = Some drv \<and> field_of ''Manufacturer Name:'' blk = Some prov
          \<and> \<not> str_contains prov ''Microsoft'' \<and> \<not> str_contains drv ''wpdmtp''))
     \<and> enums log \<le> unat rescans
     \<and> (res = Inr () \<longrightarrow> enums log = unat rescans
          \<or> (\<exists>p out. log = p @ [EnumDevices] \<and> run p EnumDevices = Some out
               \<and> parse_entities (str_lines (pnp_stdout out)) = []))"
proof -
  have r: "uninstall_rounds run (unat rescans) [] = (res, log)" using assms by (simp add: uninstall_any_apple_driver_def)
  note all = uninstall_rounds_log [OF justified_Nil r]
  have "\<exists>p q out blk prov. pre = p @ EnumDevices # q \<and> run p EnumDevices = Some out
      \<and> blk \<in> set (blocks (str_lines (pnp_stdout out))) \<and> is_apple (block_of blk)
      \<and> field_of ''Driver Name:'' blk = Some drv \<and> field_of ''Manufacturer Name:'' blk = Some prov
      \<and> \<not> str_contains prov ''Microsoft'' \<and> \<not> str_contains drv ''wpdmtp''"
    if "log = pre @ DeleteDriver drv # post" for pre drv post
  proof -
    from all that have "named_in run pre drv" by (auto simp: justified_def)
    then obtain p q out blk where b: "pre = p @ EnumDevices # q" "run p EnumDevices = Some out"
      "blk \<in> set (blocks (str_lines (pnp_stdout out)))" "block_entity (block_of blk) = Some drv"
      unfolding named_in_def by blast
    then obtain prov where "field_of ''Manufacturer Name:'' blk = Some prov" "field_of ''Driver Name:'' blk = Some drv"
      "is_apple (block_of blk)" "\<not> str_contains prov ''Microsoft''" "\<not> str_contains drv ''wpdmtp''"
      by (auto simp: block_entity_def block_of_def split: option.splits if_splits)
    with b show ?thesis by blast
  qed
  with all show ?thesis by simp
qed

definition sample_pnputil :: pnputil where
  "sample_pnputil log c =
     Some \<lparr>pnp_stdout =
         (if log = [] \<and> c = EnumDevices
          then ''Device Description: Apple iPhone'' @ [CHR 0x0D, CHR 0x0A] @ ''Manufacturer Name: Apple, Inc.'' @ [CHR 0x0A]
             @ ''Driver Name: oem1.inf'' @ [CHR 0x0A, CHR 0x0A]
             @ ''Device Description: Apple iPad'' @ [CHR 0x0A] @ ''Manufacturer Name: Microsoft'' @ [CHR 0x0A]
             @ ''Driver Name: oem2.inf''
          else []),
       pnp_stderr = [], pnp_success = True\<rparr>"

theorem uninstall_spares_windows_witness:
  "\<exists>log. uninstall_any_apple_driver sample_pnputil 5 [] = (Inr (), log)
     \<and> log = [EnumDevices, DeleteDriver ''oem1.inf'', ScanDevices, EnumDevices] \<and> enums log \<le> 5"
proof -
  have r: "uninstall_any_apple_driver sample_pnputil 5 [] =
      (Inr (), [EnumDevices, DeleteDriver ''oem1.inf'', ScanDevices, EnumDevices])"
    by code_simp
  from uninstall_spares_windows [OF r] have "enums [EnumDevices, DeleteDriver ''oem1.inf'', ScanDevices, EnumDevices] \<le> 5"
    by simp
  with r show ?thesis by blast
qed

end
