(* ===== verification/Handshake.thy ===== *)
theory Handshake
  imports Handlers "HOL-Library.Sublist"
begin

text \<open>
  Connecting to a USB device in the two parts a client task runs through: \<open>connect\<close> of
  \<^verbatim>\<open>src/device/usb.rs\<close> and \<open>UsbDeviceConn::new\<close> of \<^verbatim>\<open>src/conn/usb.rs\<close> up to the point where they wait
  for the device's answer, and from there on. In between other tasks work on the same device; the
  connection is known only by its source port and its channel.
\<close>

section \<open>The two parts\<close>

definition conn_syn ::
    "tcp_ops \<Rightarrow> wenv \<Rightarrow> u16 \<Rightarrow> u16 \<Rightarrow> wq \<Rightarrow> (RusbmuxError + unit) \<times> wq" where
  "conn_syn ops env sport dport q =
     (let tcp_syn = control_packet ops SYN sport dport 0 0 in
      case ch_send env q tcp_syn of
        SendClosed e \<Rightarrow> (Inl (from_channel_error e), q)
      | Sent \<Rightarrow> (Inr (), q @ [tcp_syn]))"

definition conn_syn_ack ::
    "tcp_ops \<Rightarrow> wenv \<Rightarrow> u64 \<Rightarrow> u16 \<Rightarrow> u16 \<Rightarrow> nat \<Rightarrow> UsbDevicePacket recv_reply \<Rightarrow> wq
       \<Rightarrow> (RusbmuxError + UsbDeviceConn) \<times> wq" where
  "conn_syn_ack ops env dev sport dport rx answer q1 =
     (case answer of
        RecvClosed e \<Rightarrow> (Inl (from_channel_error e), q1)
      | Received tcp_syn_ack \<Rightarrow>
          (case tcp_hdr tcp_syn_ack of
             None \<Rightarrow> (Inl (UnexpectedPacket ''Expected a packet with a tcp header''), q1)
           | Some t \<Rightarrow>
               (let sent = 0 + acknowledgment_number t;
                    received = 0 + sequence_number t;
                    tcp_ack = control_packet ops ACK sport dport sent received
                in case ch_send env q1 tcp_ack of
                     SendClosed e \<Rightarrow> (Inl (from_channel_error e), q1)
                   | Sent \<Rightarrow>
                       (Inr \<lparr>conn_device_id = dev, sent_bytes = sent,
                          received_bytes = received, conn_source_port = sport,
                          conn_destination_port = dport,
                          sendable_bytes = calc_sendable_bytes sent (window_size t)
                            (acknowledgment_number t),
                          device_last_window_size = window_size t,
                          device_last_received_bytes = acknowledgment_number t,
                          conn_rx = rx, dropped = False\<rparr>,
                        q1 @ [tcp_ack]))))"

definition connect_begin ::
    "tcp_ops \<Rightarrow> wenv \<Rightarrow> u16 \<Rightarrow> UsbDevice \<Rightarrow> (RusbmuxError + u16 \<times> nat) \<times> UsbDevice" where
  "connect_begin ops env dport d =
     (case get_next_source_port d of
        (Inl e, d1) \<Rightarrow> (Inl e, d1)
      | (Inr sport, d1) \<Rightarrow>
          (case register sport (router d1) of
             (rx, r) \<Rightarrow>
               (let d2 = d1\<lparr>router := r\<rparr> in
                case conn_syn ops env sport dport (w_queue d2) of
                  (Inl e, q) \<Rightarrow> (Inl e, d2\<lparr>w_queue := q\<rparr>)
                | (Inr _, q) \<Rightarrow> (Inr (sport, rx), d2\<lparr>w_queue := q\<rparr>))))"

definition connect_finish ::
    "tcp_ops \<Rightarrow> wenv \<Rightarrow> u16 \<Rightarrow> u16 \<Rightarrow> nat \<Rightarrow> UsbDevicePacket recv_reply \<Rightarrow> UsbDevice
       \<Rightarrow> (RusbmuxError + nat) \<times> UsbDevice" where
  "connect_finish ops env dport sport rx answer d =
     (case conn_syn_ack ops env (core_id d) sport dport rx answer (w_queue d) of
        (Inl e, q) \<Rightarrow> (Inl e, d\<lparr>w_queue := q\<rparr>)
      | (Inr c, q) \<Rightarrow> (case add_conn c (d\<lparr>w_queue := q\<rparr>) of (n, d1) \<Rightarrow> (Inr n, d1)))"

section \<open>Lemmas\<close>

lemma conn_new_split:
  "conn_new ops env dev sport dport rx answer q =
     (case conn_syn ops env sport dport q of
        (Inl e, q1) \<Rightarrow> (Inl e, q1)
      | (Inr _, q1) \<Rightarrow> conn_syn_ack ops env dev sport dport rx answer q1)"
  by (simp add: conn_new_def conn_syn_def conn_syn_ack_def Let_def split: send_reply.splits)

text \<open>Run one after the other, the parts are the whole.\<close>

lemma connect_split:
  "connect ops env dport answer d =
     (case connect_begin ops env dport d of
        (Inl e, d1) \<Rightarrow> (Inl e, d1)
      | (Inr (sport, rx), d1) \<Rightarrow> connect_finish ops env dport sport rx answer d1)"
  by (auto simp: connect_def connect_begin_def connect_finish_def conn_new_split get_next_source_port_def
      Let_def split: prod.splits sum.splits if_splits)

text \<open>
  A connection that is waiting for its answer: no one else has its channel, which has been given only
  packets for its port.
\<close>

definition slot :: "u16 \<Rightarrow> nat \<Rightarrow> UsbDeviceConn" where
  "slot sport rx = conn_new_from 0 0 sport 0 0 0 0 rx"

lemma slot_fields [simp]: "conn_source_port (slot sport rx) = sport" "conn_rx (slot sport rx) = rx"
  by (simp_all add: slot_def conn_new_from_def)

lemma conn_ok_slot: "conn_ok r c = conn_ok r (slot (conn_source_port c) (conn_rx c))"
  by (simp add: conn_ok_def)

definition waiting_ok :: "UsbDevice \<Rightarrow> u16 \<Rightarrow> nat \<Rightarrow> bool" where
  "waiting_ok d sport rx \<longleftrightarrow> conn_ok (router d) (slot sport rx)
     \<and> (\<forall>n c. heap d n = Some c \<longrightarrow> conn_rx c \<noteq> rx)"

text \<open>Changes of a device that are good for every connection that is not touched.\<close>

definition keeps_conns :: "UsbDevice \<Rightarrow> UsbDevice \<Rightarrow> bool" where
  "keeps_conns d d' \<longleftrightarrow> (\<forall>c. conn_ok (router d) c \<longrightarrow> conn_ok (router d') c)"

lemma keeps_conns_trans: "keeps_conns d e \<Longrightarrow> keeps_conns e f \<Longrightarrow> keeps_conns d f"
  by (simp add: keeps_conns_def)

lemma keeps_conns_same: "router d' = router d \<Longrightarrow> keeps_conns d d'"
  by (simp add: keeps_conns_def)

lemma keeps_conns_unregister: "router d' = unregister port (router d) \<Longrightarrow> keeps_conns d d'"
  by (auto simp: keeps_conns_def conn_ok_def)

lemma keeps_conns_route:
  assumes "device_inv d" and "route env p (router d) = Routed (router d')"
  shows "keeps_conns d d'"
proof (cases "conns (router d) (route_port p)")
  case None
  with route_unknown [OF None, of env] assms(2) show ?thesis by (intro keeps_conns_same) simp
next
  case (Some c)
  have same: "conns (router d') = conns (router d)" "next_chan (router d') = next_chan (router d)"
    "delivered (router d') = (delivered (router d))(c := delivered (router d) c @ [p])"
    using route_Routed [OF assms(2)] route_delivered [OF assms(2) Some] by simp_all
  have "conn_ok (router d') c'" if "conn_ok (router d) c'" for c'
    using that Some unfolding conn_ok_def same by (simp; blast)
  then show ?thesis by (simp add: keeps_conns_def)
qed

lemma conn_syn_prefix: "conn_syn ops env sport dport q = (res, q') \<Longrightarrow> prefix q q'"
  by (auto simp: conn_syn_def Let_def split: send_reply.splits)

lemma conn_syn_ack_fields:
  assumes "conn_syn_ack ops env dev sport dport rx answer q = (res, q')"
  shows "prefix q q'"
    and "res = Inr c \<Longrightarrow> conn_rx c = rx \<and> conn_source_port c = sport \<and> conn_inv c"
  using assms
  by (auto simp: conn_syn_ack_def conn_inv_def Let_def split: recv_reply.splits option.splits send_reply.splits)

section \<open>What the parts do to a device\<close>

lemma connect_begin_spec:
  assumes "connect_begin ops env dport d = (res, d')" and "device_inv d"
  shows "device_inv d' \<and> heap d' = heap d \<and> prefix (w_queue d) (w_queue d')
     \<and> delivered (router d') = delivered (router d) \<and> keeps_conns d d'"
    and "res = Inr (sport, rx) \<Longrightarrow> waiting_ok d' sport rx \<and> (\<forall>c. conn_ok (router d) c \<longrightarrow> conn_rx c \<noteq> rx)"
proof -
  let ?d1 = "d\<lparr>next_source_port := next_source_port d + 1\<rparr>"
  have d1: "device_inv ?d1" using assms(2) by (rule device_inv_cong) simp_all
  obtain x r where reg: "register (next_source_port d) (router d) = (x, r)" by fastforce
  then have del: "delivered r = delivered (router d)" by (metis register_fields(4) snd_conv)
  have ok: "chan_ok (router d)" using assms(2) by (simp add: device_inv_def)
  note rok = register_ok [OF ok reg]
  obtain a q where syn: "conn_syn ops env (next_source_port d) dport (w_queue d) = (a, q)" by fastforce
  have cases: "d' = ?d1 \<and> (\<exists>e. res = Inl e)
      \<or> d' = ?d1\<lparr>router := r, w_queue := q\<rparr> \<and> (res = Inr (next_source_port d, x) \<or> (\<exists>e. res = Inl e))"
    using assms(1) reg syn
    by (auto simp: connect_begin_def get_next_source_port_def Let_def split: sum.splits if_splits)
  moreover have "device_inv (?d1\<lparr>router := r, w_queue := q\<rparr>)"
    using device_inv_register [OF d1, of "next_source_port d" x r] reg by simp
  ultimately show "device_inv d' \<and> heap d' = heap d \<and> prefix (w_queue d) (w_queue d')
     \<and> delivered (router d') = delivered (router d) \<and> keeps_conns d d'"
    using d1 del conn_syn_prefix [OF syn] rok(2) by (auto simp: keeps_conns_def)
  show "waiting_ok d' sport rx \<and> (\<forall>c. conn_ok (router d) c \<longrightarrow> conn_rx c \<noteq> rx)" if "res = Inr (sport, rx)"
  proof -
    from cases that have d': "d' = ?d1\<lparr>router := r, w_queue := q\<rparr>" "sport = next_source_port d" "rx = x" by auto
    have "conn_ok r (slot sport rx)" by (rule rok(3)) (simp_all add: d')
    moreover have "conn_rx c \<noteq> rx" if "heap d n = Some c" for n c
      using assms(2) that rok(2) d'(3) by (auto simp: device_inv_def)
    ultimately show ?thesis using rok(2) d' by (auto simp: waiting_ok_def)
  qed
qed

lemma device_inv_add_conn:
  assumes "device_inv d" and "waiting_ok d (conn_source_port c) (conn_rx c)"
  shows "device_inv (snd (add_conn c d))"
proof -
  have new: "conn_ok (router d) c" "\<And>n c'. heap d n = Some c' \<Longrightarrow> conn_rx c' \<noteq> conn_rx c"
    using assms(2) conn_ok_slot [of "router d" c] by (auto simp: waiting_ok_def)
  have own: "own_channels (snd (add_conn c d))"
    using assms(1) new(2) unfolding inv_parts add_conn_def Let_def by simp (metis new(2))
  have "table_ok (snd (add_conn c d))"
    using assms(1) by (auto simp: inv_parts add_conn_def Let_def less_Suc_eq)
  with own new(1) assms(1) show ?thesis
    by (auto simp: device_inv_def add_conn_def Let_def less_Suc_eq)
qed

lemma connect_finish_spec:
  assumes "connect_finish ops env dport sport rx answer d = (res, d')"
    and "device_inv d" and "waiting_ok d sport rx"
  shows "device_inv d' \<and> router d' = router d \<and> prefix (w_queue d) (w_queue d')"
    and "\<forall>m c. heap d m = Some c \<longrightarrow> heap d' m = Some c"
    and "\<forall>m c. heap d' m = Some c \<longrightarrow> heap d m = Some c \<or> (conn_rx c = rx \<and> conn_inv c)"
    and "res = Inr n \<Longrightarrow> heap d n = None \<and> (\<exists>c. heap d' n = Some c)"
proof -
  obtain a q where ack: "conn_syn_ack ops env (core_id d) sport dport rx answer (w_queue d) = (a, q)" by fastforce
  note fields = conn_syn_ack_fields [OF ack]
  have "\<And>m c. heap d m = Some c \<Longrightarrow> m < next_conn d" using assms(2) by (auto simp: device_inv_def)
  then have free: "heap d (next_conn d) = None" by (metis less_irrefl not_None_eq)
  let ?q = "d\<lparr>w_queue := q\<rparr>"
  have cases: "d' = ?q \<and> (\<exists>e. res = Inl e)
      \<or> (\<exists>c. a = Inr c \<and> d' = snd (add_conn c ?q) \<and> res = Inr (next_conn d))"
    using assms(1) ack by (auto simp: connect_finish_def add_conn_def Let_def split: sum.splits)
  have "device_inv (snd (add_conn c ?q))" if "a = Inr c" for c
    using device_inv_add_conn [of ?q c] assms(2,3) fields(2) [OF that] by (simp add: waiting_ok_def)
  with cases assms(2) fields(1)
  show "device_inv d' \<and> router d' = router d \<and> prefix (w_queue d) (w_queue d')"
    by (auto simp: add_conn_def Let_def)
  show "\<forall>m c. heap d m = Some c \<longrightarrow> heap d' m = Some c" using cases free by (auto simp: add_conn_def Let_def)
  show "\<forall>m c. heap d' m = Some c \<longrightarrow> heap d m = Some c \<or> (conn_rx c = rx \<and> conn_inv c)"
    using cases fields(2) by (auto simp: add_conn_def Let_def split: if_splits)
  show "heap d n = None \<and> (\<exists>c. heap d' n = Some c)" if "res = Inr n"
    using cases free that by (auto simp: add_conn_def Let_def)
qed

end
