(* ===== verification/System.thy ===== *)
theory System
  imports Handshake
begin

text \<open>
  The daemon as a whole: the table of devices, both watchers, the tasks of the devices and any
  number of clients that are connected to devices, interleaved turn by turn. \<open>start_accepting\<close> of
  \<^verbatim>\<open>src/daemon.rs\<close> gives each client a task of its own; a turn of such a task is one turn of the loop
  of \<open>handle_usb_device_connect\<close> in \<^verbatim>\<open>src/handler/connect.rs\<close>, on the device as the other tasks have
  left it. What a turn receives from the device is the next packet of the channel of its connection,
  the answer to a handshake the first one.
  For the statements below a client also remembers what it has read, queued and received so far.
\<close>

section \<open>State\<close>

text \<open>\<open>sv_taken\<close>: how many packets the client has taken from the channel of its connection.\<close>

record serving =
  sv_device :: u64
  sv_conn :: nat
  sv_taken :: nat
  sv_buf :: bytes
  sv_reads :: "(io_error + bytes) list"
  sv_out :: "bytes list"
  sv_input :: bytes
  sv_queued :: "UsbDevicePacket list"
  sv_received :: "UsbDevicePacket list"

text \<open>A client whose connection waits for the device's answer.\<close>

record waiting =
  wa_device :: u64
  wa_dport :: u16
  wa_sport :: u16
  wa_rx :: nat
  wa_reads :: "(io_error + bytes) list"

record system =
  sy_world :: world
  sy_clients :: "nat \<rightharpoonup> serving"
  sy_waiting :: "nat \<rightharpoonup> waiting"

section \<open>Turns\<close>

text \<open>What the loop sees of a device, and the device with what the loop has done.\<close>

definition proxy_of :: "UsbDevice \<Rightarrow> UsbDeviceConn \<Rightarrow> serving \<Rightarrow> proxy" where
  "proxy_of dev c sv = \<lparr>px_conn = c, px_queue = w_queue dev, px_router = Some (router dev),
     px_buf = sv_buf sv, px_reads = sv_reads sv, px_out = sv_out sv\<rparr>"

definition put_back :: "nat \<Rightarrow> proxy \<Rightarrow> UsbDevice \<Rightarrow> UsbDevice" where
  "put_back n px dev = dev\<lparr>heap := (heap dev)(n \<mapsto> px_conn px),
     router := (case px_router px of None \<Rightarrow> router dev | Some r \<Rightarrow> r), w_queue := px_queue px\<rparr>"

text \<open>The packet a turn takes from the channel, and whether the channel has it.\<close>

fun taken_packet :: "proxy_event \<Rightarrow> UsbDevicePacket option" where
  "taken_packet (DeviceReady (Received p)) = Some p"
| "taken_packet (DeviceAbandoned p) = Some p"
| "taken_packet ev = None"

definition channel_gives :: "UsbDevicePacket list \<Rightarrow> nat \<Rightarrow> proxy_event \<Rightarrow> bool" where
  "channel_gives ch n ev =
     (case taken_packet ev of None \<Rightarrow> True | Some p \<Rightarrow> n < length ch \<and> p = ch ! n)"

definition sv_update :: "UsbDevice \<Rightarrow> proxy_event \<Rightarrow> proxy \<Rightarrow> serving \<Rightarrow> serving" where
  "sv_update dev ev px sv =
     sv\<lparr>sv_taken := (if taken_packet ev = None then sv_taken sv else Suc (sv_taken sv)),
        sv_buf := px_buf px, sv_reads := px_reads px, sv_out := px_out px,
        sv_input := sv_input sv @ concat (map read_bytes
          (take (length (sv_reads sv) - length (px_reads px)) (sv_reads sv))),
        sv_queued := sv_queued sv @ drop (length (w_queue dev)) (px_queue px),
        sv_received := sv_received sv @ received [ev]\<rparr>"

text \<open>The end of a connection: the last reference is dropped.\<close>

definition release :: "tcp_ops \<Rightarrow> wenv \<Rightarrow> nat \<Rightarrow> UsbDevice \<Rightarrow> UsbDevice" where
  "release ops wenv n dev =
     (case heap dev n of
        None \<Rightarrow> dev
      | Some c \<Rightarrow>
          (case conn_drop ops wenv c (Some (router dev)) (w_queue dev) of
             (rt, q) \<Rightarrow> dev\<lparr>heap := (heap dev)(n := None),
                 router := (case rt of None \<Rightarrow> router dev | Some r \<Rightarrow> r), w_queue := q\<rparr>))"

definition serve_turn ::
    "tcp_ops \<Rightarrow> wenv \<Rightarrow> (bytes list \<Rightarrow> bytes \<Rightarrow> io_error option) \<Rightarrow> proxy_event \<Rightarrow> nat \<Rightarrow> system \<Rightarrow> system" where
  "serve_turn ops wenv wr ev k s =
     (case sy_clients s k of
        None \<Rightarrow> s
      | Some sv \<Rightarrow>
          (case connected (sy_world s) (sv_device sv) of
             Some (Usb dev) \<Rightarrow>
               (case heap dev (sv_conn sv) of
                  None \<Rightarrow> s
                | Some c \<Rightarrow>
                    if \<not> channel_gives (delivered (router dev) (conn_rx c)) (sv_taken sv) ev then s
                    else (case proxy_step ops wenv wr ev (proxy_of dev c sv) of
                       (r, px) \<Rightarrow>
                         (let dev1 = put_back (sv_conn sv) px dev in
                          if r = None
                          then s\<lparr>sy_world := table_insert (sv_device sv) (Usb dev1) (sy_world s),
                                 sy_clients := (sy_clients s)(k \<mapsto> sv_update dev ev px sv)\<rparr>
                          else s\<lparr>sy_world := table_insert (sv_device sv)
                                   (Usb (release ops wenv (sv_conn sv) dev1)) (sy_world s),
                                 sy_clients := (sy_clients s)(k := None)\<rparr>)))
           | _ \<Rightarrow> s))"

text \<open>
  A new connection, which has received the device's answer; \<open>reads\<close> are the results of the reads to
  come.
\<close>

definition new_client :: "u64 \<Rightarrow> nat \<Rightarrow> (io_error + bytes) list \<Rightarrow> serving" where
  "new_client i n reads = \<lparr>sv_device = i, sv_conn = n, sv_taken = 1, sv_buf = [], sv_reads = reads,
     sv_out = [], sv_input = [], sv_queued = [], sv_received = []\<rparr>"

text \<open>
  Connecting, up to the wait for the answer and from there on. A client of a network device touches no
  device, and an attempt that fails leaves only what it did to the device.
\<close>

definition begin_turn ::
    "tcp_ops \<Rightarrow> wenv \<Rightarrow> u64 \<Rightarrow> u16 \<Rightarrow> (io_error + bytes) list \<Rightarrow> nat \<Rightarrow> system \<Rightarrow> system" where
  "begin_turn ops wenv i port reads k s =
     (case connected (sy_world s) i of
        Some (Usb dev) \<Rightarrow>
          (case connect_begin ops wenv port dev of
             (Inl e, dev1) \<Rightarrow> s\<lparr>sy_world := table_insert i (Usb dev1) (sy_world s)\<rparr>
           | (Inr (sport, rx), dev1) \<Rightarrow>
               s\<lparr>sy_world := table_insert i (Usb dev1) (sy_world s),
                 sy_waiting := (sy_waiting s)(k \<mapsto> \<lparr>wa_device = i, wa_dport = port, wa_sport = sport,
                   wa_rx = rx, wa_reads = reads\<rparr>)\<rparr>)
      | _ \<Rightarrow> s)"

fun first_packet :: "UsbDevicePacket list \<Rightarrow> UsbDevicePacket recv_reply \<Rightarrow> bool" where
  "first_packet ch (RecvClosed e) = True"
| "first_packet ch (Received p) = (ch \<noteq> [] \<and> p = hd ch)"

definition finish_turn ::
    "tcp_ops \<Rightarrow> wenv \<Rightarrow> UsbDevicePacket recv_reply \<Rightarrow> nat \<Rightarrow> system \<Rightarrow> system" where
  "finish_turn ops wenv answer k s =
     (case sy_waiting s k of
        None \<Rightarrow> s
      | Some wa \<Rightarrow>
          (case connected (sy_world s) (wa_device wa) of
             Some (Usb dev) \<Rightarrow>
               if \<not> first_packet (delivered (router dev) (wa_rx wa)) answer then s
               else (case connect_finish ops wenv (wa_dport wa) (wa_sport wa) (wa_rx wa) answer dev of
                  (Inl e, dev1) \<Rightarrow>
                    s\<lparr>sy_world := table_insert (wa_device wa) (Usb dev1) (sy_world s),
                      sy_waiting := (sy_waiting s)(k := None)\<rparr>
                | (Inr n, dev1) \<Rightarrow>
                    s\<lparr>sy_world := table_insert (wa_device wa) (Usb dev1) (sy_world s),
                      sy_clients := (sy_clients s)(k \<mapsto> new_client (wa_device wa) n (wa_reads wa)),
                      sy_waiting := (sy_waiting s)(k := None)\<rparr>)
           | _ \<Rightarrow> s))"

text \<open>
  When a watcher takes a device out of the table, the device is shut down and the clients connected
  to it end; what they still do to it concerns no entry of the table.
\<close>

definition keep :: "('c \<Rightarrow> u64) \<Rightarrow> world \<Rightarrow> world \<Rightarrow> (nat \<rightharpoonup> 'c) \<Rightarrow> nat \<rightharpoonup> 'c" where
  "keep dev_of w w' m k =
     (case m k of
        None \<Rightarrow> None
      | Some x \<Rightarrow> (if connected w' (dev_of x) = connected w (dev_of x) then Some x else None))"

definition watch_turn :: "world \<Rightarrow> system \<Rightarrow> system" where
  "watch_turn w' s = \<lparr>sy_world = w', sy_clients = keep sv_device (sy_world s) w' (sy_clients s),
     sy_waiting = keep wa_device (sy_world s) w' (sy_waiting s)\<rparr>"

section \<open>Steps\<close>

text \<open>A device as \<open>UsbDevice::new\<close> leaves it.\<close>

definition opened :: "UsbDevice \<Rightarrow> bool" where
  "opened d \<longleftrightarrow> (\<exists>dinfo i v. d = fresh_device dinfo i v)"

text \<open>Everything the watchers do to the table.\<close>

inductive watch_any :: "daemon_env \<Rightarrow> world \<Rightarrow> world \<Rightarrow> bool" for env where
  any_network: "network_event env decode derive saved create e w = Ok w' \<Longrightarrow> watch_any env w w'"
| any_heartbeat: "remove_device env i w = (r, w') \<Longrightarrow> watch_any env w w'"
| any_unplugged: "usb_disconnected env i w = (r, w') \<Longrightarrow> watch_any env w w'"
| any_plugged: "opened usb \<Longrightarrow> usb_connected env usb i w = Ok w' \<Longrightarrow> watch_any env w w'"
| any_failed: "\<forall>dinfo d. open_usb dinfo i = Inr d \<longrightarrow> opened d \<Longrightarrow>
     usb_io_disconnected env listed open_usb i opaque w = w' \<Longrightarrow> watch_any env w w'"

text \<open>The tasks of a device: a packet is read, a sequence number is taken for one that is written.\<close>

inductive task_step :: "UsbDevice \<Rightarrow> UsbDevice \<Rightarrow> bool" where
  task_read: "handle_packet renv p d = Inr d' \<Longrightarrow> task_step d d'"
| task_write: "stamp p d = (p', d') \<Longrightarrow> task_step d d'"

inductive system_step :: "daemon_env \<Rightarrow> system \<Rightarrow> system \<Rightarrow> bool" for env where
  sys_begin: "sy_clients s k = None \<Longrightarrow> sy_waiting s k = None \<Longrightarrow>
     system_step env s (begin_turn (env_ops env) (env_writer env) i port reads k s)"
| sys_finish: "system_step env s (finish_turn (env_ops env) (env_writer env) answer k s)"
| sys_serve: "system_step env s (serve_turn (env_ops env) (env_writer env) wr ev k s)"
| sys_task: "connected (sy_world s) i = Some (Usb d) \<Longrightarrow> task_step d d' \<Longrightarrow>
     system_step env s (s\<lparr>sy_world := table_insert i (Usb d') (sy_world s)\<rparr>)"
| sys_watch: "watch_any env (sy_world s) w' \<Longrightarrow> system_step env s (watch_turn w' s)"

inductive_cases system_stepE: "system_step env s t"

section \<open>Turns are steps of the device\<close>

text \<open>What a turn does to its connection: nothing, or one operation of the connection.\<close>

lemma turn_cases:
  assumes "proxy_step ops wenv wr ev px = (r, px')"
  obtains (idle) "px_conn px' = px_conn px" "px_queue px' = px_queue px" "px_router px' = px_router px"
  | (received) answer res where "recv ops wenv answer (px_conn px) (px_queue px) = (res, px_conn px', px_queue px')"
      "px_router px' = px_router px"
  | (abandoned) p where "px_conn px' = note_received p (px_conn px)" "px_queue px' = px_queue px"
      "px_router px' = px_router px"
  | (closed) res where "conn_close ops wenv (px_conn px) (px_router px) (px_queue px) =
      (res, px_conn px', px_router px', px_queue px')"
  | (given) v res where "send_bytes ops wenv v (px_conn px) (px_queue px) = (res, px_conn px', px_queue px')"
      "px_router px' = px_router px"
proof (cases ev)
  case DeviceShutdown
  with assms idle show ?thesis by simp
next
  case (DeviceReady answer)
  obtain res c q where "recv ops wenv answer (px_conn px) (px_queue px) = (res, c, q)" by (metis prod_cases3)
  with DeviceReady assms received show ?thesis by (auto simp: Let_def split: sum.splits prod.splits)
next
  case (DeviceAbandoned p)
  with assms abandoned show ?thesis by auto
next
  case ClientReady
  then show ?thesis
  proof (cases "sendable_bytes (px_conn px) = 0 \<or> client_read (sendable_bytes (px_conn px)) (px_buf px) (px_reads px) = None")
    case True
    with ClientReady assms idle show ?thesis by (auto split: if_splits)
  next
    case False
    then obtain rd buf rs where rd: "client_read (sendable_bytes (px_conn px)) (px_buf px) (px_reads px) = Some (rd, buf, rs)"
      by auto
    obtain res c rt q where cl: "conn_close ops wenv (px_conn px) (px_router px) (px_queue px) = (res, c, rt, q)"
      by (metis prod_cases4)
    show ?thesis
    proof (cases rd)
      case (Inl e)
      with False rd ClientReady assms idle show ?thesis by auto
    next
      case (Inr b)
      obtain res' c' q' where sd: "send_bytes ops wenv b (px_conn px) (px_queue px) = (res', c', q')"
        by (metis prod_cases3)
      from Inr False rd cl sd ClientReady assms closed given show ?thesis
        by (cases "b = []") (auto simp: Let_def split: sum.splits)
    qed
  qed
qed

lemma put_back_cong:
  assumes "heap dev n = Some c" and "px_conn px = c" and "px_queue px = w_queue dev"
    and "px_router px = Some (router dev)"
  shows "put_back n px dev = dev"
  using assms by (simp add: put_back_def fun_upd_idem)

lemma turn_refines_device:
  assumes "heap dev n = Some c" and "proxy_step ops wenv wr ev (proxy_of dev c sv) = (r, px)"
  shows "(dev_step ops)\<^sup>=\<^sup>= dev (put_back n px dev)"
  using assms(2)
proof (cases rule: turn_cases)
  case idle
  then show ?thesis using put_back_cong [OF assms(1)] by (simp add: proxy_of_def)
next
  case (received answer res)
  then show ?thesis using dev_step.receives [OF assms(1)]
    by (auto simp: put_back_def proxy_of_def)
next
  case (abandoned p)
  then show ?thesis using dev_step.abandons [OF assms(1)]
    by (auto simp: put_back_def proxy_of_def)
next
  case (closed res)
  then obtain rt where rt: "px_router px = Some rt"
    by (auto simp: conn_close_def proxy_of_def Let_def dest!: sym [of "Some _"] split: prod.splits sum.splits)
  with closed have "conn_close ops wenv c (Some (router dev)) (w_queue dev) = (res, px_conn px, Some rt, px_queue px)"
    by (simp add: proxy_of_def)
  from dev_step.closes [OF assms(1) this] rt show ?thesis by (simp add: put_back_def)
next
  case (given v res)
  then show ?thesis using dev_step.sends [OF assms(1)]
    by (auto simp: put_back_def proxy_of_def)
qed

lemma device_inv_turn: "(dev_step ops)\<^sup>=\<^sup>= d d' \<Longrightarrow> device_inv d \<Longrightarrow> device_inv d'"
  by (auto intro: device_inv_step)

section \<open>What a turn puts on the queue and leaves of the rest\<close>

definition from_port :: "u16 \<Rightarrow> UsbDevicePacket \<Rightarrow> bool" where
  "from_port sp p \<longleftrightarrow> (case tcp_hdr p of None \<Rightarrow> False | Some t \<Rightarrow> source_port t = sp)"

lemma from_port_built:
  assumes "tcp_laws ops"
  shows "from_port (conn_source_port c) (data_packet ops c v)"
    and "from_port sp (control_packet ops fl sp dp sn an)"
proof -
  from data_packet_fields(3) [OF assms, of c v] show "from_port (conn_source_port c) (data_packet ops c v)"
    by (auto simp: from_port_def)
  from control_packet_shape(4) [OF assms, of fl sp dp sn an] show "from_port sp (control_packet ops fl sp dp sn an)"
    by (auto simp: from_port_def)
qed

lemma turn_keeps:
  assumes "proxy_step ops wenv wr ev px = (r, px')"
  shows "conn_rx (px_conn px') = conn_rx (px_conn px) \<and> conn_source_port (px_conn px') = conn_source_port (px_conn px)"
  using assms
proof (cases rule: turn_cases)
  case idle
  then show ?thesis by simp
next
  case (received answer res)
  then show ?thesis using recv_keeps by blast
next
  case (abandoned p)
  then show ?thesis by (simp add: note_received_keeps)
next
  case (closed res)
  then show ?thesis
    by (auto simp: conn_close_def Let_def dest!: sym [of "UsbDeviceConn.dropped_update _ _"] split: prod.splits sum.splits)
next
  case (given v res)
  then show ?thesis using send_bytes_keeps by blast
qed

lemma turn_router:
  assumes "proxy_step ops wenv wr ev px = (r, px')" and "px_router px = Some rt"
  shows "\<exists>rt'. px_router px' = Some rt' \<and> (rt' = rt \<or> rt' = unregister (conn_source_port (px_conn px)) rt)"
  using assms(1)
proof (cases rule: turn_cases)
  case (closed res)
  with assms(2) show ?thesis
    by (auto simp: conn_close_def Let_def dest!: sym [of "Some _"] split: prod.splits sum.splits)
qed (use assms(2) in auto)

text \<open>The packets a connection queues when it receives, closes and sends.\<close>

lemma recv_from_port:
  assumes "tcp_laws ops" and "recv ops wenv answer c q = (res, c', q')"
  shows "\<exists>ps. q' = q @ ps \<and> (\<forall>p \<in> set ps. from_port (conn_source_port c) p)"
  using assms(2) from_port_built(2) [OF assms(1)] note_received_keeps
  by (auto simp: recv_def conn_ack_def Let_def split: recv_reply.splits send_reply.splits prod.splits sum.splits)

lemma close_from_port:
  assumes "tcp_laws ops" and "conn_close ops wenv c rt q = (res, c', rt', q')"
  shows "\<exists>ps. q' = q @ ps \<and> (\<forall>p \<in> set ps. from_port (conn_source_port c) p)"
  using assms(2) from_port_built(2) [OF assms(1)]
  by (auto simp: conn_close_def send_rst_def rst_packet_def Let_def split: send_reply.splits prod.splits sum.splits)

lemma send_from_port:
  assumes "tcp_laws ops" and "send_bytes ops wenv v c q = (res, c', q')"
  shows "\<exists>ps. q' = q @ ps \<and> (\<forall>p \<in> set ps. from_port (conn_source_port c) p)"
  using assms(2) from_port_built(1) [OF assms(1)]
  by (auto simp: send_bytes_def send_packet_def Let_def split: send_reply.splits)

lemma turn_queues:
  assumes "tcp_laws ops" and "proxy_step ops wenv wr ev px = (r, px')"
  shows "\<exists>ps. px_queue px' = px_queue px @ ps \<and> (\<forall>p \<in> set ps. from_port (conn_source_port (px_conn px)) p)"
  using assms(2)
proof (cases rule: turn_cases)
  case (received answer res)
  then show ?thesis using recv_from_port [OF assms(1)] by blast
next
  case (closed res)
  then show ?thesis using close_from_port [OF assms(1)] by blast
next
  case (given v res)
  then show ?thesis using send_from_port [OF assms(1)] by blast
qed auto

text \<open>
  A change of a device that leaves the connections outside \<open>N\<close> as they are, only adds to the queue and
  to what the channels have accepted, keeps every channel good for its connection, and takes channels
  for connections from those it had and from \<open>R\<close>.
\<close>

definition evolves :: "nat set \<Rightarrow> nat set \<Rightarrow> UsbDevice \<Rightarrow> UsbDevice \<Rightarrow> bool" where
  "evolves N R d d' \<longleftrightarrow> (\<forall>m c. m \<notin> N \<longrightarrow> heap d m = Some c \<longrightarrow> heap d' m = Some c)
     \<and> prefix (w_queue d) (w_queue d')
     \<and> (\<forall>ch. prefix (delivered (router d) ch) (delivered (router d') ch))
     \<and> keeps_conns d d'
     \<and> (\<forall>m c. heap d' m = Some c \<longrightarrow> conn_rx c \<notin> R \<longrightarrow> (\<exists>m0 c0. heap d m0 = Some c0 \<and> conn_rx c0 = conn_rx c))"

lemma evolvesI:
  assumes "\<And>m c. m \<notin> N \<Longrightarrow> heap d m = Some c \<Longrightarrow> heap d' m = Some c"
    and "prefix (w_queue d) (w_queue d')" and "\<And>ch. prefix (delivered (router d) ch) (delivered (router d') ch)"
    and "keeps_conns d d'"
    and "\<And>m c. heap d' m = Some c \<Longrightarrow> conn_rx c \<notin> R \<Longrightarrow> \<exists>m0 c0. heap d m0 = Some c0 \<and> conn_rx c0 = conn_rx c"
  shows "evolves N R d d'"
  using assms by (simp add: evolves_def)

lemma evolves_trans:
  assumes "evolves N {} d e" and "evolves N {} e f"
  shows "evolves N {} d f"
proof (rule evolvesI)
  show "heap f m = Some c" if "m \<notin> N" "heap d m = Some c" for m c
    using assms that by (simp add: evolves_def)
  show "prefix (w_queue d) (w_queue f)" "prefix (delivered (router d) ch) (delivered (router f) ch)" for ch
    using assms unfolding evolves_def by (meson prefix_order.trans)+
  show "keeps_conns d f" using assms keeps_conns_trans by (auto simp: evolves_def)
  show "\<exists>m0 c0. heap d m0 = Some c0 \<and> conn_rx c0 = conn_rx c" if "heap f m = Some c" for m c
  proof -
    obtain m1 c1 where "heap e m1 = Some c1" "conn_rx c1 = conn_rx c"
      using assms(2) \<open>heap f m = Some c\<close> unfolding evolves_def by blast
    with assms(1) show ?thesis unfolding evolves_def by (metis empty_iff)
  qed
qed

lemma begin_evolves:
  assumes "connect_begin ops env dport d = (res, d')" and "device_inv d"
  shows "evolves {} {} d d'"
  using connect_begin_spec(1) [OF assms] by (intro evolvesI) auto

lemma finish_evolves:
  assumes "connect_finish ops env dport sport rx answer d = (res, d')"
    and "device_inv d" and "waiting_ok d sport rx"
  shows "evolves {} {rx} d d'"
proof (rule evolvesI)
  note spec = connect_finish_spec(1-3) [OF assms]
  show "keeps_conns d d'" using spec(1) keeps_conns_same by blast
  show "\<exists>m0 c0. heap d m0 = Some c0 \<and> conn_rx c0 = conn_rx c"
    if "heap d' m = Some c" "conn_rx c \<notin> {rx}" for m c
    using spec(3) that by blast
qed (use connect_finish_spec(1,2) [OF assms] in auto)

lemma route_prefix: "route env p r = Routed r' \<Longrightarrow> prefix (delivered r ch) (delivered r' ch)"
  by (auto simp: route_def unregister_holding_def Let_def split: option.splits send_reply.splits)

lemma handle_packet_router:
  assumes "handle_packet renv p d = Inr d'"
  shows "d' = increment_recv_seq d \<or> (\<exists>r. route renv p (router d) = Routed r \<and> d' = (increment_recv_seq d)\<lparr>router := r\<rparr>)"
  using assms
  by (auto simp: handle_packet_def increment_recv_seq_def Let_def
      split: if_splits route_outcome.splits UsbDevicePacketPayload.splits)

lemma task_evolves:
  assumes "task_step d d'" and "device_inv d"
  shows "evolves {} {} d d' \<and> heap d' = heap d"
  using assms(1)
proof cases
  case (task_read renv p)
  note rt = handle_packet_router [OF this]
  have "keeps_conns d d'"
    using rt keeps_conns_route [OF assms(2), of renv p d'] keeps_conns_same [of d' d]
    by (auto simp: increment_recv_seq_def)
  moreover have "heap d' = heap d \<and> w_queue d' = w_queue d"
    using rt by (auto simp: increment_recv_seq_def)
  moreover have "prefix (delivered (router d) ch) (delivered (router d') ch)" for ch
    using rt route_prefix by (auto simp: increment_recv_seq_def)
  ultimately show ?thesis by (auto intro!: evolvesI) blast+
next
  case (task_write p p')
  then have "heap d' = heap d \<and> w_queue d' = w_queue d \<and> router d' = router d"
    by (auto simp: stamp_def take_send_seq_def split: UsbDevicePacketHeader.splits)
  then show ?thesis by (auto intro!: evolvesI keeps_conns_same) blast
qed

lemma put_back_evolves:
  assumes "tcp_laws ops" and "proxy_step ops wenv wr ev (proxy_of dev c sv) = (r, px)" and "heap dev n = Some c"
  shows "evolves {n} {} dev (put_back n px dev)"
proof -
  obtain rt where rt: "px_router px = Some rt" "rt = router dev \<or> rt = unregister (conn_source_port c) (router dev)"
    using turn_router [OF assms(2)] by (auto simp: proxy_of_def)
  obtain ps where "px_queue px = w_queue dev @ ps"
    using turn_queues [OF assms(1,2)] by (auto simp: proxy_of_def)
  moreover have "keeps_conns dev (put_back n px dev)"
    using rt keeps_conns_same [of "put_back n px dev" dev] keeps_conns_unregister [of "put_back n px dev" _ dev]
    by (auto simp: put_back_def)
  moreover have "conn_rx (px_conn px) = conn_rx c" using turn_keeps [OF assms(2)] by (simp add: proxy_of_def)
  ultimately show ?thesis using rt assms(3) by (intro evolvesI) (auto simp: put_back_def split: if_splits)
qed

lemma release_shape:
  obtains q rt where "release ops wenv n dev = dev\<lparr>heap := (heap dev)(n := None), router := rt, w_queue := q\<rparr>"
    "prefix (w_queue dev) q" "rt = router dev \<or> (\<exists>port. rt = unregister port (router dev))"
proof (cases "heap dev n")
  case None
  then have "release ops wenv n dev = dev\<lparr>heap := (heap dev)(n := None), router := router dev, w_queue := w_queue dev\<rparr>"
    by (simp add: release_def fun_upd_idem)
  with that show ?thesis by blast
next
  case (Some c)
  obtain rt q where dr: "conn_drop ops wenv c (Some (router dev)) (w_queue dev) = (rt, q)" by fastforce
  then have q: "prefix (w_queue dev) q" "\<exists>r. rt = Some r"
    by (auto simp: conn_drop_def close_blocking_def send_rst_blocking_def Let_def
        split: prod.splits sum.splits try_send_reply.splits if_splits)
  then obtain r where r: "rt = Some r" by blast
  with conn_drop_router [of ops wenv c "router dev" "w_queue dev" r q] dr
  have "r = router dev \<or> (\<exists>port. r = unregister port (router dev))" by blast
  with that [of q r] q(1) dr r Some show ?thesis by (simp add: release_def)
qed

lemma release_evolves:
  shows "evolves {n} {} dev (release ops wenv n dev)"
    and "m \<noteq> n \<Longrightarrow> heap (release ops wenv n dev) m = heap dev m"
    and "heap (release ops wenv n dev) n = None"
    and "delivered (router (release ops wenv n dev)) = delivered (router dev)"
proof -
  obtain q rt where s: "release ops wenv n dev = dev\<lparr>heap := (heap dev)(n := None), router := rt, w_queue := q\<rparr>"
    "prefix (w_queue dev) q" "rt = router dev \<or> (\<exists>port. rt = unregister port (router dev))"
    by (rule release_shape)
  have "keeps_conns dev (release ops wenv n dev)"
    using s(1,3) keeps_conns_same [of "release ops wenv n dev" dev]
      keeps_conns_unregister [of "release ops wenv n dev" _ dev] by auto
  with s show "evolves {n} {} dev (release ops wenv n dev)"
    by (intro evolvesI) (auto split: if_splits)
  show "m \<noteq> n \<Longrightarrow> heap (release ops wenv n dev) m = heap dev m"
    and "heap (release ops wenv n dev) n = None"
    and "delivered (router (release ops wenv n dev)) = delivered (router dev)"
    using s by auto
qed

lemma release_refines_device: "(dev_step ops)\<^sup>=\<^sup>= dev (release ops wenv n dev)"
proof (cases "heap dev n")
  case None
  then show ?thesis by (simp add: release_def)
next
  case (Some c)
  obtain rt q where dr: "conn_drop ops wenv c (Some (router dev)) (w_queue dev) = (rt, q)" by fastforce
  then obtain r where "rt = Some r"
    by (auto simp: conn_drop_def close_blocking_def Let_def split: prod.splits sum.splits if_splits)
  with dev_step.releases [OF Some] dr Some show ?thesis by (simp add: release_def)
qed

end
