(* ===== verification/System_Inv.thy ===== *)
theory System_Inv
  imports System
begin

text \<open>
  The invariant of the daemon of \<^verbatim>\<open>System\<close>: every USB device is in order, every client has the
  account of its connection, every connection that waits has a channel of its own, and no two clients
  share a connection or a channel. Every step keeps it.
\<close>

section \<open>The invariant\<close>

definition usb_ok :: "UsbDevice \<Rightarrow> bool" where
  "usb_ok d \<longleftrightarrow> device_inv d \<and> (\<forall>n c. heap d n = Some c \<longrightarrow> sendable_bytes c \<le> MAX_PACKET_PAYLOAD_SIZE)"

text \<open>
  The account of a client: what it has read is queued, in order and in packets of its own port, or
  still buffered; what it has been written are packets of its channel, in their order.
\<close>

definition upstream_ok :: "UsbDevicePacket list \<Rightarrow> u16 \<Rightarrow> serving \<Rightarrow> bool" where
  "upstream_ok q sp sv \<longleftrightarrow> sv_input sv = concat (map pkt_bytes (sv_queued sv)) @ sv_buf sv
     \<and> subseq (sv_queued sv) q \<and> (\<forall>p \<in> set (sv_queued sv). from_port sp p)"

definition downstream_ok :: "UsbDevicePacket list \<Rightarrow> serving \<Rightarrow> bool" where
  "downstream_ok ch sv \<longleftrightarrow> sv_taken sv \<le> length ch \<and> subseq (sv_received sv) (take (sv_taken sv) ch)
     \<and> concat (sv_out sv) = concat (map pkt_bytes (sv_received sv))"

definition serves :: "UsbDevice \<Rightarrow> UsbDeviceConn \<Rightarrow> serving \<Rightarrow> bool" where
  "serves d c sv \<longleftrightarrow> heap d (sv_conn sv) = Some c \<and> upstream_ok (w_queue d) (conn_source_port c) sv
     \<and> downstream_ok (delivered (router d) (conn_rx c)) sv"

definition client_ok :: "world \<Rightarrow> serving \<Rightarrow> bool" where
  "client_ok w sv \<longleftrightarrow> (\<exists>d c. connected w (sv_device sv) = Some (Usb d) \<and> serves d c sv)"

text \<open>A connection that waits for its answer.\<close>

definition waiter_ok :: "world \<Rightarrow> waiting \<Rightarrow> bool" where
  "waiter_ok w wa \<longleftrightarrow> (\<exists>d. connected w (wa_device wa) = Some (Usb d) \<and> waiting_ok d (wa_sport wa) (wa_rx wa))"

text \<open>Every member of a family is in order, and no two have the same key.\<close>

definition all_ok :: "('c \<Rightarrow> bool) \<Rightarrow> ('c \<Rightarrow> 'k) \<Rightarrow> (nat \<rightharpoonup> 'c) \<Rightarrow> bool" where
  "all_ok P key m \<longleftrightarrow> (\<forall>k x. m k = Some x \<longrightarrow> P x)
     \<and> (\<forall>k k' x y. m k = Some x \<longrightarrow> m k' = Some y \<longrightarrow> key x = key y \<longrightarrow> k = k')"

lemma all_ok_empty: "all_ok P key Map.empty"
  by (simp add: all_ok_def)

lemma all_ok_get: "all_ok P key m \<Longrightarrow> m k = Some x \<Longrightarrow> P x"
  by (simp add: all_ok_def)

lemma all_ok_alone: "all_ok P key m \<Longrightarrow> m k = Some x \<Longrightarrow> m k' = Some y \<Longrightarrow> key x = key y \<Longrightarrow> k = k'"
  unfolding all_ok_def by blast

lemma all_ok_sub:
  assumes "all_ok P key m" and "m' \<subseteq>\<^sub>m m" and "\<And>k x. m' k = Some x \<Longrightarrow> P x \<Longrightarrow> Q x"
  shows "all_ok Q key m'"
proof -
  have sub: "m k = Some x" if "m' k = Some x" for k x
    using assms(2) that by (metis domI map_le_def)
  have "Q x" if "m' k = Some x" for k x
    using assms(3) [OF that] all_ok_get [OF assms(1) sub [OF that]] .
  moreover have "k = k'" if "m' k = Some x" "m' k' = Some y" "key x = key y" for k k' x y
    using all_ok_alone [OF assms(1) sub [OF that(1)] sub [OF that(2)] that(3)] .
  ultimately show ?thesis unfolding all_ok_def by blast
qed

lemma all_ok_add:
  assumes "all_ok P key m" and "P x" and "\<And>k' y. m k' = Some y \<Longrightarrow> key y = key x \<Longrightarrow> k' = k"
  shows "all_ok P key (m(k \<mapsto> x))"
  using assms unfolding all_ok_def by (auto split: if_splits)

definition sys_inv :: "system \<Rightarrow> bool" where
  "sys_inv s \<longleftrightarrow> (\<forall>i d. connected (sy_world s) i = Some (Usb d) \<longrightarrow> usb_ok d)
     \<and> all_ok (client_ok (sy_world s)) (\<lambda>sv. (sv_device sv, sv_conn sv)) (sy_clients s)
     \<and> all_ok (waiter_ok (sy_world s)) (\<lambda>wa. (wa_device wa, wa_rx wa)) (sy_waiting s)"

lemma sys_inv_usb: "sys_inv s \<Longrightarrow> connected (sy_world s) i = Some (Usb d) \<Longrightarrow> usb_ok d"
  unfolding sys_inv_def by blast

lemma sys_inv_client: "sys_inv s \<Longrightarrow> sy_clients s k = Some sv \<Longrightarrow> client_ok (sy_world s) sv"
  unfolding sys_inv_def by (blast intro: all_ok_get)

lemma sys_inv_waiter: "sys_inv s \<Longrightarrow> sy_waiting s k = Some wa \<Longrightarrow> waiter_ok (sy_world s) wa"
  unfolding sys_inv_def by (blast intro: all_ok_get)

lemma sys_inv_alone:
  assumes "sys_inv s" and "sy_clients s k = Some sv" and "sy_clients s k' = Some sv'"
    and "sv_device sv' = sv_device sv" and "sv_conn sv' = sv_conn sv"
  shows "k' = k"
proof -
  have "all_ok (client_ok (sy_world s)) (\<lambda>sv. (sv_device sv, sv_conn sv)) (sy_clients s)"
    using assms(1) by (simp add: sys_inv_def)
  from all_ok_alone [OF this assms(3,2)] assms(4,5) show ?thesis by simp
qed

lemma sys_inv_waiters_alone:
  assumes "sys_inv s" and "sy_waiting s k = Some wa" and "sy_waiting s k' = Some wa'"
    and "wa_device wa' = wa_device wa" and "wa_rx wa' = wa_rx wa"
  shows "k' = k"
proof -
  have "all_ok (waiter_ok (sy_world s)) (\<lambda>wa. (wa_device wa, wa_rx wa)) (sy_waiting s)"
    using assms(1) by (simp add: sys_inv_def)
  from all_ok_alone [OF this assms(3,2)] assms(4,5) show ?thesis by simp
qed

section \<open>One device changes\<close>

lemma serves_evolves:
  assumes "serves d c sv" and "evolves N R d d'" and "sv_conn sv \<notin> N"
  shows "serves d' c sv"
proof -
  from assms have up: "upstream_ok (w_queue d) (conn_source_port c) sv" "prefix (w_queue d) (w_queue d')"
    and down: "downstream_ok (delivered (router d) (conn_rx c)) sv"
      "prefix (delivered (router d) (conn_rx c)) (delivered (router d') (conn_rx c))"
    and "heap d' (sv_conn sv) = Some c"
    unfolding serves_def evolves_def by blast+
  moreover from up have "upstream_ok (w_queue d') (conn_source_port c) sv"
    unfolding upstream_ok_def by (meson prefix_imp_subseq subseq_order.trans)
  moreover from down have "downstream_ok (delivered (router d') (conn_rx c)) sv"
    by (auto simp: downstream_ok_def elim!: prefixE)
  ultimately show ?thesis by (simp add: serves_def)
qed

text \<open>
  One entry of the table changes: the clients of the others are untouched, those of the entry
  are, too, when they are not at the connections \<open>N\<close>.
\<close>

lemma client_ok_entry:
  assumes "client_ok w sv" and "connected w i = Some (Usb d)" and "evolves N R d d'"
    and "sv_device sv = i \<Longrightarrow> sv_conn sv \<notin> N"
  shows "client_ok (table_insert i (Usb d') w) sv"
proof -
  obtain e c where e: "connected w (sv_device sv) = Some (Usb e)" "serves e c sv"
    using assms(1) unfolding client_ok_def by blast
  show ?thesis
  proof (cases "sv_device sv = i")
    case True
    with e assms(2) have "serves d c sv" by simp
    from serves_evolves [OF this assms(3) assms(4) [OF True]] True show ?thesis
      unfolding client_ok_def by auto
  next
    case False
    with e show ?thesis unfolding client_ok_def by auto
  qed
qed

lemma waiter_ok_entry:
  assumes "waiter_ok w wa" and "connected w i = Some (Usb d)" and "evolves N R d d'"
    and "wa_device wa = i \<Longrightarrow> wa_rx wa \<notin> R"
  shows "waiter_ok (table_insert i (Usb d') w) wa"
proof -
  obtain e where e: "connected w (wa_device wa) = Some (Usb e)" "waiting_ok e (wa_sport wa) (wa_rx wa)"
    using assms(1) unfolding waiter_ok_def by blast
  show ?thesis
  proof (cases "wa_device wa = i")
    case True
    with e assms(2) have ok: "waiting_ok d (wa_sport wa) (wa_rx wa)" by simp
    then have "conn_ok (router d') (slot (wa_sport wa) (wa_rx wa))"
      using assms(3) unfolding waiting_ok_def evolves_def keeps_conns_def by blast
    moreover have "conn_rx c \<noteq> wa_rx wa" if h: "heap d' n = Some c" for n c
      using assms(3) assms(4) [OF True] ok h unfolding evolves_def waiting_ok_def by metis
    ultimately have "waiting_ok d' (wa_sport wa) (wa_rx wa)" by (simp add: waiting_ok_def)
    with True show ?thesis unfolding waiter_ok_def by auto
  next
    case False
    with e show ?thesis unfolding waiter_ok_def by auto
  qed
qed

lemma sys_inv_entry:
  assumes "sys_inv s" and "connected (sy_world s) i = Some (Usb d)" and "evolves N R d d'" and "usb_ok d'"
    and "cl \<subseteq>\<^sub>m sy_clients s" and "wt \<subseteq>\<^sub>m sy_waiting s"
    and "\<And>k sv. cl k = Some sv \<Longrightarrow> sv_device sv = i \<Longrightarrow> sv_conn sv \<notin> N"
    and "\<And>k wa. wt k = Some wa \<Longrightarrow> wa_device wa = i \<Longrightarrow> wa_rx wa \<notin> R"
  shows "sys_inv \<lparr>sy_world = table_insert i (Usb d') (sy_world s), sy_clients = cl, sy_waiting = wt\<rparr>"
proof -
  let ?w = "table_insert i (Usb d') (sy_world s)"
  have "usb_ok e" if "connected ?w j = Some (Usb e)" for j e
    using that assms(4) sys_inv_usb [OF assms(1)] by (auto split: if_splits)
  moreover have "all_ok (client_ok ?w) (\<lambda>sv. (sv_device sv, sv_conn sv)) cl"
  proof (rule all_ok_sub [OF _ assms(5)])
    show "all_ok (client_ok (sy_world s)) (\<lambda>sv. (sv_device sv, sv_conn sv)) (sy_clients s)"
      using assms(1) by (simp add: sys_inv_def)
    show "client_ok ?w sv" if "cl k = Some sv" "client_ok (sy_world s) sv" for k sv
      using client_ok_entry [OF that(2) assms(2,3)] assms(7) [OF that(1)] by blast
  qed
  moreover have "all_ok (waiter_ok ?w) (\<lambda>wa. (wa_device wa, wa_rx wa)) wt"
  proof (rule all_ok_sub [OF _ assms(6)])
    show "all_ok (waiter_ok (sy_world s)) (\<lambda>wa. (wa_device wa, wa_rx wa)) (sy_waiting s)"
      using assms(1) by (simp add: sys_inv_def)
    show "waiter_ok ?w wa" if "wt k = Some wa" "waiter_ok (sy_world s) wa" for k wa
      using waiter_ok_entry [OF that(2) assms(2,3)] assms(8) [OF that(1)] by blast
  qed
  ultimately show ?thesis by (simp add: sys_inv_def)
qed

lemma sys_inv_device:
  assumes "sys_inv s" and "connected (sy_world s) i = Some (Usb d)" and "evolves {} {} d d'" and "usb_ok d'"
  shows "sys_inv (s\<lparr>sy_world := table_insert i (Usb d') (sy_world s)\<rparr>)"
  using sys_inv_entry [OF assms, of "sy_clients s" "sy_waiting s"] by (cases s) simp

lemma sys_inv_add_client:
  assumes "sys_inv s" and "client_ok (sy_world s) sv"
    and "\<And>k' sv'. sy_clients s k' = Some sv' \<Longrightarrow> sv_device sv' = sv_device sv \<Longrightarrow> sv_conn sv' = sv_conn sv \<Longrightarrow> k' = k"
  shows "sys_inv (s\<lparr>sy_clients := (sy_clients s)(k \<mapsto> sv)\<rparr>)"
  using assms(1,2) all_ok_add [of "client_ok (sy_world s)" "\<lambda>sv. (sv_device sv, sv_conn sv)" "sy_clients s" sv k] assms(3)
  by (simp add: sys_inv_def)

lemma sys_inv_add_waiting:
  assumes "sys_inv s" and "waiter_ok (sy_world s) wa"
    and "\<And>k' wa'. sy_waiting s k' = Some wa' \<Longrightarrow> wa_device wa' = wa_device wa \<Longrightarrow> wa_rx wa' = wa_rx wa \<Longrightarrow> k' = k"
  shows "sys_inv (s\<lparr>sy_waiting := (sy_waiting s)(k \<mapsto> wa)\<rparr>)"
  using assms(1,2) all_ok_add [of "waiter_ok (sy_world s)" "\<lambda>wa. (wa_device wa, wa_rx wa)" "sy_waiting s" wa k] assms(3)
  by (simp add: sys_inv_def)

section \<open>Steps leave devices in order\<close>

lemma usb_ok_turn:
  assumes "tcp_laws ops" and "usb_ok d" and "heap d n = Some c"
    and "proxy_step ops wenv wr ev (proxy_of d c sv) = (r, px)"
  shows "usb_ok (put_back n px d)"
proof -
  have "device_inv (put_back n px d)"
    using turn_refines_device [OF assms(3,4)] device_inv_turn assms(2) unfolding usb_ok_def by blast
  moreover have "sendable_bytes (px_conn px) \<le> MAX_PACKET_PAYLOAD_SIZE"
    using proxy_step_accounts [OF assms(1) _ assms(4)] assms(2,3) unfolding usb_ok_def proxy_of_def by simp
  ultimately show ?thesis using assms(2) unfolding usb_ok_def put_back_def by simp
qed

lemma usb_ok_release:
  assumes "usb_ok d"
  shows "usb_ok (release ops wenv n d)"
proof -
  have "device_inv (release ops wenv n d)"
    using release_refines_device device_inv_turn assms unfolding usb_ok_def by blast
  moreover have "heap d m = Some c" if "heap (release ops wenv n d) m = Some c" for m c
    using that by (cases "m = n") (simp_all add: release_evolves(2,3))
  ultimately show ?thesis using assms unfolding usb_ok_def by blast
qed

lemma usb_ok_begin:
  assumes "connect_begin ops env dport d = (res, d')" and "usb_ok d"
  shows "usb_ok d'"
  using connect_begin_spec(1) [OF assms(1)] assms(2) by (simp add: usb_ok_def)

lemma usb_ok_finish:
  assumes "connect_finish ops env dport sport rx answer d = (res, d')" and "usb_ok d" and "waiting_ok d sport rx"
  shows "usb_ok d'"
proof -
  have "device_inv d" using assms(2) by (simp add: usb_ok_def)
  note spec = connect_finish_spec(1,3) [OF assms(1) this assms(3)]
  have "conn_inv c \<Longrightarrow> sendable_bytes c \<le> MAX_PACKET_PAYLOAD_SIZE" for c
    using calc_sendable_bound by (simp add: conn_inv_def)
  with spec assms(2) show ?thesis unfolding usb_ok_def by blast
qed

lemma usb_ok_task:
  assumes "task_step d d'" and "usb_ok d"
  shows "usb_ok d'"
proof -
  have "device_inv d'"
    using assms(1)
  proof cases
    case (task_read renv p)
    then show ?thesis using assms(2) device_inv_packet unfolding usb_ok_def by blast
  next
    case (task_write p p')
    then show ?thesis using assms(2)
      by (auto simp: usb_ok_def stamp_def take_send_seq_def split: UsbDevicePacketHeader.splits
          intro: device_inv_cong)
  qed
  with task_evolves [OF assms(1)] assms(2) show ?thesis unfolding usb_ok_def by simp
qed

lemma usb_ok_opened: "opened d \<Longrightarrow> usb_ok (set_disconnected_tx d)"
proof -
  assume "opened d"
  then obtain dinfo i v where d: "d = fresh_device dinfo i v" unfolding opened_def by blast
  have "device_inv (set_disconnected_tx d)"
    using device_inv_fresh [of dinfo i v] by (rule device_inv_cong) (simp_all add: d set_disconnected_tx_def)
  then show ?thesis by (simp add: usb_ok_def d set_disconnected_tx_def fresh_device_def)
qed

section \<open>What the watchers leave\<close>

text \<open>An entry a watcher has changed: gone, a network device, or a USB device just opened.\<close>

fun fresh_entry :: "Device option \<Rightarrow> bool" where
  "fresh_entry (Some (Usb d)) = usb_ok d"
| "fresh_entry (Some (Network d)) = True"
| "fresh_entry None = True"

definition entries_fresh :: "world \<Rightarrow> world \<Rightarrow> bool" where
  "entries_fresh w w' \<longleftrightarrow> (\<forall>i. connected w' i = connected w i \<or> fresh_entry (connected w' i))"

lemma entries_fresh_refl [simp]: "entries_fresh w w"
  by (simp add: entries_fresh_def)

lemma entries_fresh_send [simp]: "entries_fresh w (send_event e w') = entries_fresh w w'"
  by (simp add: entries_fresh_def)

lemma entries_fresh_remove [simp]: "entries_fresh w (table_remove i w)"
  by (simp add: entries_fresh_def)

lemma entries_fresh_removed: "entries_fresh w w' \<Longrightarrow> entries_fresh w (table_remove i w')"
  by (simp add: entries_fresh_def)

lemma entries_fresh_network: "entries_fresh w w' \<Longrightarrow> entries_fresh w (table_insert i (Network d) w')"
  by (simp add: entries_fresh_def)

lemma entries_fresh_usb:
  "entries_fresh w w' \<Longrightarrow> opened d \<Longrightarrow> entries_fresh w (table_insert i (Usb (set_disconnected_tx d)) w')"
  using usb_ok_opened by (simp add: entries_fresh_def)

lemma announce_removal_entries: "announce_removal env device w = Ok w' \<Longrightarrow> connected w' = connected w"
  by (auto simp: announce_removal_def eq_Ok split: ConnectionType.splits option.splits if_splits)

lemma remove_device_entries:
  assumes "remove_device env i w = (r, w')"
  shows "entries_fresh w w'"
proof (cases "connected w i")
  case None
  with assms show ?thesis by (simp add: remove_device_def)
next
  case (Some device)
  obtain a device' where "device_shutdown env device = (a, device')" by fastforce
  then have "w' = table_remove i w \<or> announce_removal env device' (table_remove i w) = Ok w'"
    using assms Some by (auto simp: remove_device_def Let_def split: sum.splits outcome.splits)
  with announce_removal_entries [of env device' "table_remove i w" w']
  have "connected w' = connected (table_remove i w)" by auto
  then show ?thesis by (simp add: entries_fresh_def)
qed

lemma usb_disconnected_entries:
  assumes "usb_disconnected env i w = (r, w')"
  shows "entries_fresh w w'"
proof -
  obtain a w1 where rm: "remove_device env i w = (a, w1)" by fastforce
  with assms have "w' = w1 \<or> w' = send_event (Detached i) w1"
    by (auto simp: usb_disconnected_def split: outcome.splits)
  with remove_device_entries [OF rm] show ?thesis by auto
qed

lemma retain_other_serials_sub:
  "retain_other_serials env device is m = Ok m' \<Longrightarrow> m' k = Some d \<Longrightarrow> m k = Some d"
proof (induction "is" arbitrary: m)
  case (Cons i "is")
  show ?case
  proof (cases "m i")
    case None
    with Cons show ?thesis by simp
  next
    case (Some a)
    with Cons.prems(1) obtain b where "retain_other_serials env device is (if b then m(i := None) else m) = Ok m'"
      by (auto simp: eq_Ok)
    from Cons.IH [OF this Cons.prems(2)] show ?thesis by (simp split: if_splits)
  qed
qed simp

lemma usb_connected_entries:
  assumes "usb_connected env usb i w = Ok w'" and "opened usb"
  shows "entries_fresh w w'"
proof -
  let ?device = "Usb (set_disconnected_tx usb)"
  let ?w1 = "\<lambda>found. case found of None \<Rightarrow> w | Some ndev \<Rightarrow> send_event (Detached (device_id ndev)) w"
  obtain found m where m: "retain_other_serials env ?device (env_walk env (connected (?w1 found))) (connected (?w1 found)) = Ok m"
    and w': "w' = table_insert i ?device ((?w1 found)\<lparr>connected := m\<rparr>)"
    using assms(1) by (auto simp: usb_connected_def Let_def eq_Ok)
  have w1: "connected (?w1 found) = connected w" by (simp split: option.splits)
  have "entries_fresh w ((?w1 found)\<lparr>connected := m\<rparr>)"
    unfolding entries_fresh_def
  proof
    fix k
    show "connected ((?w1 found)\<lparr>connected := m\<rparr>) k = connected w k \<or> fresh_entry (connected ((?w1 found)\<lparr>connected := m\<rparr>) k)"
      using retain_other_serials_sub [OF m, of k] w1 by (cases "m k") auto
  qed
  then show ?thesis unfolding w' using assms(2) by (rule entries_fresh_usb)
qed

lemma usb_io_disconnected_entries:
  assumes "\<forall>dinfo d. open_usb dinfo i = Inr d \<longrightarrow> opened d"
  shows "entries_fresh w (usb_io_disconnected env listed open_usb i opaque w)"
proof -
  have "entries_fresh w (w\<lparr>connected := (\<lambda>k. case connected w k of None \<Rightarrow> None
      | Some d \<Rightarrow> if opaque_or_default env d \<noteq> opaque then Some d else None)\<rparr>)"
    by (auto simp: entries_fresh_def split: option.splits)
  then show ?thesis
    using assms by (auto simp: usb_io_disconnected_def Let_def split: option.splits sum.splits
        intro!: entries_fresh_usb)
qed

lemma network_event_entries:
  assumes "network_event env decode derive saved create e w = Ok w'"
  shows "entries_fresh w w'"
proof (cases e)
  case (ServiceResolved rs)
  have add: "entries_fresh w w'" if r: "add_resolved env create rd w = Ok w'" for rd
  proof -
    obtain i n where "take_new_id (counter w) = (i, n)" by fastforce
    with r have "w' = w \<or> w' = w\<lparr>counter := n\<rparr> \<or> (\<exists>d. connected w' = connected (table_insert i (Network d) w))"
      by (fastforce simp: add_resolved_def Let_def eq_Ok split: if_splits sum.splits)
    then show ?thesis by (auto simp: entries_fresh_def)
  qed
  from assms ServiceResolved add show ?thesis
    by (auto simp: network_device_add_def eq_Ok split: option.splits)
next
  case (ServiceRemoved name)
  with assms have "w' = w \<or> (\<exists>i. connected w' = connected (table_remove i w))"
    by (fastforce simp: service_removed_def Let_def eq_Ok split: option.splits if_splits)
  then show ?thesis by (auto simp: entries_fresh_def)
next
  case OtherServiceEvent
  with assms show ?thesis by simp
qed

lemma watch_any_entries: "watch_any env w w' \<Longrightarrow> entries_fresh w w'"
proof (induction rule: watch_any.induct)
  case (any_network decode derive saved create e w w')
  then show ?case by (rule network_event_entries)
next
  case (any_heartbeat i w r w')
  then show ?case by (rule remove_device_entries)
next
  case (any_unplugged i w r w')
  then show ?case by (rule usb_disconnected_entries)
next
  case (any_plugged usb i w w')
  then show ?case using usb_connected_entries by blast
next
  case (any_failed open_usb i listed opaque w w')
  then show ?case using usb_io_disconnected_entries by blast
qed

section \<open>Every step keeps the invariant\<close>

lemma table_insert_same: "connected w i = Some d \<Longrightarrow> table_insert i d w = w"
  by (simp add: table_insert_def fun_upd_idem)

text \<open>Connecting: the new channel is no one's, and becomes that of the new connection only.\<close>

lemma sys_inv_begin:
  assumes "sys_inv s"
  shows "sys_inv (begin_turn ops wenv i port reads k s)"
proof (cases "\<exists>d. connected (sy_world s) i = Some (Usb d)")
  case False
  then have "begin_turn ops wenv i port reads k s = s" by (auto simp: begin_turn_def split: option.splits Device.splits)
  with assms show ?thesis by simp
next
  case True
  then obtain d where d: "connected (sy_world s) i = Some (Usb d)" by blast
  have ok: "usb_ok d" using sys_inv_usb [OF assms d] .
  then have di: "device_inv d" by (simp add: usb_ok_def)
  obtain res d' where b: "connect_begin ops wenv port d = (res, d')" by fastforce
  let ?s = "s\<lparr>sy_world := table_insert i (Usb d') (sy_world s)\<rparr>"
  have inv: "sys_inv ?s" using sys_inv_device [OF assms d begin_evolves [OF b di] usb_ok_begin [OF b ok]] .
  show ?thesis
  proof (cases res)
    case (Inl e)
    with inv b d show ?thesis by (simp add: begin_turn_def)
  next
    case (Inr x)
    obtain sport rx where x: "x = (sport, rx)" by fastforce
    let ?wa = "\<lparr>wa_device = i, wa_dport = port, wa_sport = sport, wa_rx = rx, wa_reads = reads\<rparr>"
    have new: "waiting_ok d' sport rx" "conn_ok (router d) c \<Longrightarrow> conn_rx c \<noteq> rx" for c
      using connect_begin_spec(2) [OF b di, of sport rx] Inr x by auto
    have free: "wa_rx wa' \<noteq> rx" if w: "sy_waiting s k' = Some wa'" "wa_device wa' = i" for k' wa'
      using sys_inv_waiter [OF assms w(1)] w(2) d new(2) [of "slot (wa_sport wa') (wa_rx wa')"]
      by (auto simp: waiter_ok_def waiting_ok_def)
    have "sys_inv (?s\<lparr>sy_waiting := (sy_waiting ?s)(k \<mapsto> ?wa)\<rparr>)"
      by (rule sys_inv_add_waiting [OF inv]) (use new(1) free in \<open>auto simp: waiter_ok_def\<close>)
    with b d Inr x show ?thesis by (simp add: begin_turn_def)
  qed
qed

lemma serves_new:
  assumes "heap d n = Some c" and "delivered (router d) (conn_rx c) \<noteq> []"
  shows "serves d c (new_client i n reads)"
  using assms by (simp add: serves_def new_client_def upstream_ok_def downstream_ok_def Suc_le_eq)

lemma connect_finish_answered:
  assumes "connect_finish ops env dport sport rx answer d = (Inr n, d')"
  obtains p where "answer = Received p"
  using assms that by (auto simp: connect_finish_def conn_syn_ack_def split: sum.splits prod.splits recv_reply.splits)

text \<open>The cases of the second part: it changes nothing, it fails, or the client is connected.\<close>

lemma finish_turn_cases:
  obtains (same) "finish_turn ops wenv answer k s = s"
  | (fails) wa d d' e where "sy_waiting s k = Some wa" "connected (sy_world s) (wa_device wa) = Some (Usb d)"
      "connect_finish ops wenv (wa_dport wa) (wa_sport wa) (wa_rx wa) answer d = (Inl e, d')"
      "finish_turn ops wenv answer k s = s\<lparr>sy_world := table_insert (wa_device wa) (Usb d') (sy_world s),
         sy_waiting := (sy_waiting s)(k := None)\<rparr>"
  | (joins) wa d d' n where "sy_waiting s k = Some wa" "connected (sy_world s) (wa_device wa) = Some (Usb d)"
      "connect_finish ops wenv (wa_dport wa) (wa_sport wa) (wa_rx wa) answer d = (Inr n, d')"
      "delivered (router d) (wa_rx wa) \<noteq> []"
      "finish_turn ops wenv answer k s = s\<lparr>sy_world := table_insert (wa_device wa) (Usb d') (sy_world s),
         sy_clients := (sy_clients s)(k \<mapsto> new_client (wa_device wa) n (wa_reads wa)),
         sy_waiting := (sy_waiting s)(k := None)\<rparr>"
proof (cases "\<exists>wa d. sy_waiting s k = Some wa \<and> connected (sy_world s) (wa_device wa) = Some (Usb d)
    \<and> first_packet (delivered (router d) (wa_rx wa)) answer")
  case False
  then have "finish_turn ops wenv answer k s = s"
    by (auto simp: finish_turn_def split: option.splits Device.splits)
  with same show ?thesis .
next
  case True
  then obtain wa d where d: "sy_waiting s k = Some wa" "connected (sy_world s) (wa_device wa) = Some (Usb d)"
    "first_packet (delivered (router d) (wa_rx wa)) answer" by blast
  obtain res d' where f: "connect_finish ops wenv (wa_dport wa) (wa_sport wa) (wa_rx wa) answer d = (res, d')"
    by fastforce
  show ?thesis
  proof (cases res)
    case (Inl e)
    with fails [OF d(1,2)] f d show ?thesis by (simp add: finish_turn_def)
  next
    case (Inr n)
    with f connect_finish_answered obtain p where "answer = Received p" by metis
    with d(3) have "delivered (router d) (wa_rx wa) \<noteq> []" by simp
    with joins [OF d(1,2)] f d Inr show ?thesis by (simp add: finish_turn_def)
  qed
qed

lemma sys_inv_finished:
  assumes "sys_inv s" and "sy_waiting s k = Some wa" and "connected (sy_world s) (wa_device wa) = Some (Usb d)"
    and "connect_finish ops wenv (wa_dport wa) (wa_sport wa) (wa_rx wa) answer d = (res, d')"
  shows "sys_inv (s\<lparr>sy_world := table_insert (wa_device wa) (Usb d') (sy_world s), sy_waiting := (sy_waiting s)(k := None)\<rparr>)"
    and "waiting_ok d (wa_sport wa) (wa_rx wa)"
proof -
  show wo: "waiting_ok d (wa_sport wa) (wa_rx wa)"
    using sys_inv_waiter [OF assms(1,2)] assms(3) by (simp add: waiter_ok_def)
  have ok: "usb_ok d" using sys_inv_usb [OF assms(1,3)] .
  then have di: "device_inv d" by (simp add: usb_ok_def)
  have "sys_inv \<lparr>sy_world = table_insert (wa_device wa) (Usb d') (sy_world s), sy_clients = sy_clients s,
      sy_waiting = (sy_waiting s)(k := None)\<rparr>"
  proof (rule sys_inv_entry [OF assms(1,3) finish_evolves [OF assms(4) di wo] usb_ok_finish [OF assms(4) ok wo]])
    show "wa_rx wa' \<notin> {wa_rx wa}" if "((sy_waiting s)(k := None)) k' = Some wa'" "wa_device wa' = wa_device wa" for k' wa'
      using sys_inv_waiters_alone [OF assms(1,2), of k' wa'] that by (auto split: if_splits)
  qed (auto simp: map_le_def)
  then show "sys_inv (s\<lparr>sy_world := table_insert (wa_device wa) (Usb d') (sy_world s), sy_waiting := (sy_waiting s)(k := None)\<rparr>)"
    by (cases s) simp
qed

lemma sys_inv_finish:
  assumes "sys_inv s"
  shows "sys_inv (finish_turn ops wenv answer k s)"
proof (cases rule: finish_turn_cases [of ops wenv answer k s])
  case same
  with assms show ?thesis by simp
next
  case (fails wa d d' e)
  with sys_inv_finished(1) [OF assms fails(1-3)] show ?thesis by simp
next
  case (joins wa d d' n)
  let ?s = "s\<lparr>sy_world := table_insert (wa_device wa) (Usb d') (sy_world s), sy_waiting := (sy_waiting s)(k := None)\<rparr>"
  note fin = sys_inv_finished [OF assms joins(1-3)]
  have di: "device_inv d" using sys_inv_usb [OF assms joins(2)] by (simp add: usb_ok_def)
  note spec = connect_finish_spec [OF joins(3) di fin(2)]
  obtain c where c: "heap d n = None" "heap d' n = Some c" using spec(4) [of n] by auto
  then have "conn_rx c = wa_rx wa" using spec(3) by fastforce
  with joins(4) spec(1) have sv: "serves d' c (new_client (wa_device wa) n (wa_reads wa))"
    by (intro serves_new c) simp
  have free: "sv_conn sv \<noteq> n" if "sy_clients s k' = Some sv" "sv_device sv = wa_device wa" for k' sv
    using sys_inv_client [OF assms that(1)] that(2) joins(2) c(1) by (auto simp: client_ok_def serves_def)
  have "sys_inv (?s\<lparr>sy_clients := (sy_clients ?s)(k \<mapsto> new_client (wa_device wa) n (wa_reads wa))\<rparr>)"
    by (rule sys_inv_add_client [OF fin(1)])
      (use sv free in \<open>auto simp: client_ok_def new_client_def\<close>)
  then show ?thesis unfolding joins(5) by (cases s) simp
qed

lemma sendable_served:
  assumes "usb_ok d" and "serves d c sv"
  shows "sendable_bytes (px_conn (proxy_of d c sv)) \<le> MAX_PACKET_PAYLOAD_SIZE"
  using assms unfolding usb_ok_def serves_def by (simp del: MAX_PACKET_PAYLOAD_SIZE_val add: proxy_of_def) blast

text \<open>A turn that goes on keeps the account of its client.\<close>

lemma upstream_turn:
  assumes "tcp_laws ops" and "usb_ok d" and "serves d c sv"
    and "proxy_step ops wenv wr ev (proxy_of d c sv) = (None, px)"
  shows "upstream_ok (px_queue px) (conn_source_port c) (sv_update d ev px sv)"
proof -
  from proxy_step_accounts [OF assms(1) sendable_served [OF assms(2,3)] assms(4)]
  obtain ps taken where a: "px_queue px = w_queue d @ ps" "sv_reads sv = taken @ px_reads px"
    "sv_buf sv @ concat (map read_bytes taken) = concat (map pkt_bytes ps) @ px_buf px"
    by (auto simp: accounts_def proxy_of_def)
  obtain ps' where "px_queue px = w_queue d @ ps'" "\<forall>p \<in> set ps'. from_port (conn_source_port c) p"
    using turn_queues [OF assms(1,4)] by (auto simp: proxy_of_def)
  with a(1) have ports: "\<forall>p \<in> set ps. from_port (conn_source_port c) p" by simp
  have up: "upstream_ok (w_queue d) (conn_source_port c) sv" using assms(3) by (simp add: serves_def)
  have "subseq (sv_queued sv @ ps) (w_queue d @ ps)"
    using up by (intro list_emb_append_mono) (auto simp: upstream_ok_def)
  with up a ports show ?thesis by (auto simp: upstream_ok_def sv_update_def)
qed

lemma ready_out:
  assumes "tcp_laws ops" and "sendable_bytes (px_conn px) \<le> MAX_PACKET_PAYLOAD_SIZE"
    and "proxy_step ops wenv wr ev px = (None, px')"
  shows "concat (px_out px') = concat (px_out px) @ concat (map pkt_bytes (received [ev]))
     \<and> (\<forall>p. taken_packet ev = Some p \<longrightarrow> received [ev] = [] \<or> received [ev] = [p])
     \<and> (taken_packet ev = None \<longrightarrow> received [ev] = [])"
proof (cases ev)
  case (DeviceReady answer)
  with device_ready_accounts(2) [OF assms(1,2)] assms(3) show ?thesis by fastforce
next
  case ClientReady
  with client_ready_accounts [OF assms(1,2)] assms(3) show ?thesis by auto
qed (use assms(3) in auto)

lemma subseq_take_step:
  assumes "subseq xs (take n ch)" and "n < length ch" and "ys = [] \<or> ys = [ch ! n]"
  shows "subseq (xs @ ys) (take (Suc n) ch)"
proof -
  have "subseq ys [ch ! n]" using assms(3) by auto
  with assms(1) have "subseq (xs @ ys) (take n ch @ [ch ! n])" by (rule list_emb_append_mono)
  then show ?thesis using assms(2) by (simp add: take_Suc_conv_app_nth)
qed

lemma downstream_turn:
  assumes "tcp_laws ops" and "usb_ok d" and "serves d c sv"
    and "proxy_step ops wenv wr ev (proxy_of d c sv) = (None, px)"
    and "channel_gives (delivered (router d) (conn_rx c)) (sv_taken sv) ev"
  shows "downstream_ok (delivered (router d) (conn_rx c)) (sv_update d ev px sv)"
proof -
  note out = ready_out [OF assms(1) sendable_served [OF assms(2,3)] assms(4)]
  have down: "downstream_ok (delivered (router d) (conn_rx c)) sv" using assms(3) by (simp add: serves_def)
  show ?thesis
  proof (cases "taken_packet ev")
    case None
    with out down show ?thesis by (simp add: downstream_ok_def sv_update_def proxy_of_def)
  next
    case (Some p)
    with assms(5) have "sv_taken sv < length (delivered (router d) (conn_rx c))"
      "p = delivered (router d) (conn_rx c) ! sv_taken sv" by (simp_all add: channel_gives_def)
    moreover have "subseq (sv_received sv @ received [ev]) (take (Suc (sv_taken sv)) (delivered (router d) (conn_rx c)))"
      by (rule subseq_take_step) (use Some out down calculation in \<open>auto simp: downstream_ok_def\<close>)
    ultimately show ?thesis using Some out down by (simp add: downstream_ok_def sv_update_def proxy_of_def)
  qed
qed

lemma serves_turn:
  assumes "tcp_laws ops" and "usb_ok d" and "serves d c sv"
    and "proxy_step ops wenv wr ev (proxy_of d c sv) = (None, px)"
    and "channel_gives (delivered (router d) (conn_rx c)) (sv_taken sv) ev"
  shows "serves (put_back (sv_conn sv) px d) (px_conn px) (sv_update d ev px sv)"
proof -
  have keeps: "conn_rx (px_conn px) = conn_rx c" "conn_source_port (px_conn px) = conn_source_port c"
    using turn_keeps [OF assms(4)] by (simp_all add: proxy_of_def)
  obtain rt where "px_router px = Some rt" "delivered rt = delivered (router d)"
    using turn_router [OF assms(4)] by (auto simp: proxy_of_def)
  with upstream_turn [OF assms(1-4)] downstream_turn [OF assms] keeps show ?thesis
    by (simp add: serves_def put_back_def sv_update_def)
qed

lemma serve_turn_on:
  assumes "sy_clients s k = Some sv" and "connected (sy_world s) (sv_device sv) = Some (Usb d)"
    and "heap d (sv_conn sv) = Some c" and "channel_gives (delivered (router d) (conn_rx c)) (sv_taken sv) ev"
    and "proxy_step ops wenv wr ev (proxy_of d c sv) = (None, px)"
  shows "serve_turn ops wenv wr ev k s =
     s\<lparr>sy_world := table_insert (sv_device sv) (Usb (put_back (sv_conn sv) px d)) (sy_world s),
       sy_clients := (sy_clients s)(k := Some (sv_update d ev px sv))\<rparr>"
  using assms by (simp add: serve_turn_def)

lemma serve_turn_over:
  assumes "sy_clients s k = Some sv" and "connected (sy_world s) (sv_device sv) = Some (Usb d)"
    and "heap d (sv_conn sv) = Some c" and "channel_gives (delivered (router d) (conn_rx c)) (sv_taken sv) ev"
    and "proxy_step ops wenv wr ev (proxy_of d c sv) = (Some r, px)"
  shows "serve_turn ops wenv wr ev k s =
     s\<lparr>sy_world := table_insert (sv_device sv)
         (Usb (release ops wenv (sv_conn sv) (put_back (sv_conn sv) px d))) (sy_world s),
       sy_clients := (sy_clients s)(k := None)\<rparr>"
  using assms by (simp add: serve_turn_def)

text \<open>The cases of a turn: it changes nothing, it goes on, or the connection ends.\<close>

lemma serve_turn_cases:
  obtains (same) "serve_turn ops wenv wr ev k s = s"
  | (goes_on) sv d c px where "sy_clients s k = Some sv" "connected (sy_world s) (sv_device sv) = Some (Usb d)"
      "heap d (sv_conn sv) = Some c" "channel_gives (delivered (router d) (conn_rx c)) (sv_taken sv) ev"
      "proxy_step ops wenv wr ev (proxy_of d c sv) = (None, px)"
      "serve_turn ops wenv wr ev k s =
         s\<lparr>sy_world := table_insert (sv_device sv) (Usb (put_back (sv_conn sv) px d)) (sy_world s),
           sy_clients := (sy_clients s)(k := Some (sv_update d ev px sv))\<rparr>"
  | (ends) sv d c r px where "sy_clients s k = Some sv" "connected (sy_world s) (sv_device sv) = Some (Usb d)"
      "heap d (sv_conn sv) = Some c" "proxy_step ops wenv wr ev (proxy_of d c sv) = (Some r, px)"
      "serve_turn ops wenv wr ev k s =
         s\<lparr>sy_world := table_insert (sv_device sv)
             (Usb (release ops wenv (sv_conn sv) (put_back (sv_conn sv) px d))) (sy_world s),
           sy_clients := (sy_clients s)(k := None)\<rparr>"
proof (cases "sy_clients s k")
  case None
  with same show ?thesis by (simp add: serve_turn_def)
next
  case (Some sv)
  show ?thesis
  proof (cases "\<exists>d c. connected (sy_world s) (sv_device sv) = Some (Usb d) \<and> heap d (sv_conn sv) = Some c
      \<and> channel_gives (delivered (router d) (conn_rx c)) (sv_taken sv) ev")
    case False
    with Some have "serve_turn ops wenv wr ev k s = s"
      by (auto simp: serve_turn_def split: option.splits Device.splits)
    with same show ?thesis .
  next
    case True
    then obtain d c where d: "connected (sy_world s) (sv_device sv) = Some (Usb d)" "heap d (sv_conn sv) = Some c"
      "channel_gives (delivered (router d) (conn_rx c)) (sv_taken sv) ev" by blast
    obtain r px where st: "proxy_step ops wenv wr ev (proxy_of d c sv) = (r, px)" by fastforce
    show ?thesis
    proof (cases r)
      case None
      with goes_on [OF Some d] st serve_turn_on [OF Some d] show ?thesis by simp
    next
      case r: (Some x)
      with ends [OF Some d(1,2)] st serve_turn_over [OF Some d] show ?thesis by simp
    qed
  qed
qed

lemma sys_inv_serve:
  assumes "tcp_laws ops" and "sys_inv s"
  shows "sys_inv (serve_turn ops wenv wr ev k s)"
proof (cases rule: serve_turn_cases [of ops wenv wr ev k s])
  case same
  with assms(2) show ?thesis by simp
next
  case (goes_on sv d c px)
  let ?d = "put_back (sv_conn sv) px d" and ?sv = "sv_update d ev px sv"
  have ok: "usb_ok d" using sys_inv_usb [OF assms(2) goes_on(2)] .
  have sv: "serves d c sv"
    using sys_inv_client [OF assms(2) goes_on(1)] goes_on(2,3) by (auto simp: client_ok_def serves_def)
  have same: "sv_device ?sv = sv_device sv" "sv_conn ?sv = sv_conn sv" by (simp_all add: sv_update_def)
  let ?s = "\<lparr>sy_world = table_insert (sv_device sv) (Usb ?d) (sy_world s), sy_clients = (sy_clients s)(k := None),
      sy_waiting = sy_waiting s\<rparr>"
  have "sys_inv ?s"
    by (rule sys_inv_entry [OF assms(2) goes_on(2) put_back_evolves [OF assms(1) goes_on(5,3)]
          usb_ok_turn [OF assms(1) ok goes_on(3,5)]])
      (use sys_inv_alone [OF assms(2) goes_on(1)] in \<open>auto simp: map_le_def split: if_splits\<close>)
  then have "sys_inv (?s\<lparr>sy_clients := (sy_clients ?s)(k \<mapsto> ?sv)\<rparr>)"
    by (rule sys_inv_add_client)
      (use serves_turn [OF assms(1) ok sv goes_on(5,4)] sys_inv_alone [OF assms(2) goes_on(1)] same in
        \<open>auto simp: client_ok_def split: if_splits\<close>)
  then show ?thesis unfolding goes_on(6) by (cases s) simp
next
  case (ends sv d c r px)
  have ok: "usb_ok d" using sys_inv_usb [OF assms(2) ends(2)] .
  note ev = evolves_trans [OF put_back_evolves [OF assms(1) ends(4,3)] release_evolves(1)]
  have "sys_inv \<lparr>sy_world = table_insert (sv_device sv)
      (Usb (release ops wenv (sv_conn sv) (put_back (sv_conn sv) px d))) (sy_world s),
      sy_clients = (sy_clients s)(k := None), sy_waiting = sy_waiting s\<rparr>"
    by (rule sys_inv_entry [OF assms(2) ends(2) ev usb_ok_release [OF usb_ok_turn [OF assms(1) ok ends(3,4)]]])
      (use sys_inv_alone [OF assms(2) ends(1)] in \<open>auto simp: map_le_def split: if_splits\<close>)
  then show ?thesis unfolding ends(5) by (cases s) simp
qed

lemma keep_sub:
  "keep dev_of w w' m \<subseteq>\<^sub>m m"
  "keep dev_of w w' m k = Some x \<Longrightarrow> connected w' (dev_of x) = connected w (dev_of x)"
  by (auto simp: keep_def map_le_def split: option.splits if_splits)

lemma sys_inv_watch:
  assumes "sys_inv s" and "watch_any env (sy_world s) w'"
  shows "sys_inv (watch_turn w' s)"
proof -
  have "usb_ok d" if "connected w' i = Some (Usb d)" for i d
    using that watch_any_entries [OF assms(2)] sys_inv_usb [OF assms(1), of i d]
    by (metis entries_fresh_def fresh_entry.simps(1))
  moreover have "all_ok (client_ok w') (\<lambda>sv. (sv_device sv, sv_conn sv)) (keep sv_device (sy_world s) w' (sy_clients s))"
  proof (rule all_ok_sub [OF _ keep_sub(1)])
    show "all_ok (client_ok (sy_world s)) (\<lambda>sv. (sv_device sv, sv_conn sv)) (sy_clients s)"
      using assms(1) by (simp add: sys_inv_def)
    show "client_ok w' sv" if "keep sv_device (sy_world s) w' (sy_clients s) k = Some sv" "client_ok (sy_world s) sv" for k sv
      using keep_sub(2) [OF that(1)] that(2) by (simp add: client_ok_def)
  qed
  moreover have "all_ok (waiter_ok w') (\<lambda>wa. (wa_device wa, wa_rx wa)) (keep wa_device (sy_world s) w' (sy_waiting s))"
  proof (rule all_ok_sub [OF _ keep_sub(1)])
    show "all_ok (waiter_ok (sy_world s)) (\<lambda>wa. (wa_device wa, wa_rx wa)) (sy_waiting s)"
      using assms(1) by (simp add: sys_inv_def)
    show "waiter_ok w' wa" if "keep wa_device (sy_world s) w' (sy_waiting s) k = Some wa" "waiter_ok (sy_world s) wa" for k wa
      using keep_sub(2) [OF that(1)] that(2) by (simp add: waiter_ok_def)
  qed
  ultimately show ?thesis by (simp add: sys_inv_def watch_turn_def)
qed

lemma sys_inv_step:
  assumes "tcp_laws (env_ops env)" and "sys_inv s" and "system_step env s s'"
  shows "sys_inv s'"
  using assms(3)
proof cases
  case (sys_begin k i port reads)
  then show ?thesis using sys_inv_begin [OF assms(2)] by simp
next
  case (sys_finish answer k)
  then show ?thesis using sys_inv_finish [OF assms(2)] by simp
next
  case (sys_serve wr ev k)
  then show ?thesis using sys_inv_serve [OF assms(1,2)] by simp
next
  case (sys_task i d d')
  have "usb_ok d" using sys_inv_usb [OF assms(2) sys_task(2)] .
  moreover from this have "device_inv d" by (simp add: usb_ok_def)
  ultimately show ?thesis
    using sys_inv_device [OF assms(2) sys_task(2)] task_evolves [OF sys_task(3)] usb_ok_task [OF sys_task(3)] sys_task(1)
    by blast
next
  case (sys_watch w')
  then show ?thesis using sys_inv_watch [OF assms(2)] by simp
qed

definition system_start :: "system \<Rightarrow> bool" where
  "system_start s \<longleftrightarrow> connected (sy_world s) = Map.empty \<and> sy_clients s = Map.empty \<and> sy_waiting s = Map.empty"

interpretation sys_machine: machine system_start "\<lambda>s t. tcp_laws (env_ops env) \<and> system_step env s t" sys_inv for env
proof unfold_locales
  show "system_start s \<Longrightarrow> sys_inv s" for s by (simp add: system_start_def sys_inv_def all_ok_empty)
  show "sys_inv s \<Longrightarrow> tcp_laws (env_ops env) \<and> system_step env s t \<Longrightarrow> sys_inv t" for s t
    using sys_inv_step by blast
qed

lemma sys_reach:
  assumes "tcp_laws (env_ops env)" and "system_start s" and "(system_step env)\<^sup>*\<^sup>* s t"
  shows "sys_inv t"
proof -
  have "(\<lambda>s t. tcp_laws (env_ops env) \<and> system_step env s t)\<^sup>*\<^sup>* s t"
    using assms(3) by (rule rtranclp_mono [THEN predicate2D, rotated]) (use assms(1) in auto)
  with assms(2) show ?thesis by (rule sys_machine.reach_inv)
qed

end
