(* ===== verification/Sessions.thy ===== *)
theory Sessions
  imports System_Inv
begin

text \<open>
  What holds of the whole daemon of \<^verbatim>\<open>System\<close> in every state it reaches: the clients connected to
  devices are isolated from each other, their bytes are queued in order, turns of one leave the
  others alone, and the turns of one client add up to the loop of \<^verbatim>\<open>src/handler/connect.rs\<close>.
\<close>

section \<open>Properties of the whole daemon\<close>

lemma subseq_taken: "subseq xs (take n ch) \<Longrightarrow> subseq xs ch"
  by (rule subseq_order.trans [OF _ prefix_imp_subseq [OF take_is_prefix]])

lemma subseq_members: "subseq xs ys \<Longrightarrow> set xs \<subseteq> set ys"
  by (auto dest: list_emb_set)

text \<open>
  C5. Isolation of clients: however both parts of handshakes, turns of clients, packets of devices and events of
  the watchers interleave, what has been written to a connected client is exactly the payloads of
  packets its device addressed to the source port of its own connection, each at most once and in
  the order they arrived on its channel; and no other client of the device, connected or still
  waiting for its handshake to be answered, shares that channel.
\<close>
theorem system_isolation:
  assumes "tcp_laws (env_ops env)" and "system_start s" and "(system_step env)\<^sup>*\<^sup>* s t"
    and "sy_clients t k = Some sv"
  shows "\<exists>d c. connected (sy_world t) (sv_device sv) = Some (Usb d) \<and> heap d (sv_conn sv) = Some c
     \<and> concat (sv_out sv) = concat (map pkt_bytes (sv_received sv))
     \<and> subseq (sv_received sv) (delivered (router d) (conn_rx c))
     \<and> (\<forall>p \<in> set (sv_received sv). route_port p = conn_source_port c)
     \<and> (\<forall>k' sv' c'. sy_clients t k' = Some sv' \<and> k' \<noteq> k \<and> sv_device sv' = sv_device sv
          \<and> heap d (sv_conn sv') = Some c' \<longrightarrow> conn_rx c' \<noteq> conn_rx c)
     \<and> (\<forall>k' wa. sy_waiting t k' = Some wa \<and> wa_device wa = sv_device sv \<longrightarrow> wa_rx wa \<noteq> conn_rx c)"
proof -
  have inv: "sys_inv t" using assms(1-3) by (rule sys_reach)
  then have "client_ok (sy_world t) sv" using assms(4) by (rule sys_inv_client)
  then obtain d c where d: "connected (sy_world t) (sv_device sv) = Some (Usb d)" "serves d c sv"
    unfolding client_ok_def by blast
  then have c: "heap d (sv_conn sv) = Some c" and down: "downstream_ok (delivered (router d) (conn_rx c)) sv"
    by (simp_all add: serves_def)
  have di: "device_inv d" using sys_inv_usb [OF inv d(1)] by (simp add: usb_ok_def)
  then have "conn_ok (router d) c" using c by (simp add: device_inv_def)
  then have own: "\<forall>p \<in> set (delivered (router d) (conn_rx c)). route_port p = conn_source_port c"
    by (simp add: conn_ok_def)
  have apart: "m = sv_conn sv" if "heap d m = Some c'" "conn_rx c' = conn_rx c" for m c'
    using di that c unfolding device_inv_def own_channels_def by blast
  have sub: "subseq (sv_received sv) (delivered (router d) (conn_rx c))"
    using down unfolding downstream_ok_def by (blast intro: subseq_taken)
  have ports: "\<forall>p \<in> set (sv_received sv). route_port p = conn_source_port c"
    using own subseq_members [OF sub] by blast
  have "\<forall>k' sv' c'. sy_clients t k' = Some sv' \<and> k' \<noteq> k \<and> sv_device sv' = sv_device sv
      \<and> heap d (sv_conn sv') = Some c' \<longrightarrow> conn_rx c' \<noteq> conn_rx c"
  proof (intro allI impI notI)
    fix k' sv' c'
    assume s: "sy_clients t k' = Some sv' \<and> k' \<noteq> k \<and> sv_device sv' = sv_device sv \<and> heap d (sv_conn sv') = Some c'"
      and "conn_rx c' = conn_rx c"
    with apart have "sv_conn sv' = sv_conn sv" by blast
    with s sys_inv_alone [OF inv assms(4), of k' sv'] show False by simp
  qed
  moreover have "concat (sv_out sv) = concat (map pkt_bytes (sv_received sv))"
    using down by (simp add: downstream_ok_def)
  moreover have "\<forall>k' wa. sy_waiting t k' = Some wa \<and> wa_device wa = sv_device sv \<longrightarrow> wa_rx wa \<noteq> conn_rx c"
    using sys_inv_waiter [OF inv] d(1) c by (fastforce simp: waiter_ok_def waiting_ok_def)
  ultimately show ?thesis using d(1) c sub ports by (intro exI [of _ d] exI [of _ c] conjI)
qed

text \<open>
  A phone is plugged in, a client connects, the phone answers, a packet arrives for the client, and
  it sends three bytes.
\<close>

definition sample_daemon :: daemon_env where
  "sample_daemon = sample_env\<lparr>env_walk := (\<lambda>_. [])\<rparr>"

definition sample_plugged :: system where
  "sample_plugged = \<lparr>sy_world = table_insert 3 (Usb (set_disconnected_tx
     (fresh_device (Nusb sample_nusb) 3 (version_new 2 0 0)))) sample_world, sy_clients = Map.empty,
     sy_waiting = Map.empty\<rparr>"

definition sample_answer :: "u16 \<Rightarrow> UsbDevicePacket" where
  "sample_answer sp = control_packet rfc_ops ACK 62078 sp 0 0"

definition sample_reply :: UsbDevicePacket where
  "sample_reply = data_packet rfc_ops (conn_new_from 3 1 62078 0 0 512 0 0) [9]"

text \<open>The phone sends a packet; a client connects to it, and the phone answers.\<close>

definition sample_deliver :: "UsbDevicePacket \<Rightarrow> system \<Rightarrow> system" where
  "sample_deliver p s = s\<lparr>sy_world := table_insert 3
     (case connected (sy_world s) 3 of Some (Usb d) \<Rightarrow>
        (case handle_packet open_env p d of Inr d' \<Rightarrow> Usb d' | Inl _ \<Rightarrow> Usb d)
      | Some d \<Rightarrow> d) (sy_world s)\<rparr>"

definition sample_begun :: "(io_error + bytes) list \<Rightarrow> nat \<Rightarrow> system \<Rightarrow> system" where
  "sample_begun reads k s = begin_turn rfc_ops (open_env 0) 3 62078 reads k s"

definition sample_connect :: "u16 \<Rightarrow> (io_error + bytes) list \<Rightarrow> nat \<Rightarrow> system \<Rightarrow> system" where
  "sample_connect sp reads k s = finish_turn rfc_ops (open_env 0) (Received (sample_answer sp)) k
     (sample_deliver (sample_answer sp) (sample_begun reads k s))"

definition sample_joined :: system where
  "sample_joined = sample_connect 1 [Inr [1, 2, 3]] 0 sample_plugged"

definition sample_arrived :: system where
  "sample_arrived = sample_deliver sample_reply sample_joined"

definition sample_system :: system where
  "sample_system = serve_turn rfc_ops (open_env 0) (\<lambda>_ _. None) (DeviceReady (Received sample_reply)) 0
     (serve_turn rfc_ops (open_env 0) (\<lambda>_ _. None) ClientReady 0 sample_arrived)"

lemma sample_answer_facts:
  obtains t where "tcp_hdr (sample_answer sp) = Some t" "window_size t = 512" "acknowledgment_number t = 0"
    "route_port (sample_answer sp) = sp" "\<not> is_rst (sample_answer sp)"
proof -
  obtain t where t: "tcp_hdr (sample_answer sp) = Some t" "window_size t = 512" "acknowledgment_number t = 0"
    "destination_port t = sp" "rst t = flags_contains ACK RST"
    using control_packet_shape(4) [OF rfc_ops_laws, of ACK 62078 sp 0 0] unfolding sample_answer_def by blast
  then show thesis by (intro that [of t]) (simp_all add: route_port_def is_rst_def flags_contains_def ACK_def RST_def)
qed

lemma table_insert_again [simp]: "table_insert i a (table_insert i b w) = table_insert i a w"
  by (simp add: table_insert_def)

lemma sample_deliver_usb:
  assumes "connected (sy_world s) 3 = Some (Usb d)"
  shows "sample_deliver p s = s\<lparr>sy_world := table_insert 3 (Usb (d\<lparr>recv_seq := recv_seq d + 1,
     router := (router d)\<lparr>delivered := (\<lambda>c. delivered (router d) c
       @ (if \<not> is_rst p \<and> conns (router d) (route_port p) = Some c then [p] else []))\<rparr>\<rparr>)) (sy_world s)\<rparr>"
    and "system_step env s (sample_deliver p s)"
proof -
  have all_sent: "\<forall>c h m. ch_send (open_env c) h m = Sent" by (simp add: open_env_def)
  note h = handle_packet_open [OF all_sent, of p d]
  with assms show "sample_deliver p s = s\<lparr>sy_world := table_insert 3 (Usb (d\<lparr>recv_seq := recv_seq d + 1,
     router := (router d)\<lparr>delivered := (\<lambda>c. delivered (router d) c
       @ (if \<not> is_rst p \<and> conns (router d) (route_port p) = Some c then [p] else []))\<rparr>\<rparr>)) (sy_world s)\<rparr>"
    by (simp add: sample_deliver_def)
  from sys_task [OF assms task_read [OF h]] show "system_step env s (sample_deliver p s)"
    using h assms by (simp add: sample_deliver_def)
qed

lemma sample_begun_facts:
  assumes "connected (sy_world s) 3 = Some (Usb d)" and "next_source_port d \<noteq> 0"
  obtains d' where "sample_begun reads k s = s\<lparr>sy_world := table_insert 3 (Usb d') (sy_world s),
      sy_waiting := (sy_waiting s)(k \<mapsto> \<lparr>wa_device = 3, wa_dport = 62078, wa_sport = next_source_port d,
        wa_rx = next_chan (router d), wa_reads = reads\<rparr>)\<rparr>"
    "router d' = snd (register (next_source_port d) (router d))" "heap d' = heap d" "next_conn d' = next_conn d"
    "next_source_port d' = next_source_port d + 1"
proof -
  obtain res d' where b: "connect_begin rfc_ops (open_env 0) 62078 d = (res, d')" by fastforce
  then have "res = Inr (next_source_port d, next_chan (router d)) \<and> heap d' = heap d \<and> next_conn d' = next_conn d
      \<and> router d' = snd (register (next_source_port d) (router d)) \<and> next_source_port d' = next_source_port d + 1"
    using assms(2) by (auto simp: connect_begin_def get_next_source_port_def register_def conn_syn_def open_env_def Let_def)
  with b assms(1) show thesis by (intro that [of d']) (auto simp: sample_begun_def begin_turn_def)
qed

lemma sample_connect_facts:
  assumes "connected (sy_world s) 3 = Some (Usb d)" and "next_source_port d = sp" and "sp \<noteq> 0"
    and "delivered (router d) (next_chan (router d)) = []"
  obtains d' c where "sample_connect sp reads k s = s\<lparr>sy_world := table_insert 3 (Usb d') (sy_world s),
      sy_clients := (sy_clients s)(k \<mapsto> new_client 3 (next_conn d) reads), sy_waiting := (sy_waiting s)(k := None)\<rparr>"
    "heap d' = (heap d)(next_conn d \<mapsto> c)" "conn_source_port c = sp" "conn_rx c = next_chan (router d)"
    "3 \<le> sendable_bytes c" "conns (router d') = (conns (router d))(sp \<mapsto> next_chan (router d))"
    "delivered (router d') (next_chan (router d)) = [sample_answer sp]"
    "\<And>ch. ch \<noteq> next_chan (router d) \<Longrightarrow> delivered (router d') ch = delivered (router d) ch"
    "next_chan (router d') = Suc (next_chan (router d))" "next_source_port d' = sp + 1"
proof -
  have "next_source_port d \<noteq> 0" using assms by simp
  from sample_begun_facts [OF assms(1) this, of reads k] obtain d1 where
    b: "sample_begun reads k s = s\<lparr>sy_world := table_insert 3 (Usb d1) (sy_world s),
      sy_waiting := (sy_waiting s)(k \<mapsto> \<lparr>wa_device = 3, wa_dport = 62078, wa_sport = sp,
        wa_rx = next_chan (router d), wa_reads = reads\<rparr>)\<rparr>"
    "router d1 = snd (register sp (router d))" "heap d1 = heap d" "next_conn d1 = next_conn d"
    "next_source_port d1 = sp + 1" unfolding assms(2) by blast
  obtain t where t: "tcp_hdr (sample_answer sp) = Some t" "window_size t = 512" "acknowledgment_number t = 0"
    "route_port (sample_answer sp) = sp" "\<not> is_rst (sample_answer sp)" by (rule sample_answer_facts)
  let ?d = "d1\<lparr>recv_seq := recv_seq d1 + 1, router := (router d1)\<lparr>delivered := (\<lambda>c. delivered (router d1) c
       @ (if \<not> is_rst (sample_answer sp) \<and> conns (router d1) (route_port (sample_answer sp)) = Some c
          then [sample_answer sp] else []))\<rparr>\<rparr>"
  have "connected (sy_world (sample_begun reads k s)) 3 = Some (Usb d1)" by (simp add: b)
  note del = sample_deliver_usb(1) [OF this, of "sample_answer sp"]
  obtain res d2 where f: "connect_finish rfc_ops (open_env 0) 62078 sp (next_chan (router d)) (Received (sample_answer sp)) ?d
      = (res, d2)" by fastforce
  have "calc_sendable_bytes 0 512 0 = 49116" by (simp add: calc_sendable_eq)
  with f obtain c where c: "res = Inr (next_conn d)" "heap d2 = (heap d)(next_conn d \<mapsto> c)" "conn_source_port c = sp"
    "conn_rx c = next_chan (router d)" "sendable_bytes c = 49116" "router d2 = router ?d" "next_source_port d2 = sp + 1"
    by (auto simp: connect_finish_def conn_syn_ack_def add_conn_def Let_def open_env_def t b)
  have "sample_connect sp reads k s = s\<lparr>sy_world := table_insert 3 (Usb d2) (sy_world s),
      sy_clients := (sy_clients s)(k \<mapsto> new_client 3 (next_conn d) reads), sy_waiting := (sy_waiting s)(k := None)\<rparr>"
    using f c(1) assms(4) by (simp add: sample_connect_def del, simp add: b finish_turn_def register_def t)
  with c show thesis
    by (intro that [of d2 c]) (auto simp: b register_def t assms(4))
qed

text \<open>The phone with the client's connection; the three bytes fit its window.\<close>

lemma sample_joined_facts:
  obtains d c where "sample_joined = \<lparr>sy_world = table_insert 3 (Usb d) sample_world,
      sy_clients = [0 \<mapsto> new_client 3 0 [Inr [1, 2, 3]]], sy_waiting = Map.empty\<rparr>"
    "heap d 0 = Some c" "conn_source_port c = 1" "conn_rx c = 0" "0 < sendable_bytes c" "3 \<le> sendable_bytes c"
    "conns (router d) = [1 \<mapsto> 0]" "delivered (router d) = (\<lambda>_. [])(0 := [sample_answer 1])" "next_source_port d = 2"
    "next_chan (router d) = 1"
proof -
  let ?d = "set_disconnected_tx (fresh_device (Nusb sample_nusb) 3 (version_new 2 0 0))"
  have d: "connected (sy_world sample_plugged) 3 = Some (Usb ?d)" "next_source_port ?d = 1" "next_conn ?d = 0"
    "router ?d = router_new" "heap ?d = Map.empty"
    by (simp_all add: sample_plugged_def set_disconnected_tx_def fresh_device_def)
  have r: "delivered (router ?d) (next_chan (router ?d)) = []" by (simp add: d router_new_def)
  show thesis
  proof (rule sample_connect_facts [OF d(1,2) _ r])
    show "(1::u16) \<noteq> 0" by simp
  next
    fix d' c
    assume a: "sample_connect 1 [Inr [1, 2, 3]] 0 sample_plugged = sample_plugged\<lparr>sy_world := table_insert 3 (Usb d')
        (sy_world sample_plugged), sy_clients := (sy_clients sample_plugged)(0 \<mapsto> new_client 3 (next_conn ?d) [Inr [1, 2, 3]]),
        sy_waiting := (sy_waiting sample_plugged)(0 := None)\<rparr>"
      "heap d' = (heap ?d)(next_conn ?d \<mapsto> c)" "conn_source_port c = 1" "conn_rx c = next_chan (router ?d)"
      "3 \<le> sendable_bytes c" "conns (router d') = (conns (router ?d))(1 \<mapsto> next_chan (router ?d))"
      "delivered (router d') (next_chan (router ?d)) = [sample_answer 1]"
      "\<And>ch. ch \<noteq> next_chan (router ?d) \<Longrightarrow> delivered (router d') ch = delivered (router ?d) ch"
      "next_chan (router d') = Suc (next_chan (router ?d))" "next_source_port d' = 1 + 1"
    have "delivered (router d') = (\<lambda>_. [])(0 := [sample_answer 1])"
      using a(7,8) by (auto simp: fun_eq_iff d router_new_def)
    then show thesis using a by (intro that [of d' c]) (auto simp: sample_joined_def sample_plugged_def d router_new_def)
  qed
qed

lemma sample_reply_facts:
  "tcp_hdr sample_reply \<noteq> None" "route_port sample_reply = 1" "\<not> is_rst sample_reply" "pkt_bytes sample_reply = [9]"
  "payload sample_reply = Bytes [9]"
proof -
  let ?c = "conn_new_from 3 1 62078 0 0 512 0 0"
  obtain t where t: "tcp_hdr sample_reply = Some t" "destination_port t = 1" "\<not> rst t"
    using data_packet_fields(3) [OF rfc_ops_laws, of ?c "[9]"] by (auto simp: sample_reply_def conn_new_from_def)
  then show "tcp_hdr sample_reply \<noteq> None" "route_port sample_reply = 1" "\<not> is_rst sample_reply" 
    by (simp_all add: route_port_def is_rst_def)
  show p: "payload sample_reply = Bytes [9]" using data_packet_fields(1) [OF rfc_ops_laws] by (simp add: sample_reply_def)
  then show "pkt_bytes sample_reply = [9]" by (simp add: pkt_bytes_def)
qed

lemma sample_arrived_facts:
  obtains d c where "sample_arrived = \<lparr>sy_world = table_insert 3 (Usb d) sample_world,
      sy_clients = [0 \<mapsto> new_client 3 0 [Inr [1, 2, 3]]], sy_waiting = Map.empty\<rparr>"
    "heap d 0 = Some c" "conn_source_port c = 1" "conn_rx c = 0" "3 \<le> sendable_bytes c"
    "delivered (router d) 0 = [sample_answer 1, sample_reply]"
proof (rule sample_joined_facts)
  fix d c
  assume a: "sample_joined = \<lparr>sy_world = table_insert 3 (Usb d) sample_world,
      sy_clients = [0 \<mapsto> new_client 3 0 [Inr [1, 2, 3]]], sy_waiting = Map.empty\<rparr>" "heap d 0 = Some c"
    "conn_source_port c = 1" "conn_rx c = 0" "3 \<le> sendable_bytes c" "conns (router d) = [1 \<mapsto> 0]"
    "delivered (router d) = (\<lambda>_. [])(0 := [sample_answer 1])"
  have "connected (sy_world sample_joined) 3 = Some (Usb d)" by (simp add: a(1))
  note del = sample_deliver_usb(1) [OF this, of sample_reply]
  let ?d = "d\<lparr>recv_seq := recv_seq d + 1, router := (router d)\<lparr>delivered := (\<lambda>c. delivered (router d) c
       @ (if \<not> is_rst sample_reply \<and> conns (router d) (route_port sample_reply) = Some c then [sample_reply] else []))\<rparr>\<rparr>"
  show thesis
    by (rule that [of ?d c])
      (simp_all add: sample_arrived_def del, simp_all add: a sample_reply_facts)
qed

text \<open>The bytes are sent first, then the packet that has arrived is received.\<close>

lemma sample_first_turn:
  obtains sv d c where "serve_turn rfc_ops (open_env 0) (\<lambda>_ _. None) ClientReady 0 sample_arrived =
      sample_arrived\<lparr>sy_world := table_insert 3 (Usb d) (sy_world sample_arrived), sy_clients := (sy_clients sample_arrived)(0 \<mapsto> sv)\<rparr>"
    "heap d 0 = Some c" "delivered (router d) (conn_rx c) = [sample_answer 1, sample_reply]"
    "sv = (new_client 3 0 [Inr [1, 2, 3]])\<lparr>sv_reads := [], sv_input := [1, 2, 3], sv_queued := sv_queued sv\<rparr>"
proof (rule sample_arrived_facts)
  fix d c
  assume a: "sample_arrived = \<lparr>sy_world = table_insert 3 (Usb d) sample_world,
      sy_clients = [0 \<mapsto> new_client 3 0 [Inr [1, 2, 3]]], sy_waiting = Map.empty\<rparr>"
    "heap d 0 = Some c" "conn_source_port c = 1" "conn_rx c = 0" "3 \<le> sendable_bytes c"
    "delivered (router d) 0 = [sample_answer 1, sample_reply]"
  let ?wr = "\<lambda>_ _. None" and ?sv = "new_client 3 0 [Inr [1, 2, 3]]"
  let ?p1 = "update_sendable_bytes (c\<lparr>sent_bytes := sent_bytes c + 3\<rparr>)" and ?pkt = "data_packet rfc_ops c [1, 2, 3]"
  let ?px = "\<lparr>px_conn = ?p1, px_queue = w_queue d @ [?pkt], px_router = Some (router d), px_buf = [],
    px_reads = [], px_out = []\<rparr>"
  have "payload_len (payload ?pkt) = 3" using data_packet_fields(1) [OF rfc_ops_laws] by simp
  then have step: "proxy_step rfc_ops (open_env 0) ?wr ClientReady (proxy_of d c ?sv) = (None, ?px)"
    using a(5) by (auto simp: proxy_of_def new_client_def client_read_def split_to_def send_bytes_def
        send_packet_def open_env_def Let_def)
  have start: "sy_clients sample_arrived 0 = Some ?sv" "connected (sy_world sample_arrived) (sv_device ?sv) = Some (Usb d)"
    "heap d (sv_conn ?sv) = Some c" "channel_gives (delivered (router d) (conn_rx c)) (sv_taken ?sv) ClientReady"
    unfolding a(1) using a(2) by (simp_all add: new_client_def channel_gives_def)
  show thesis
    by (rule that [of "sv_update d ClientReady ?px ?sv" "put_back 0 ?px d" ?p1])
      (use serve_turn_on [OF start step] a(4,6) in \<open>simp_all add: put_back_def sv_update_def new_client_def\<close>)
qed

lemma sample_system_facts:
  obtains sv d where "sy_clients sample_system = [0 \<mapsto> sv]" "connected (sy_world sample_system) 3 = Some (Usb d)"
    "sv_device sv = 3" "sv_received sv = [sample_reply]" "sv_out sv = [[9]]" "sv_input sv = [1, 2, 3]" "sv_buf sv = []"
proof (rule sample_first_turn)
  fix sv d c
  let ?ev = "DeviceReady (Received sample_reply)"
  define s1 where "s1 = serve_turn rfc_ops (open_env 0) (\<lambda>_ _. None) ClientReady 0 sample_arrived"
  assume s: "serve_turn rfc_ops (open_env 0) (\<lambda>_ _. None) ClientReady 0 sample_arrived =
      sample_arrived\<lparr>sy_world := table_insert 3 (Usb d) (sy_world sample_arrived), sy_clients := (sy_clients sample_arrived)(0 \<mapsto> sv)\<rparr>"
    and d: "heap d 0 = Some c" "delivered (router d) (conn_rx c) = [sample_answer 1, sample_reply]"
    and sv: "sv = (new_client 3 0 [Inr [1, 2, 3]])\<lparr>sv_reads := [], sv_input := [1, 2, 3], sv_queued := sv_queued sv\<rparr>"
  have f: "sv_device sv = 3" "sv_conn sv = 0" "sv_taken sv = 1" "sv_received sv = []" "sv_out sv = []"
    "sv_input sv = [1, 2, 3]" "sv_reads sv = []" "sv_buf sv = []"
    by (subst sv, simp add: new_client_def)+
  obtain px where step: "proxy_step rfc_ops (open_env 0) (\<lambda>_ _. None) ?ev (proxy_of d c sv) = (None, px)"
    "px_out px = [[9]]" "px_reads px = []" "px_buf px = []"
    by (simp add: proxy_of_def recv_def conn_ack_def Let_def open_env_def client_send_def f sample_reply_facts)
  have start: "sy_clients s1 0 = Some sv" "connected (sy_world s1) (sv_device sv) = Some (Usb d)"
    "heap d (sv_conn sv) = Some c" "channel_gives (delivered (router d) (conn_rx c)) (sv_taken sv) ?ev"
    using d by (simp_all add: s1_def s f channel_gives_def)
  have e: "sample_system = s1\<lparr>sy_world := table_insert 3 (Usb (put_back 0 px d)) (sy_world s1),
      sy_clients := (sy_clients s1)(0 \<mapsto> sv_update d ?ev px sv)\<rparr>"
    using serve_turn_on [OF start step(1)] by (simp add: sample_system_def s1_def f)
  have "sy_clients sample_arrived = [0 \<mapsto> new_client 3 0 [Inr [1, 2, 3]]]"
    by (rule sample_arrived_facts) (erule ssubst, simp)
  then show thesis
    by (intro that [of "sv_update d ?ev px sv" "put_back 0 px d"])
      (simp_all add: e s1_def s sv_update_def step f)
qed

definition sample_start :: system where
  "sample_start = \<lparr>sy_world = sample_world, sy_clients = Map.empty, sy_waiting = Map.empty\<rparr>"

lemma sample_daemon_ops: "env_ops sample_daemon = rfc_ops" "env_writer sample_daemon = open_env 0"
  by (simp_all add: sample_daemon_def sample_env_def)

lemma sample_connect_steps:
  assumes "connected (sy_world s) 3 = Some (Usb d)" and "next_source_port d \<noteq> 0"
    and "sy_clients s k = None" and "sy_waiting s k = None"
  shows "(system_step sample_daemon)\<^sup>*\<^sup>* s (sample_connect sp reads k s)"
proof -
  let ?b = "sample_begun reads k s"
  have b: "system_step sample_daemon s ?b"
    using sys_begin [OF assms(3,4), of sample_daemon] by (simp add: sample_daemon_ops sample_begun_def)
  obtain d' where "connected (sy_world ?b) 3 = Some (Usb d')"
    by (rule sample_begun_facts [OF assms(1,2), of reads k]) simp
  from sample_deliver_usb(2) [OF this] have "system_step sample_daemon ?b (sample_deliver (sample_answer sp) ?b)" .
  moreover have "system_step sample_daemon (sample_deliver (sample_answer sp) ?b) (sample_connect sp reads k s)"
    unfolding sample_connect_def
    using sys_finish [of sample_daemon, unfolded sample_daemon_ops] by blast
  ultimately show ?thesis using b by (meson converse_rtranclp_into_rtranclp rtranclp.rtrancl_refl)
qed

lemma sample_joined_reached:
  "system_start sample_start" "(system_step sample_daemon)\<^sup>*\<^sup>* sample_start sample_joined"
proof -
  show "system_start sample_start" by (simp add: system_start_def sample_start_def sample_world_def)
  let ?phone = "fresh_device (Nusb sample_nusb) 3 (version_new 2 0 0)"
  have "usb_connected sample_daemon ?phone 3 sample_world = Ok (sy_world sample_plugged)"
    by (simp add: usb_connected_def devices_def sample_daemon_def sample_plugged_def List.map_filter_def)
  then have "watch_any sample_daemon sample_world (sy_world sample_plugged)"
    by (rule any_plugged [rotated]) (auto simp: opened_def)
  from sys_watch [of sample_daemon sample_start, unfolded sample_start_def system.select_convs, OF this]
  have s1: "system_step sample_daemon sample_start sample_plugged"
    by (simp add: sample_start_def sample_plugged_def watch_turn_def keep_def [abs_def])
  have s2: "(system_step sample_daemon)\<^sup>*\<^sup>* sample_plugged sample_joined"
    unfolding sample_joined_def
    by (rule sample_connect_steps [where d = "set_disconnected_tx (fresh_device (Nusb sample_nusb) 3 (version_new 2 0 0))"])
      (simp_all add: sample_plugged_def set_disconnected_tx_def fresh_device_def)
  from s1 s2 show "(system_step sample_daemon)\<^sup>*\<^sup>* sample_start sample_joined"
    by (rule converse_rtranclp_into_rtranclp)
qed

lemma sample_reached: "(system_step sample_daemon)\<^sup>*\<^sup>* sample_start sample_system"
proof -
  have "\<exists>d. connected (sy_world sample_joined) 3 = Some (Usb d)"
    by (rule sample_joined_facts) (erule ssubst, simp)
  then obtain d where "connected (sy_world sample_joined) 3 = Some (Usb d)" by blast
  then have s3: "system_step sample_daemon sample_joined sample_arrived"
    unfolding sample_arrived_def by (rule sample_deliver_usb(2))
  have s4: "(system_step sample_daemon)\<^sup>*\<^sup>* sample_arrived sample_system"
    unfolding sample_system_def
    using sys_serve [of sample_daemon, unfolded sample_daemon_ops] by (meson converse_rtranclp_into_rtranclp rtranclp.rtrancl_refl)
  from sample_joined_reached(2) s3 s4 show ?thesis
    by (meson rtranclp.rtrancl_into_rtrancl rtranclp_trans)
qed

theorem system_isolation_witness:
  "\<exists>sv d c. sy_clients sample_system 0 = Some sv \<and> connected (sy_world sample_system) 3 = Some (Usb d)
     \<and> heap d (sv_conn sv) = Some c \<and> concat (sv_out sv) = [9] \<and> sv_received sv = [sample_reply]
     \<and> subseq [sample_reply] (delivered (router d) (conn_rx c)) \<and> route_port sample_reply = conn_source_port c"
proof (rule sample_system_facts)
  fix sv d
  assume sv: "sy_clients sample_system = [0 \<mapsto> sv]" "connected (sy_world sample_system) 3 = Some (Usb d)"
    "sv_device sv = 3" "sv_received sv = [sample_reply]" "sv_out sv = [[9]]"
  have "tcp_laws (env_ops sample_daemon)" using rfc_ops_laws by (simp add: sample_daemon_ops)
  from system_isolation [OF this sample_joined_reached(1) sample_reached, of 0 sv] sv show ?thesis by auto
qed

text \<open>
  C6. Streams of clients: in every state the daemon reaches, what a client has sent so far is, byte
  for byte, the payloads of the packets queued for it followed by what is still in its buffer; these
  packets stand in its device's queue in that order and carry the source port of its connection.
\<close>
theorem system_streams:
  assumes "tcp_laws (env_ops env)" and "system_start s" and "(system_step env)\<^sup>*\<^sup>* s t"
    and "sy_clients t k = Some sv"
  shows "\<exists>d c. connected (sy_world t) (sv_device sv) = Some (Usb d) \<and> heap d (sv_conn sv) = Some c
     \<and> sv_input sv = concat (map pkt_bytes (sv_queued sv)) @ sv_buf sv
     \<and> subseq (sv_queued sv) (w_queue d)
     \<and> (\<forall>p \<in> set (sv_queued sv). from_port (conn_source_port c) p)"
proof -
  have "sys_inv t" using assms(1-3) by (rule sys_reach)
  then have "client_ok (sy_world t) sv" using assms(4) by (rule sys_inv_client)
  then show ?thesis unfolding client_ok_def serves_def upstream_ok_def by blast
qed

theorem system_streams_witness:
  "\<exists>sv d. sy_clients sample_system 0 = Some sv \<and> connected (sy_world sample_system) 3 = Some (Usb d)
     \<and> concat (map pkt_bytes (sv_queued sv)) = [1, 2, 3] \<and> subseq (sv_queued sv) (w_queue d)"
proof (rule sample_system_facts)
  fix sv d
  assume sv: "sy_clients sample_system = [0 \<mapsto> sv]" "connected (sy_world sample_system) 3 = Some (Usb d)"
    "sv_device sv = 3" "sv_input sv = [1, 2, 3]" "sv_buf sv = []"
  have "tcp_laws (env_ops sample_daemon)" using rfc_ops_laws by (simp add: sample_daemon_ops)
  from system_streams [OF this sample_joined_reached(1) sample_reached, of 0 sv] sv show ?thesis by auto
qed

text \<open>A turn leaves the channels as they are, and the connections of other clients.\<close>

lemma turn_delivered:
  assumes "proxy_step ops wenv wr ev (proxy_of d c sv) = (r, px)"
  shows "delivered (router (put_back n px d)) = delivered (router d)"
  using turn_router [OF assms] by (auto simp: proxy_of_def put_back_def)

definition untouched :: "system \<Rightarrow> system \<Rightarrow> nat \<Rightarrow> serving \<Rightarrow> bool" where
  "untouched t u k sv \<longleftrightarrow> (\<exists>d d' c. connected (sy_world t) (sv_device sv) = Some (Usb d) \<and> heap d (sv_conn sv) = Some c
     \<and> sy_clients u k = Some sv \<and> connected (sy_world u) (sv_device sv) = Some (Usb d')
     \<and> heap d' (sv_conn sv) = Some c \<and> prefix (w_queue d) (w_queue d')
     \<and> delivered (router d') (conn_rx c) = delivered (router d) (conn_rx c))"

lemma untouched_same: "client_ok (sy_world t) sv \<Longrightarrow> sy_clients t k = Some sv \<Longrightarrow> untouched t t k sv"
  unfolding untouched_def client_ok_def serves_def by blast

lemma untouched_entry:
  assumes "client_ok (sy_world t) sv" and "connected (sy_world t) i = Some (Usb d)" and "evolves N R d d'"
    and "delivered (router d') = delivered (router d)" and "sv_device sv = i \<Longrightarrow> sv_conn sv \<notin> N"
    and "sy_world u = table_insert i (Usb d') (sy_world t)" and "sy_clients u k = Some sv"
  shows "untouched t u k sv"
proof -
  obtain e c where e: "connected (sy_world t) (sv_device sv) = Some (Usb e)" "heap e (sv_conn sv) = Some c"
    using assms(1) unfolding client_ok_def serves_def by blast
  show ?thesis
  proof (cases "sv_device sv = i")
    case True
    with e assms(2,3,5) have "e = d" "heap d' (sv_conn sv) = Some c" "prefix (w_queue d) (w_queue d')"
      by (auto simp: evolves_def)
    with True e assms(4,6,7) show ?thesis unfolding untouched_def by simp
  next
    case False
    with e assms(6,7) show ?thesis unfolding untouched_def by simp
  qed
qed

lemma serve_untouched:
  assumes "tcp_laws ops" and "sys_inv t" and "sy_clients t k' = Some sv'" and "k' \<noteq> k"
  shows "untouched t (serve_turn ops wenv wr ev k t) k' sv'"
proof -
  have ok: "client_ok (sy_world t) sv'" using assms(2,3) by (rule sys_inv_client)
  have other: "sv_conn sv' \<notin> {sv_conn sv}" if "sy_clients t k = Some sv" "sv_device sv' = sv_device sv" for sv
    using sys_inv_alone [OF assms(2) that(1) assms(3) that(2)] assms(4) by blast
  show ?thesis
  proof (cases rule: serve_turn_cases [of ops wenv wr ev k t])
    case same
    with untouched_same [OF ok assms(3)] show ?thesis by simp
  next
    case (goes_on sv d c px)
    from untouched_entry [OF ok goes_on(2) put_back_evolves [OF assms(1) goes_on(5,3)] turn_delivered [OF goes_on(5)]
        other [OF goes_on(1)]] goes_on(6) assms(3,4) show ?thesis by simp
  next
    case (ends sv d c r px)
    from untouched_entry [OF ok ends(2) evolves_trans [OF put_back_evolves [OF assms(1) ends(4,3)] release_evolves(1)]
        trans [OF release_evolves(4) turn_delivered [OF ends(4)]] other [OF ends(1)]] ends(5) assms(3,4)
    show ?thesis by simp
  qed
qed

lemma begin_untouched:
  assumes "sys_inv t" and "sy_clients t k' = Some sv'"
  shows "untouched t (begin_turn ops wenv i port reads k t) k' sv'"
proof -
  have ok: "client_ok (sy_world t) sv'" using assms by (rule sys_inv_client)
  show ?thesis
  proof (cases "\<exists>d. connected (sy_world t) i = Some (Usb d)")
    case False
    then have "begin_turn ops wenv i port reads k t = t" by (auto simp: begin_turn_def split: option.splits Device.splits)
    with untouched_same [OF ok assms(2)] show ?thesis by simp
  next
    case True
    then obtain d where d: "connected (sy_world t) i = Some (Usb d)" by blast
    obtain res d' where b: "connect_begin ops wenv port d = (res, d')" by fastforce
    have di: "device_inv d" using sys_inv_usb [OF assms(1) d] by (simp add: usb_ok_def)
    show ?thesis
      by (rule untouched_entry [OF ok d begin_evolves [OF b di]])
        (use b d connect_begin_spec(1) [OF b di] assms(2) in \<open>simp_all add: begin_turn_def split: sum.splits prod.splits\<close>)
  qed
qed

lemma finish_untouched:
  assumes "sys_inv t" and "sy_clients t k' = Some sv'" and "k' \<noteq> k"
  shows "untouched t (finish_turn ops wenv answer k t) k' sv'"
proof -
  have ok: "client_ok (sy_world t) sv'" using assms(1,2) by (rule sys_inv_client)
  have dev: "evolves {} {wa_rx wa} d d' \<and> delivered (router d') = delivered (router d)"
    if "sy_waiting t k = Some wa" "connected (sy_world t) (wa_device wa) = Some (Usb d)"
      "connect_finish ops wenv (wa_dport wa) (wa_sport wa) (wa_rx wa) answer d = (res, d')" for wa d res d'
  proof -
    note wo = sys_inv_finished(2) [OF assms(1) that]
    have di: "device_inv d" using sys_inv_usb [OF assms(1) that(2)] by (simp add: usb_ok_def)
    from finish_evolves [OF that(3) di wo] connect_finish_spec(1) [OF that(3) di wo] show ?thesis by simp
  qed
  show ?thesis
  proof (cases rule: finish_turn_cases [of ops wenv answer k t])
    case same
    with untouched_same [OF ok assms(2)] show ?thesis by simp
  next
    case (fails wa d d' e)
    with untouched_entry [OF ok fails(2), of "{}" "{wa_rx wa}" d'] dev [OF fails(1-3)] assms(2) show ?thesis by simp
  next
    case (joins wa d d' n)
    with untouched_entry [OF ok joins(2), of "{}" "{wa_rx wa}" d'] dev [OF joins(1-3)] assms(2,3) show ?thesis by simp
  qed
qed

text \<open>
  C18. Turns do not disturb others: a turn of one client, whether it begins to connect, is answered
  or serves its connection, leaves every other client of a reachable state as it is, its connection,
  its channel and the packets it has queued included, also when the turn ends the connection or the
  attempt to connect; the device's queue only grows.
\<close>
theorem turn_leaves_others:
  assumes "tcp_laws (env_ops env)" and "system_start s" and "(system_step env)\<^sup>*\<^sup>* s t"
    and "sy_clients t k' = Some sv'" and "k' \<noteq> k"
    and "u = serve_turn (env_ops env) wenv wr ev k t \<or> u = begin_turn (env_ops env) wenv i port reads k t
       \<or> u = finish_turn (env_ops env) wenv answer k t"
  shows "\<exists>d d' c. connected (sy_world t) (sv_device sv') = Some (Usb d) \<and> heap d (sv_conn sv') = Some c
     \<and> sy_clients u k' = Some sv' \<and> connected (sy_world u) (sv_device sv') = Some (Usb d')
     \<and> heap d' (sv_conn sv') = Some c \<and> prefix (w_queue d) (w_queue d')
     \<and> delivered (router d') (conn_rx c) = delivered (router d) (conn_rx c)"
proof -
  have inv: "sys_inv t" using assms(1-3) by (rule sys_reach)
  have "untouched t u k' sv'"
    using assms(6) serve_untouched [OF assms(1) inv assms(4,5)] begin_untouched [OF inv assms(4)]
      finish_untouched [OF inv assms(4,5)] by blast
  then show ?thesis unfolding untouched_def .
qed

text \<open>A second client joins; its connection ends at its first turn, and the first client stays.\<close>

definition sample_second :: system where
  "sample_second = sample_connect 2 [] 1 sample_joined"

lemma sample_second_clients:
  "sy_clients sample_second 0 = Some (new_client 3 0 [Inr [1, 2, 3]])"
  "\<exists>n. sy_clients sample_second 1 = Some (new_client 3 n [])"
  "(system_step sample_daemon)\<^sup>*\<^sup>* sample_joined sample_second"
proof (atomize(full), rule sample_joined_facts)
  fix d
  assume a: "sample_joined = \<lparr>sy_world = table_insert 3 (Usb d) sample_world,
      sy_clients = [0 \<mapsto> new_client 3 0 [Inr [1, 2, 3]]], sy_waiting = Map.empty\<rparr>" "next_source_port d = 2"
    "delivered (router d) = (\<lambda>_. [])(0 := [sample_answer 1])" "next_chan (router d) = 1"
  have d: "connected (sy_world sample_joined) 3 = Some (Usb d)" by (simp add: a(1))
  have "(system_step sample_daemon)\<^sup>*\<^sup>* sample_joined sample_second"
    unfolding sample_second_def using d by (rule sample_connect_steps) (simp_all add: a(2), simp_all add: a(1))
  moreover have "sy_clients sample_second = (sy_clients sample_joined)(1 \<mapsto> new_client 3 (next_conn d) [])"
    unfolding sample_second_def
    by (rule sample_connect_facts [OF d a(2), of "[]" 1]) (simp_all add: a(3,4))
  then have "sy_clients sample_second 0 = Some (new_client 3 0 [Inr [1, 2, 3]])
      \<and> sy_clients sample_second 1 = Some (new_client 3 (next_conn d) [])" by (simp add: a(1))
  ultimately show "sy_clients sample_second 0 = Some (new_client 3 0 [Inr [1, 2, 3]])
      \<and> (\<exists>n. sy_clients sample_second 1 = Some (new_client 3 n []))
      \<and> (system_step sample_daemon)\<^sup>*\<^sup>* sample_joined sample_second" by blast
qed

theorem turn_leaves_others_witness:
  "\<exists>d c. connected (sy_world (serve_turn rfc_ops (open_env 0) (\<lambda>_ _. None) DeviceShutdown 1 sample_second)) 3 = Some (Usb d)
     \<and> heap d 0 = Some c \<and> sy_clients sample_second 1 \<noteq> None
     \<and> sy_clients (serve_turn rfc_ops (open_env 0) (\<lambda>_ _. None) DeviceShutdown 1 sample_second) 0 =
         Some (new_client 3 0 [Inr [1, 2, 3]])"
proof -
  have laws: "tcp_laws (env_ops sample_daemon)" using rfc_ops_laws by (simp add: sample_daemon_ops)
  from sample_joined_reached(2) sample_second_clients(3)
  have "(system_step sample_daemon)\<^sup>*\<^sup>* sample_start sample_second" by (rule rtranclp_trans)
  from turn_leaves_others [OF laws sample_joined_reached(1) this sample_second_clients(1), of 1,
      OF _ disjI1 [OF refl], of "open_env 0" "\<lambda>_ _. None" DeviceShutdown] sample_second_clients(2)
  show ?thesis by (auto simp: sample_daemon_ops new_client_def)
qed

section \<open>Turns and the loop\<close>

text \<open>The channel has, from place \<open>n\<close> on, what the events take from it.\<close>

primrec channel_has :: "UsbDevicePacket list \<Rightarrow> nat \<Rightarrow> proxy_event list \<Rightarrow> bool" where
  "channel_has ch n [] = True"
| "channel_has ch n (ev # evs) = (channel_gives ch n ev
     \<and> channel_has ch (if taken_packet ev = None then n else Suc n) evs)"

definition turns ::
    "tcp_ops \<Rightarrow> wenv \<Rightarrow> (bytes list \<Rightarrow> bytes \<Rightarrow> io_error option) \<Rightarrow> proxy_event list \<Rightarrow> nat \<Rightarrow> system \<Rightarrow> system" where
  "turns ops wenv wr evs k s = fold (\<lambda>ev. serve_turn ops wenv wr ev k) evs s"

lemma put_back_again:
  assumes "px_router px' \<noteq> None"
  shows "put_back n px' (put_back n px d) = put_back n px' d"
  using assms by (auto simp: put_back_def)

lemma proxy_of_back:
  assumes "px_router px = Some rt"
  shows "proxy_of (put_back n px d) (px_conn px) (sv_update d ev px sv) = px"
  using assms by (simp add: proxy_of_def put_back_def sv_update_def)

lemma turns_gone: "sy_clients s k = None \<Longrightarrow> turns ops wenv wr evs k s = s"
  by (induction evs) (simp_all add: turns_def serve_turn_def)

lemma turns_Cons: "turns ops wenv wr (ev # evs) k s = turns ops wenv wr evs k (serve_turn ops wenv wr ev k s)"
  by (simp add: turns_def)

lemma proxy_run_router:
  "proxy_run ops wenv wr evs px = (r, px') \<Longrightarrow> px_router px = Some rt \<Longrightarrow> \<exists>rt'. px_router px' = Some rt'"
proof (induction evs arbitrary: px rt)
  case (Cons ev evs)
  obtain r1 px1 where st: "proxy_step ops wenv wr ev px = (r1, px1)" by fastforce
  with turn_router [OF st Cons.prems(2)] Cons show ?case by (auto split: option.splits)
qed simp

lemma turns_run:
  assumes "sy_clients s k = Some sv" and "connected (sy_world s) (sv_device sv) = Some (Usb d)"
    and "heap d (sv_conn sv) = Some c" and "channel_has (delivered (router d) (conn_rx c)) (sv_taken sv) evs"
    and "proxy_run ops wenv wr evs (proxy_of d c sv) = (r, px)"
  shows "connected (sy_world (turns ops wenv wr evs k s)) (sv_device sv) =
       Some (Usb (if r = None then put_back (sv_conn sv) px d
                  else release ops wenv (sv_conn sv) (put_back (sv_conn sv) px d)))
     \<and> (sy_clients (turns ops wenv wr evs k s) k = None \<longleftrightarrow> r \<noteq> None)"
  using assms
proof (induction evs arbitrary: s sv d c)
  case Nil
  then have "put_back (sv_conn sv) px d = d" by (intro put_back_cong [of d _ c]) (auto simp: proxy_of_def)
  with Nil show ?case by (auto simp: turns_def)
next
  case (Cons ev evs)
  obtain r1 px1 where st: "proxy_step ops wenv wr ev (proxy_of d c sv) = (r1, px1)" by fastforce
  from Cons.prems(4) have gives: "channel_gives (delivered (router d) (conn_rx c)) (sv_taken sv) ev" by simp
  show ?case
  proof (cases r1)
    case None
    let ?d = "put_back (sv_conn sv) px1 d" and ?sv = "sv_update d ev px1 sv"
    let ?s = "serve_turn ops wenv wr ev k s"
    have s: "?s = s\<lparr>sy_world := table_insert (sv_device sv) (Usb ?d) (sy_world s), sy_clients := (sy_clients s)(k := Some ?sv)\<rparr>"
      using serve_turn_on [OF Cons.prems(1-3) gives] st None by simp
    obtain rt where rt: "px_router px1 = Some rt" using turn_router [OF st] by (auto simp: proxy_of_def)
    have same: "sv_device ?sv = sv_device sv" "sv_conn ?sv = sv_conn sv" by (simp_all add: sv_update_def)
    have run: "proxy_run ops wenv wr evs (proxy_of ?d (px_conn px1) ?sv) = (r, px)"
      using Cons.prems(5) st None proxy_of_back [OF rt] by simp
    obtain rt' where "px_router px = Some rt'"
      using proxy_run_router [OF run] by (auto simp: proxy_of_def)
    then have again: "put_back (sv_conn sv) px ?d = put_back (sv_conn sv) px d" by (intro put_back_again) simp
    have "conn_rx (px_conn px1) = conn_rx c" using turn_keeps [OF st] by (simp add: proxy_of_def)
    then have "channel_has (delivered (router ?d) (conn_rx (px_conn px1))) (sv_taken ?sv) evs"
      using Cons.prems(4) turn_delivered [OF st] by (simp add: sv_update_def)
    moreover have "sy_clients ?s k = Some ?sv" "connected (sy_world ?s) (sv_device ?sv) = Some (Usb ?d)"
      "heap ?d (sv_conn ?sv) = Some (px_conn px1)"
      by (simp_all add: s same put_back_def)
    ultimately show ?thesis
      using Cons.IH [of ?s ?sv ?d "px_conn px1"] run by (simp add: turns_Cons same again)
  next
    case (Some x)
    with Cons.prems(5) st have r: "r = Some x" "px = px1" by auto
    show ?thesis
      using serve_turn_over [OF Cons.prems(1-3) gives] st Some r by (simp add: turns_Cons turns_gone)
  qed
qed

text \<open>
  C17. Turns refine the loop: when only one client's turns happen, and the channel of its connection
  has what they take from it, the device ends up as the loop of \<open>handle_usb_device_connect\<close> leaves it,
  the connection dropped when the loop has returned, and the client is gone exactly then.
\<close>
theorem turns_are_the_loop:
  assumes "sy_clients s k = Some sv" and "connected (sy_world s) (sv_device sv) = Some (Usb d)"
    and "heap d (sv_conn sv) = Some c" and "channel_has (delivered (router d) (conn_rx c)) (sv_taken sv) evs"
    and "handle_usb_device_connect ops wenv wr evs (proxy_of d c sv) = (r, px)"
  shows "connected (sy_world (turns ops wenv wr evs k s)) (sv_device sv) = Some (Usb (d\<lparr>
       heap := (heap d)(sv_conn sv := (if r = None then Some (px_conn px) else None)),
       router := the (px_router px), w_queue := px_queue px\<rparr>))
     \<and> (sy_clients (turns ops wenv wr evs k s) k = None \<longleftrightarrow> r \<noteq> None)"
proof -
  obtain r1 px1 where run: "proxy_run ops wenv wr evs (proxy_of d c sv) = (r1, px1)" by fastforce
  obtain rt where rt: "px_router px1 = Some rt"
    using proxy_run_router [OF run] by (auto simp: proxy_of_def)
  note turns = turns_run [OF assms(1-4) run]
  show ?thesis
  proof (cases r1)
    case None
    with assms(5) run have "r = None" "px = px1" by (simp_all add: handle_usb_device_connect_def)
    with turns None rt show ?thesis by (simp add: put_back_def)
  next
    case (Some x)
    obtain rt' q where dr: "conn_drop ops wenv (px_conn px1) (Some rt) (px_queue px1) = (rt', q)" by fastforce
    then obtain rt2 where rt2: "rt' = Some rt2"
      by (auto simp: conn_drop_def close_blocking_def Let_def split: prod.splits sum.splits if_splits)
    have "release ops wenv (sv_conn sv) (put_back (sv_conn sv) px1 d) =
        d\<lparr>heap := (heap d)(sv_conn sv := None), router := rt2, w_queue := q\<rparr>"
      using dr rt rt2 by (simp add: release_def put_back_def)
    moreover have "r = Some x" "px_router px = Some rt2" "px_queue px = q"
      using assms(5) run Some dr rt rt2 by (auto simp: handle_usb_device_connect_def)
    ultimately show ?thesis using turns Some by simp
  qed
qed

theorem turns_are_the_loop_witness:
  "\<exists>d c r px. connected (sy_world sample_arrived) 3 = Some (Usb d) \<and> heap d 0 = Some c
     \<and> handle_usb_device_connect rfc_ops (open_env 0) (\<lambda>_ _. None)
          [ClientReady, DeviceReady (Received sample_reply), DeviceShutdown]
          (proxy_of d c (new_client 3 0 [Inr [1, 2, 3]])) = (r, px)
     \<and> connected (sy_world (turns rfc_ops (open_env 0) (\<lambda>_ _. None)
          [ClientReady, DeviceReady (Received sample_reply), DeviceShutdown] 0 sample_arrived)) 3 =
        Some (Usb (d\<lparr>heap := (heap d)(0 := (if r = None then Some (px_conn px) else None)),
          router := the (px_router px), w_queue := px_queue px\<rparr>))"
proof (rule sample_arrived_facts)
  fix d c
  let ?sv = "new_client 3 0 [Inr [1, 2, 3]]"
  let ?evs = "[ClientReady, DeviceReady (Received sample_reply), DeviceShutdown]"
  assume a: "sample_arrived = \<lparr>sy_world = table_insert 3 (Usb d) sample_world, sy_clients = [0 \<mapsto> ?sv], sy_waiting = Map.empty\<rparr>"
    "heap d 0 = Some c" "conn_rx c = 0" "delivered (router d) 0 = [sample_answer 1, sample_reply]"
  obtain r px where run: "handle_usb_device_connect rfc_ops (open_env 0) (\<lambda>_ _. None) ?evs (proxy_of d c ?sv) = (r, px)"
    by fastforce
  have "sy_clients sample_arrived 0 = Some ?sv" "connected (sy_world sample_arrived) (sv_device ?sv) = Some (Usb d)"
    "heap d (sv_conn ?sv) = Some c" "channel_has (delivered (router d) (conn_rx c)) (sv_taken ?sv) ?evs"
    unfolding a(1) using a(2-4) by (simp_all add: new_client_def channel_gives_def)
  from turns_are_the_loop [OF this run] this run show ?thesis
    by (intro exI [of _ d] exI [of _ c] exI [of _ r] exI [of _ px]) (simp add: new_client_def)
qed

section \<open>Listeners\<close>

text \<open>
  The steps of \<^verbatim>\<open>System\<close> with those of the watchers that announce what they do (a USB device that
  is connected is not announced).
\<close>

inductive announced_step :: "daemon_env \<Rightarrow> system \<Rightarrow> system \<Rightarrow> bool" for env where
  ann_begin: "sy_clients s k = None \<Longrightarrow> sy_waiting s k = None \<Longrightarrow>
     announced_step env s (begin_turn (env_ops env) (env_writer env) i port reads k s)"
| ann_finish: "announced_step env s (finish_turn (env_ops env) (env_writer env) answer k s)"
| ann_serve: "announced_step env s (serve_turn (env_ops env) (env_writer env) wr ev k s)"
| ann_task: "connected (sy_world s) i = Some (Usb d) \<Longrightarrow> task_step d d' \<Longrightarrow>
     announced_step env s (s\<lparr>sy_world := table_insert i (Usb d') (sy_world s)\<rparr>)"
| ann_watch: "watch_step env (sy_world s) w' \<Longrightarrow>
     announced_step env s (watch_turn w' s)"

text \<open>What a client or a task does to a device does not change what it is.\<close>

definition alike :: "UsbDevice \<Rightarrow> UsbDevice \<Rightarrow> bool" where
  "alike d d' \<longleftrightarrow> info d' = info d \<and> core_id d' = core_id d"

lemma alike_trans: "alike d e \<Longrightarrow> alike e f \<Longrightarrow> alike d f"
  by (simp add: alike_def)

lemma begin_alike: "connect_begin ops env dport d = (res, d') \<Longrightarrow> alike d d'"
  by (auto simp: alike_def connect_begin_def get_next_source_port_def Let_def
      split: prod.splits sum.splits if_splits)

lemma finish_alike: "connect_finish ops env dport sport rx answer d = (res, d') \<Longrightarrow> alike d d'"
  by (auto simp: alike_def connect_finish_def add_conn_def Let_def split: prod.splits sum.splits)

lemma task_alike: "task_step d d' \<Longrightarrow> alike d d'"
proof (induction rule: task_step.induct)
  case (task_read renv p d d')
  then show ?case using handle_packet_router by (fastforce simp: alike_def increment_recv_seq_def)
next
  case (task_write p d p' d')
  then show ?case by (auto simp: alike_def stamp_def take_send_seq_def split: UsbDevicePacketHeader.splits)
qed

lemma put_back_alike: "alike d (put_back n px d)"
  by (simp add: alike_def put_back_def)

lemma release_alike: "alike d (release ops wenv n d)"
  by (simp add: alike_def release_def split: option.splits prod.splits)

text \<open>What a listener can tell of the entries of the table.\<close>

definition listing :: "world \<Rightarrow> u64 \<Rightarrow> (string \<times> bool \<times> ConnectionType \<times> u64 \<times> bool) option" where
  "listing w j = map_option (\<lambda>d. (ser d, as_network d = None, connection_type d, device_id d, readable d)) (connected w j)"

lemma listing_get:
  assumes "listing w' = listing w" and "connected w j = Some e"
  obtains e' where "connected w' j = Some e'" "ser e' = ser e" "(as_network e' = None) = (as_network e = None)"
    "connection_type e' = connection_type e" "device_id e' = device_id e" "readable e' = readable e"
  using fun_cong [OF assms(1), of j] assms(2) by (auto simp: listing_def)

lemma visible_sub:
  assumes "listing w' = listing w"
  shows "visible w \<subseteq> visible w'"
proof
  fix i
  assume "i \<in> visible w"
  then obtain d where d: "connected w i = Some d"
    "as_network d = None \<or> (\<forall>j e. connected w j = Some e \<longrightarrow> ser e = ser d \<longrightarrow> j = i)"
    by (auto simp: visible_def)
  obtain d' where d': "connected w' i = Some d'" "ser d' = ser d" "(as_network d' = None) = (as_network d = None)"
    using listing_get [OF assms d(1)] by metis
  have "j = i" if "as_network d \<noteq> None" and e: "connected w' j = Some e" "ser e = ser d'" for j e
  proof -
    obtain e0 where "connected w j = Some e0" "ser e0 = ser e"
      using listing_get [OF assms [symmetric] e(1)] by metis
    with d(2) that(1) e(2) d'(2) show ?thesis by simp
  qed
  with d' show "i \<in> visible w'" by (auto simp: visible_def)
qed

lemma table_inv_listing:
  assumes "listing w' = listing w" and "counter w' = counter w" and "table_inv w"
  shows "table_inv w'"
proof -
  have "device_id d = i \<and> readable d \<and> unat i < unat (counter w')" if d: "connected w' i = Some d" for i d
  proof -
    obtain d0 where "connected w i = Some d0" "device_id d0 = device_id d" "readable d0 = readable d"
      using listing_get [OF assms(1) [symmetric] d] by metis
    with table_inv_entry [OF assms(3)] assms(2) show ?thesis by fastforce
  qed
  moreover have "i = j" if d: "connected w' i = Some d" and e: "connected w' j = Some e"
    and same: "connection_type d = connection_type e" "ser d = ser e" for i j d e
  proof -
    obtain d0 where d0: "connected w i = Some d0" "connection_type d0 = connection_type d" "ser d0 = ser d"
      using listing_get [OF assms(1) [symmetric] d] by metis
    obtain e0 where "connected w j = Some e0" "connection_type e0 = connection_type e" "ser e0 = ser e"
      using listing_get [OF assms(1) [symmetric] e] by metis
    with table_inv_unique [OF assms(3) d0(1)] d0 same show ?thesis by simp
  qed
  ultimately show ?thesis by (simp add: table_inv_def)
qed

lemma table_insert_tracked:
  assumes "table_inv w" and "connected w i = Some (Usb d)" and "alike d d'"
  shows "tracked w (table_insert i (Usb d') w)"
proof -
  have same: "listing (table_insert i (Usb d') w) = listing w"
    using assms(2,3) by (auto simp: listing_def alike_def ser_def readable_def fun_eq_iff)
  have "visible (table_insert i (Usb d') w) = visible w"
    using visible_sub [OF same] visible_sub [OF same [symmetric]] by simp
  moreover have "table_inv (table_insert i (Usb d') w)"
    using table_inv_listing [OF same _ assms(1)] by simp
  ultimately show ?thesis by (intro trackedI [where evs = "[]"]) simp_all
qed

lemma serve_turn_tracked:
  assumes "table_inv (sy_world s)"
  shows "tracked (sy_world s) (sy_world (serve_turn ops wenv wr ev k s))"
proof (cases rule: serve_turn_cases [of ops wenv wr ev k s])
  case same
  with tracked_refl [OF assms] show ?thesis by simp
next
  case (goes_on sv d c px)
  with table_insert_tracked [OF assms goes_on(2) put_back_alike] show ?thesis by simp
next
  case (ends sv d c r px)
  with table_insert_tracked [OF assms ends(2) alike_trans [OF put_back_alike release_alike]] show ?thesis by simp
qed

lemma begin_turn_tracked:
  assumes "table_inv (sy_world s)"
  shows "tracked (sy_world s) (sy_world (begin_turn ops wenv i port reads k s))"
proof (cases "\<exists>d. connected (sy_world s) i = Some (Usb d)")
  case False
  then have "begin_turn ops wenv i port reads k s = s" by (auto simp: begin_turn_def split: option.splits Device.splits)
  with tracked_refl [OF assms] show ?thesis by simp
next
  case True
  then obtain d where d: "connected (sy_world s) i = Some (Usb d)" by blast
  obtain res d' where b: "connect_begin ops wenv port d = (res, d')" by fastforce
  with d have "sy_world (begin_turn ops wenv i port reads k s) = table_insert i (Usb d') (sy_world s)"
    by (simp add: begin_turn_def split: sum.splits prod.splits)
  with table_insert_tracked [OF assms d begin_alike [OF b]] show ?thesis by simp
qed

lemma finish_turn_tracked:
  assumes "table_inv (sy_world s)"
  shows "tracked (sy_world s) (sy_world (finish_turn ops wenv answer k s))"
proof (cases rule: finish_turn_cases [of ops wenv answer k s])
  case same
  with tracked_refl [OF assms] show ?thesis by simp
next
  case (fails wa d d' e)
  with table_insert_tracked [OF assms fails(2) finish_alike] show ?thesis by simp
next
  case (joins wa d d' n)
  with table_insert_tracked [OF assms joins(2) finish_alike] show ?thesis by simp
qed

lemma announced_step_tracks:
  assumes "announced_step env s t" and "table_inv (sy_world s)" and "env_law env"
  shows "tracked (sy_world s) (sy_world t)"
  using assms(1)
proof cases
  case (ann_begin k i port reads)
  with begin_turn_tracked [OF assms(2)] show ?thesis by simp
next
  case (ann_finish answer k)
  with finish_turn_tracked [OF assms(2)] show ?thesis by simp
next
  case (ann_serve wr ev k)
  with serve_turn_tracked [OF assms(2)] show ?thesis by simp
next
  case (ann_task i d d')
  with table_insert_tracked [OF assms(2) ann_task(2) task_alike] show ?thesis by simp
next
  case (ann_watch w')
  with watch_step_tracks [OF _ assms(2,3)] show ?thesis by (simp add: watch_turn_def)
qed

interpretation daemon_watchers: machine "\<lambda>s. env_law env \<and> table_inv (sy_world s) \<and> s = s0" "announced_step env"
  "\<lambda>s. env_law env \<and> tracked (sy_world s0) (sy_world s)" for env s0
proof unfold_locales
  show "env_law env \<and> tracked (sy_world s0) (sy_world s)" if "env_law env \<and> table_inv (sy_world s) \<and> s = s0" for s
    using that tracked_refl by blast
  show "env_law env \<and> tracked (sy_world s0) (sy_world t)"
    if "env_law env \<and> tracked (sy_world s0) (sy_world s)" "announced_step env s t" for s t
    using that announced_step_tracks tracked_trans unfolding tracked_def by metis
qed


text \<open>A network device is added, and a client begins to connect.\<close>

definition sample_listed :: system where
  "sample_listed = \<lparr>sy_world = send_event (Attached 5) sample_added, sy_clients = Map.empty, sy_waiting = Map.empty\<rparr>"


end
