(* ===== verification/Spec2Isabelle.thy ===== *)
theory Spec2Isabelle
  imports Packet_Builder Listening Rusb_Io Daemon Driver_Setup Sessions
begin

text \<open>
  A verification library for rusbmux, a daemon that lets several clients on a computer talk to
  services on Apple devices over USB and the network. This theory collects the library; each of the
  theories below opens with its own summary. Paths are relative to \<^verbatim>\<open>src/\<close> of the repository.

  \<^bold>\<open>The program.\<close> A USB device speaks a small multiplexing protocol: packets with a header of version
  1 or 2, a TCP header and a payload (\<^verbatim>\<open>src/parser/device_mux\<close>). One reader task and one writer task
  per device (\<^verbatim>\<open>src/device/usb.rs\<close>) move packets between the endpoints (\<^verbatim>\<open>src/usb_backend\<close>) and the
  connections (\<^verbatim>\<open>src/conn/usb.rs\<close>); a router (\<^verbatim>\<open>src/device/packet_router.rs\<close>) hands each packet to
  the connection of its port. Network devices (\<^verbatim>\<open>src/device/network.rs\<close>) are reached over TCP and kept
  alive with a heartbeat. Two watchers (\<^verbatim>\<open>src/watcher\<close>) keep the table of devices and broadcast
  events. Clients (\<^verbatim>\<open>src/handler\<close>) send property lists (\<^verbatim>\<open>src/parser/usbmux.rs\<close>): they list
  devices, listen to events, read and write pair records, or turn their socket into a connection.
  \<^verbatim>\<open>src/daemon.rs\<close> starts and stops all this.

  \<^bold>\<open>Theories, from the bottom.\<close>
  \<^item> \<open>Prelude\<close>: words and bytes, outcomes (value, error or panic), streams, and the interface
    locales \<open>wire_record\<close>, \<open>framed\<close>, \<open>registry\<close> and \<open>machine\<close>. \<open>Errors\<close>: \<^verbatim>\<open>src/error/mod.rs\<close>
    with the printed forms of the errors, \<^verbatim>\<open>src/utils.rs\<close>. \<open>Utf8\<close>, \<open>Plist\<close>, \<open>Tcp_Header\<close>: the part of the standard library and of the
    data of other crates the code uses.
  \<^item> \<open>Device_Mux\<close>: headers, payloads, the slice parser, the stream parser and the encoder. The
    parsers invert the encoder and agree with each other; what an accepted frame looks like; exactly
    when the stream parser panics. The structs interpret \<open>wire_record\<close>, both parsers \<open>framed\<close>.
    \<open>Packet_Builder\<close>: the typed builder; what it builds parses back.
  \<^item> \<open>Packet_Router\<close>: the port table (a \<open>registry\<close>), delivery, and the lock that \<open>route\<close> takes twice.
  \<^item> \<open>Usb_Conn\<close>: handshake, sending, receiving, flow control with 32-bit counters that wrap, reset
    and destructor. \<open>Usb_Backend\<close>: device information, identifiers, hotplug of both backends, with
    the stream of libusb and polling, and the search for endpoints.
  \<^item> \<open>Usb_Device\<close>: opening, the reader and writer loops, source ports, connecting, shutting down.
    The steps of a device are an inductive relation that interprets \<open>machine\<close>: connections are
    isolated from each other in every reachable state.
  \<^item> \<open>Rusb_Io\<close>: the transfers of libusb and the reader and writer on top of them, in single polls. The
    writer turns the calls of the writer loop into one transfer per packet; the reader delivers the
    data of the transfers; the life of a transfer is a step relation (another \<open>machine\<close>).
  \<^item> \<open>Usbmux\<close>: packets and requests of clients. \<open>Network_Device\<close>: network devices, heartbeat, power
    assertion with its renewal task (a \<open>machine\<close>: held without a gap) and address buffers.
  \<^item> \<open>Watcher\<close>: the table, the events and both watchers as steps on a \<open>world\<close>. The devices a client
    should see are \<open>visible\<close>; a listener that applies the events tracks this set.
  \<^item> \<open>Pair_Records\<close>: results, pair records and the system identifier, on a session of files and
    writes. \<open>Proxy\<close>: the loop that serves a USB connection, as a sequence of the branches of
    \<open>select\<close>; nothing is lost on the way to the device. \<open>Handlers\<close>: the dispatch of requests and the
    task of a client. \<open>Listening\<close>: what clients are shown and told, composed with the watchers.
  \<^item> \<open>Handshake\<close>: connecting in the two parts between which a client task waits for the device; run
    one after the other they are \<open>connect\<close>. \<open>System\<close>: the daemon as a whole, one step relation in which
    the watchers, the tasks of the devices, handshakes and any number of connected clients interleave
    turn by turn. A turn of a client is a turn of the loop of \<open>Proxy\<close> on the device as the others have
    left it, and is shown to be steps of the device machine of \<open>Usb_Device\<close>. \<open>System_Inv\<close>: the
    invariant, which every step keeps and which interprets \<open>machine\<close>. \<open>Sessions\<close>: what follows in
    every reachable state (isolation of clients, their streams in order, turns that leave others alone),
    that turns of one client add up to the loop, and that listeners follow the table whatever clients do.
  \<^item> \<open>Daemon\<close>: the start, the signals and the end. \<open>Driver_Setup\<close>: the driver tool for Windows.

  \<^bold>\<open>State and effects.\<close> A struct is a record, an enum a datatype, machine integers are words. Shared
  state is passed explicitly: a device with its queue, router and heap of connections; the world; a
  session. Channels are lists of what was sent. Every \<open>?\<close>, early return and panic is a branch. A
  loop is recursion: \<open>reader_loop\<close>, \<open>await_version\<close> and \<open>parse_entities\<close> terminate because each turn
  takes bytes or lines off its input; \<open>handle_client\<close> is a partial function to \<open>option\<close>, and it is
  proved for which ends of the stream it returns. No definition uses fuel. Waiting is a result of
  its own (\<open>None\<close>, \<open>Busy\<close>, \<open>Pending\<close>), and the order in which things become ready is an argument.

  \<^bold>\<open>Parameters.\<close> Code of other crates is an argument of the definitions. Where a property needs
  something of it there is a named hypothesis: \<open>tcp_laws\<close> (the TCP header codec of \<open>etherparse\<close>,
  which the model of RFC 793 headers \<open>rfc_ops\<close> satisfies), \<open>env_law\<close> (walking the concurrent map
  visits its keys), \<open>healthy\<close> (no file operation or write fails), and the reading back of one
  property list. Each is met by a concrete instance in a witness.

  \<^bold>\<open>What the properties found.\<close> Besides correctness, some theorems pin down where the code does
  something else than it means to: the stream parser panics on a version packet of the wrong size,
  routing to a closed connection blocks the reader task, connecting a USB device is never announced
  to listeners, a saved pair record comes back as XML text, an abandoned receive loses its packet, a
  client task can spin for ever, a libusb transfer can be cancelled after it was freed, and a signal
  that cannot be registered stops the daemon.

  \<^bold>\<open>Not modelled.\<close> \<^verbatim>\<open>src/main.rs\<close> and \<^verbatim>\<open>src/lib.rs\<close> only call the daemon and declare modules and
  marker traits. Logging has no effect on the state. The memory order of the atomics is not modelled,
  each operation is one step. Raw pointers and the event thread of libusb belong to libusb and its
  binding. \<open>copy_bidirectional\<close>, the mDNS browser, the services of \<open>idevice\<close> and the derived
  deserialisation of requests are code of other crates. Times and pauses are not modelled. In
  \<open>System\<close> what a task does between two waits for its client or its device is one step, and so are a
  shutdown and the handling of one event of a watcher; what the loop is told of a shutdown may come at
  any time, and a client is not followed further when its device is taken out of the table. Interleavings
  at the awaits of a full channel or a lock are left open.
\<close>

end
